(* ===== verification/Prelude.thy ===== *)
theory Prelude
  imports Main "HOL-Library.Word"
begin

text \<open>
  Shared vocabulary of the development: the fixed-width integers of the C sources, byte
  buffers, the error codes the functions return, and the generic list and word lemmas that
  the component theories rely on. Conventions used everywhere:
  \<^item> \<open>uint8_t\<close>, \<open>uint32_t\<close>, \<open>uint64_t\<close> are \<open>8 word\<close>, \<open>32 word\<close>, \<open>64 word\<close>; a shift left is
    \<open>push_bit\<close>, a logical shift right is \<open>drop_bit\<close>, a C cast between widths is \<open>ucast\<close>.
  \<^item> A pointer with its length is one list. A pointer that the code compares with NULL is an
    \<open>option\<close>; pointer arithmetic \<open>p + n\<close> is \<open>drop n p\<close>.
  \<^item> An output parameter is (part of) the value returned. A function that returns a negative
    \<open>errno\<close> or a non-negative value returns a sum, \<open>Inl\<close> for the error.
  \<^item> Calls of the \<open>LOG_*\<close> macros write to stderr only and are left out of the other components.
\<close>

unbundle bit_operations_syntax

section \<open>Types\<close>

type_synonym u8 = "8 word"
type_synonym u16 = "16 word"
type_synonym u32 = "32 word"
type_synonym u64 = "64 word"
type_synonym u128 = "128 word"
type_synonym bytes = "u8 list"

text \<open>The \<open>errno\<close> values that the sources name, and any other one that a system call reports.\<close>

datatype errno = EINVAL | EBADMSG | EMSGSIZE | ENOSPC | EFAULT | EACCES | EAFNOSUPPORT
  | ENOSYS | EAGAIN | EWOULDBLOCK | EINTR | EOTHER nat | SODIUM_MISUSE

type_synonym 'a result = "errno + 'a"

text \<open>Sequencing of calls whose error is returned at once.\<close>

definition rbind :: "'a result \<Rightarrow> ('a \<Rightarrow> 'b result) \<Rightarrow> 'b result" where
  "rbind r f = (case r of Inl e \<Rightarrow> Inl e | Inr x \<Rightarrow> f x)"

lemma rbind_simps [simp]: "rbind (Inl e) f = Inl e" "rbind (Inr x) f = f x"
  by (simp_all add: rbind_def)

lemma rbind_eq_Inr: "rbind r f = Inr y \<longleftrightarrow> (\<exists>x. r = Inr x \<and> f x = Inr y)"
  by (cases r) simp_all

named_theorems layout_simps
named_theorems vpn_defs

section \<open>Byte buffers\<close>

text \<open>\<open>memcpy(buf + off, src, sizeof src)\<close> and the like: overwrite a slice of a buffer.\<close>

definition memcpy_at :: "'a list \<Rightarrow> nat \<Rightarrow> 'a list \<Rightarrow> 'a list" where
  "memcpy_at buf off src = take off buf @ src @ drop (off + length src) buf"

text \<open>The \<open>n\<close> elements of a buffer that start at offset \<open>off\<close>.\<close>

definition slice :: "nat \<Rightarrow> nat \<Rightarrow> 'a list \<Rightarrow> 'a list" where
  "slice off n buf = take n (drop off buf)"

definition zeros :: "nat \<Rightarrow> bytes" where
  "zeros n = replicate n 0"

lemma length_zeros [simp]: "length (zeros n) = n"
  by (simp add: zeros_def)

lemma length_memcpy_at [simp]:
  "off + length src \<le> length buf \<Longrightarrow> length (memcpy_at buf off src) = length buf"
  by (simp add: memcpy_at_def)

lemma length_slice [simp]: "length (slice off n buf) = min n (length buf - off)"
  by (simp add: slice_def)

lemma slice_memcpy_same:
  "off + length src \<le> length buf \<Longrightarrow> n = length src \<Longrightarrow> slice off n (memcpy_at buf off src) = src"
  by (simp add: slice_def memcpy_at_def)

lemma slice_memcpy_before:
  "o1 + n \<le> off \<Longrightarrow> off \<le> length buf \<Longrightarrow> slice o1 n (memcpy_at buf off src) = slice o1 n buf"
  by (simp add: slice_def memcpy_at_def take_drop)

lemma slice_memcpy_after:
  "off + length src \<le> o1 \<Longrightarrow> off + length src \<le> length buf \<Longrightarrow>
   slice o1 n (memcpy_at buf off src) = slice o1 n buf"
  by (simp add: slice_def memcpy_at_def)

lemma nth_memcpy_at:
  "off + length src \<le> length buf \<Longrightarrow> i < length buf \<Longrightarrow>
   memcpy_at buf off src ! i =
     (if i < off then buf ! i else if i < off + length src then src ! (i - off) else buf ! i)"
  by (auto simp: memcpy_at_def nth_append)

lemma slice_full: "length buf = n \<Longrightarrow> slice 0 n buf = buf"
  by (simp add: slice_def)

lemma slice_append_left: "off + n \<le> length xs \<Longrightarrow> slice off n (xs @ ys) = slice off n xs"
  by (simp add: slice_def)

lemma slice_append_right: "length xs \<le> off \<Longrightarrow> slice off n (xs @ ys) = slice (off - length xs) n ys"
  by (simp add: slice_def)

lemma take_slice_split: "take (a + n) xs = take a xs @ slice a n xs"
  by (simp add: slice_def take_add)

lemma nth_slice: "i < n \<Longrightarrow> off + i < length buf \<Longrightarrow> slice off n buf ! i = buf ! (off + i)"
  by (simp add: slice_def)

text \<open>
  Filling a zeroed area from its start: the buffer is what is written so far, the zeros left and the
  bytes behind the area.
\<close>

lemma memcpy_zeros: "n \<le> length buf \<Longrightarrow> memcpy_at buf 0 (zeros n) = zeros n @ drop n buf"
  by (simp add: memcpy_at_def)

lemma memcpy_fill:
  "length xs = off \<Longrightarrow> length src \<le> n \<Longrightarrow>
   memcpy_at (xs @ zeros n @ rest) off src = (xs @ src) @ zeros (n - length src) @ rest"
  by (simp add: memcpy_at_def zeros_def)

lemma memcpy_fill_end:
  "length xs = off \<Longrightarrow> length src = n \<Longrightarrow> memcpy_at (xs @ zeros n @ rest) off src = xs @ src @ rest"
  by (simp add: memcpy_at_def zeros_def)

lemma memcpy_over:
  "length xs = off \<Longrightarrow> memcpy_at (xs @ rest) off src = (xs @ src) @ drop (length src) rest"
  by (simp add: memcpy_at_def)

lemma drop_append_exact: "length xs = n \<Longrightarrow> drop n (xs @ ys) = ys"
  by simp

text \<open>Concatenations of pieces of one length.\<close>

lemma length_concat_uniform:
  "(\<And>k. k \<in> set ks \<Longrightarrow> length (f k) = c) \<Longrightarrow> length (concat (map f ks)) = length ks * c"
  by (induction ks) auto

lemma nth_concat_uniform:
  assumes "\<And>k. k < length ks \<Longrightarrow> length (f (ks ! k)) = c" "i < length ks * c"
  shows "concat (map f ks) ! i = f (ks ! (i div c)) ! (i mod c)"
  using assms
proof (induction ks arbitrary: i)
  case (Cons a ks)
  have c: "length (f a) = c" using Cons.prems(1) [of 0] by simp
  show ?case
  proof (cases "i < c")
    case True
    then show ?thesis using c by (simp add: nth_append)
  next
    case False
    have "0 < c" using Cons.prems(2) by (cases c) auto
    then have "i div c = Suc ((i - c) div c)" "i mod c = (i - c) mod c"
      using False by (simp_all add: le_div_geq le_mod_geq)
    moreover have "concat (map f ks) ! (i - c) = f (ks ! ((i - c) div c)) ! ((i - c) mod c)"
      using Cons.prems False by (intro Cons.IH) (auto dest: Cons.prems(1) [of "Suc _", simplified])
    ultimately show ?thesis using c False by (simp add: nth_append)
  qed
qed simp

section \<open>Ranges of the fixed-width integers\<close>

lemma unat_u8_less [simp]: "unat (b :: u8) < 256"
  using unsigned_less [of b, where ?'a = nat] by simp

lemma unat_u16_less [simp]: "unat (b :: u16) < 65536"
  using unsigned_less [of b, where ?'a = nat] by simp

lemma unat_u32_less [simp]: "unat (b :: u32) < 4294967296"
  using unsigned_less [of b, where ?'a = nat] by simp

lemma unat_u64_less [simp]: "unat (b :: u64) < 18446744073709551616"
  using unsigned_less [of b, where ?'a = nat] by simp

end
