(* ===== verification/Endian.thy ===== *)
theory Endian
  imports Prelude
begin

text \<open>
  Little-endian coding of 32 and 64 bit integers: the helpers of \<open>src/src/packet.h\<close> and the
  loads and stores of libsodium's \<open>private/common.h\<close> (their portable branch, which the
  little-endian branch is an optimisation of), with the rotations of the same header. The
  lemmas show that each store is the inverse of its load in both directions.
\<close>

unbundle bit_operations_syntax

section \<open>Helpers of packet.h\<close>

definition le32_read :: "bytes \<Rightarrow> u32" where
  "le32_read p = ucast (p ! 0) OR push_bit 8 (ucast (p ! 1)) OR
     push_bit 16 (ucast (p ! 2)) OR push_bit 24 (ucast (p ! 3))"

definition le32_write :: "u32 \<Rightarrow> bytes" where
  "le32_write v =
     [ucast (v AND 0xFF), ucast (drop_bit 8 v AND 0xFF),
      ucast (drop_bit 16 v AND 0xFF), ucast (drop_bit 24 v AND 0xFF)]"

definition le64_read :: "bytes \<Rightarrow> u64" where
  "le64_read p = ucast (p ! 0) OR push_bit 8 (ucast (p ! 1)) OR
     push_bit 16 (ucast (p ! 2)) OR push_bit 24 (ucast (p ! 3)) OR
     push_bit 32 (ucast (p ! 4)) OR push_bit 40 (ucast (p ! 5)) OR
     push_bit 48 (ucast (p ! 6)) OR push_bit 56 (ucast (p ! 7))"

definition le64_write :: "u64 \<Rightarrow> bytes" where
  "le64_write v =
     [ucast (v AND 0xFF), ucast (drop_bit 8 v AND 0xFF),
      ucast (drop_bit 16 v AND 0xFF), ucast (drop_bit 24 v AND 0xFF),
      ucast (drop_bit 32 v AND 0xFF), ucast (drop_bit 40 v AND 0xFF),
      ucast (drop_bit 48 v AND 0xFF), ucast (drop_bit 56 v AND 0xFF)]"

section \<open>Loads, stores and rotations of private/common.h\<close>

definition load32_le :: "bytes \<Rightarrow> u32" where
  "load32_le src = ((ucast (src ! 0) OR push_bit 8 (ucast (src ! 1))) OR
     push_bit 16 (ucast (src ! 2))) OR push_bit 24 (ucast (src ! 3))"

definition store32_le :: "u32 \<Rightarrow> bytes" where
  "store32_le w =
     (let b0 = ucast w; w = drop_bit 8 w; b1 = ucast w; w = drop_bit 8 w;
          b2 = ucast w; w = drop_bit 8 w; b3 = ucast w
      in [b0, b1, b2, b3])"

definition load64_le :: "bytes \<Rightarrow> u64" where
  "load64_le src = ((((((ucast (src ! 0) OR push_bit 8 (ucast (src ! 1))) OR
     push_bit 16 (ucast (src ! 2))) OR push_bit 24 (ucast (src ! 3))) OR
     push_bit 32 (ucast (src ! 4))) OR push_bit 40 (ucast (src ! 5))) OR
     push_bit 48 (ucast (src ! 6))) OR push_bit 56 (ucast (src ! 7))"

definition store64_le :: "u64 \<Rightarrow> bytes" where
  "store64_le w =
     (let b0 = ucast w; w = drop_bit 8 w; b1 = ucast w; w = drop_bit 8 w;
          b2 = ucast w; w = drop_bit 8 w; b3 = ucast w; w = drop_bit 8 w;
          b4 = ucast w; w = drop_bit 8 w; b5 = ucast w; w = drop_bit 8 w;
          b6 = ucast w; w = drop_bit 8 w; b7 = ucast w
      in [b0, b1, b2, b3, b4, b5, b6, b7])"

definition rotl32 :: "u32 \<Rightarrow> nat \<Rightarrow> u32" where
  "rotl32 x b = push_bit b x OR drop_bit (32 - b) x"

definition rotr64 :: "u64 \<Rightarrow> nat \<Rightarrow> u64" where
  "rotr64 x b = drop_bit b x OR push_bit (64 - b) x"

section \<open>Lemmas\<close>

lemma length_le_write [simp]:
  "length (le32_write v) = 4" "length (le64_write w) = 8"
  "length (store32_le v) = 4" "length (store64_le w) = 8"
  by (simp_all add: le32_write_def le64_write_def store32_le_def store64_le_def Let_def)

text \<open>Bit \<open>8 * k + j\<close> of an assembled word is bit \<open>j\<close> of byte \<open>k\<close>.\<close>

lemma not_bit_u8 [simp]: "8 \<le> n \<Longrightarrow> \<not> bit (b :: u8) n"
  by (auto dest: bit_imp_le_length)

lemma and_0xFF_eq: "(w :: 'a::len word) AND 0xFF = take_bit 8 w"
  by (simp add: take_bit_eq_mask mask_eq_exp_minus_1)

lemma ucast_u8_take: "(ucast (take_bit 8 (w :: 'a::len word)) :: u8) = ucast w"
  by (rule bit_word_eqI) (auto simp: bit_simps)

lemma byte_index_cases:
  assumes "(n::nat) < 8 * m"
  obtains k j where "n = 8 * k + j" "k < m" "j < 8"
proof
  show "n = 8 * (n div 8) + n mod 8" by simp
  show "n div 8 < m" using assms by linarith
  show "n mod 8 < 8" by simp
qed

lemma less_4_cases: "(k::nat) < 4 \<longleftrightarrow> k = 0 \<or> k = 1 \<or> k = 2 \<or> k = 3"
  by linarith

lemma less_8_cases:
  "(k::nat) < 8 \<longleftrightarrow> k = 0 \<or> k = 1 \<or> k = 2 \<or> k = 3 \<or> k = 4 \<or> k = 5 \<or> k = 6 \<or> k = 7"
  by linarith

lemma bit_shifted_byte:
  assumes "j < 8"
  shows "bit (push_bit (8 * i) (ucast (b :: u8)) :: 'a::len word) (8 * k + j) \<longleftrightarrow>
    i = k \<and> 8 * k + j < LENGTH('a) \<and> bit b j"
proof -
  have "8 * i \<le> 8 * k + j \<longleftrightarrow> i \<le> k" using assms by linarith
  moreover have "i < k \<Longrightarrow> 8 \<le> 8 * k + j - 8 * i" by linarith
  ultimately show ?thesis
    by (cases "i = k") (auto simp: bit_simps dest: bit_imp_le_length)
qed

lemma le32_read_shifts:
  "le32_read p = push_bit (8 * 0) (ucast (p ! 0)) OR push_bit (8 * 1) (ucast (p ! 1)) OR
     push_bit (8 * 2) (ucast (p ! 2)) OR push_bit (8 * 3) (ucast (p ! 3))"
  by (simp add: le32_read_def)

lemma le64_read_shifts:
  "le64_read p = push_bit (8 * 0) (ucast (p ! 0)) OR push_bit (8 * 1) (ucast (p ! 1)) OR
     push_bit (8 * 2) (ucast (p ! 2)) OR push_bit (8 * 3) (ucast (p ! 3)) OR
     push_bit (8 * 4) (ucast (p ! 4)) OR push_bit (8 * 5) (ucast (p ! 5)) OR
     push_bit (8 * 6) (ucast (p ! 6)) OR push_bit (8 * 7) (ucast (p ! 7))"
  by (simp add: le64_read_def)

lemma bit_le32_read:
  assumes "k < 4" and j: "j < 8" shows "bit (le32_read p) (8 * k + j) = bit (p ! k) j"
  using assms(1)[unfolded less_4_cases]
  unfolding le32_read_shifts bit_or_iff bit_shifted_byte [OF j]
  by (elim disjE) (use j in \<open>simp_all\<close>)

lemma bit_le64_read:
  assumes "k < 8" and j: "j < 8" shows "bit (le64_read p) (8 * k + j) = bit (p ! k) j"
  using assms(1)[unfolded less_8_cases]
  unfolding le64_read_shifts bit_or_iff bit_shifted_byte [OF j]
  by (elim disjE) (use j in \<open>simp_all\<close>)

lemma bit_le32_write:
  assumes "k < 4" and j: "j < 8" shows "bit (le32_write v ! k) j = bit v (8 * k + j)"
  using assms(1)[unfolded less_4_cases]
  by (elim disjE) (use j in \<open>simp_all add: le32_write_def and_0xFF_eq ucast_u8_take bit_simps\<close>)

lemma bit_le64_write:
  assumes "k < 8" and j: "j < 8" shows "bit (le64_write v ! k) j = bit v (8 * k + j)"
  using assms(1)[unfolded less_8_cases]
  by (elim disjE) (use j in \<open>simp_all add: le64_write_def and_0xFF_eq ucast_u8_take bit_simps\<close>)

lemma le32_read_write: "le32_read (le32_write v @ rest) = v"
proof (rule bit_word_eqI)
  fix n assume "n < LENGTH(32)"
  then obtain k j where "n = 8 * k + j" "k < 4" "j < 8"
    using byte_index_cases [of n 4] by auto
  then show "bit (le32_read (le32_write v @ rest)) n = bit v n"
    by (simp add: bit_le32_read bit_le32_write nth_append)
qed

lemma le64_read_write: "le64_read (le64_write v @ rest) = v"
proof (rule bit_word_eqI)
  fix n assume "n < LENGTH(64)"
  then obtain k j where "n = 8 * k + j" "k < 8" "j < 8"
    using byte_index_cases [of n 8] by auto
  then show "bit (le64_read (le64_write v @ rest)) n = bit v n"
    by (simp add: bit_le64_read bit_le64_write nth_append)
qed

lemma le32_write_read:
  assumes "length p = 4" shows "le32_write (le32_read p) = p"
proof (rule nth_equalityI)
  fix k assume "k < length (le32_write (le32_read p))"
  then have k: "k < 4" by simp
  show "le32_write (le32_read p) ! k = p ! k"
    by (rule bit_word_eqI) (simp add: bit_le32_write bit_le32_read k)
qed (simp add: assms)

lemma le64_write_read:
  assumes "length p = 8" shows "le64_write (le64_read p) = p"
proof (rule nth_equalityI)
  fix k assume "k < length (le64_write (le64_read p))"
  then have k: "k < 8" by simp
  show "le64_write (le64_read p) ! k = p ! k"
    by (rule bit_word_eqI) (simp add: bit_le64_write bit_le64_read k)
qed (simp add: assms)

lemma le32_write_inj: "le32_write v = le32_write w \<Longrightarrow> v = w"
  by (rule box_equals [OF _ le32_read_write le32_read_write]) (rule arg_cong)

lemma le64_write_inj: "le64_write v = le64_write w \<Longrightarrow> v = w"
  by (rule box_equals [OF _ le64_read_write [of _ "[]"] le64_read_write [of _ "[]"]]) (erule arg_cong)

text \<open>libsodium's loads and stores compute the same functions.\<close>

lemma load32_le_eq: "load32_le = le32_read"
  by (rule ext) (simp only: load32_le_def le32_read_def or.assoc)

lemma load64_le_eq: "load64_le = le64_read"
  by (rule ext) (simp only: load64_le_def le64_read_def or.assoc)

lemma store32_le_eq: "store32_le = le32_write"
  by (rule ext) (simp add: store32_le_def le32_write_def and_0xFF_eq ucast_u8_take drop_bit_drop_bit)

lemma store64_le_eq: "store64_le = le64_write"
  by (rule ext) (simp add: store64_le_def le64_write_def and_0xFF_eq ucast_u8_take drop_bit_drop_bit)

lemmas sodium_le_eqs = load32_le_eq load64_le_eq store32_le_eq store64_le_eq

text \<open>Only the first bytes are read.\<close>

lemma le32_read_take: "4 \<le> n \<Longrightarrow> le32_read (take n p) = le32_read p"
  by (simp add: le32_read_def)

lemma le64_read_take: "8 \<le> n \<Longrightarrow> le64_read (take n p) = le64_read p"
  by (simp add: le64_read_def)

end
