(* ===== verification/Replay.thy ===== *)
theory Replay
  imports Endian
begin

text \<open>
  The anti-replay filter of \<open>src/src/replay.c\<close>: a 2048-bit window kept as 32 words of 64 bits.
  The model keeps the words and the shifting loop of the code; the abstract filter is the set of
  all counters marked so far. The interface \<open>replay_window\<close> states what a client of the filter
  relies on, and is interpreted on the code's functions.
\<close>

unbundle bit_operations_syntax

section \<open>State and operations\<close>

definition VPN_REPLAY_BITMAP_WORDS :: nat where
  "VPN_REPLAY_BITMAP_WORDS = 32"

definition VPN_REPLAY_WINDOW_SIZE :: nat where
  "VPN_REPLAY_WINDOW_SIZE = VPN_REPLAY_BITMAP_WORDS * 64"

record replay_filter_t =
  last_counter :: u64
  bitmap :: "u64 list"

definition replay_filter_zero :: replay_filter_t where
  "replay_filter_zero = \<lparr>last_counter = 0, bitmap = replicate VPN_REPLAY_BITMAP_WORDS 0\<rparr>"

text \<open>\<open>memset(filter, 0, sizeof(*filter))\<close>, nothing when the pointer is NULL.\<close>

definition replay_init :: "replay_filter_t option \<Rightarrow> replay_filter_t option" where
  "replay_init flt = (case flt of None \<Rightarrow> None | Some _ \<Rightarrow> Some replay_filter_zero)"

definition replay_check_body :: "replay_filter_t \<Rightarrow> u64 \<Rightarrow> bool" where
  "replay_check_body f counter =
     (if last_counter f = 0 \<and> bitmap f ! 0 = 0 then True
      else if counter > last_counter f then True
      else let diff = last_counter f - counter in
        if unat diff \<ge> VPN_REPLAY_WINDOW_SIZE then False
        else let word_idx = unat diff div 64; bit_idx = unat diff mod 64 in
          if bitmap f ! word_idx AND push_bit bit_idx 1 \<noteq> 0 then False
          else True)"

definition replay_check :: "replay_filter_t option \<Rightarrow> u64 \<Rightarrow> bool" where
  "replay_check flt counter =
     (case flt of None \<Rightarrow> False | Some f \<Rightarrow> replay_check_body f counter)"

text \<open>The loop that fills \<open>new_bitmap\<close>, one word per iteration.\<close>

definition slide_word :: "u64 list \<Rightarrow> nat \<Rightarrow> nat \<Rightarrow> nat \<Rightarrow> u64" where
  "slide_word bm word_shift bit_shift i =
     (if word_shift \<le> i then
        let w = push_bit bit_shift (bm ! (i - word_shift)) in
        if 0 < bit_shift \<and> word_shift < i
        then w OR drop_bit (64 - bit_shift) (bm ! (i - word_shift - 1))
        else w
      else 0)"

definition slide_bitmap :: "u64 list \<Rightarrow> nat \<Rightarrow> nat \<Rightarrow> u64 list" where
  "slide_bitmap bm word_shift bit_shift =
     map (slide_word bm word_shift bit_shift) [0..<VPN_REPLAY_BITMAP_WORDS]"

definition replay_update_body :: "replay_filter_t \<Rightarrow> u64 \<Rightarrow> replay_filter_t" where
  "replay_update_body f counter =
     (if last_counter f = 0 \<and> bitmap f ! 0 = 0
      then f\<lparr>last_counter := counter, bitmap := (bitmap f)[0 := 1]\<rparr>
      else if counter > last_counter f then
        let diff = unat (counter - last_counter f);
            bm = (if diff < VPN_REPLAY_WINDOW_SIZE
                  then slide_bitmap (bitmap f) (diff div 64) (diff mod 64)
                  else replicate VPN_REPLAY_BITMAP_WORDS 0)
        in f\<lparr>bitmap := bm[0 := bm ! 0 OR 1], last_counter := counter\<rparr>
      else
        let diff = unat (last_counter f - counter) in
        if diff < VPN_REPLAY_WINDOW_SIZE then
          let word_idx = diff div 64; bit_idx = diff mod 64 in
          f\<lparr>bitmap := (bitmap f)[word_idx := bitmap f ! word_idx OR push_bit bit_idx 1]\<rparr>
        else f)"

definition replay_update :: "replay_filter_t option \<Rightarrow> u64 \<Rightarrow> replay_filter_t option" where
  "replay_update flt counter =
     (case flt of None \<Rightarrow> None | Some f \<Rightarrow> Some (replay_update_body f counter))"

lemmas replay_consts [simp] = VPN_REPLAY_BITMAP_WORDS_def VPN_REPLAY_WINDOW_SIZE_def

section \<open>The window as a sequence of bits\<close>

text \<open>Bit \<open>K\<close> of the window stands for the counter \<open>last_counter - K\<close>.\<close>

definition window_bit :: "u64 list \<Rightarrow> nat \<Rightarrow> bool" where
  "window_bit bm k = bit (bm ! (k div 64)) (k mod 64)"

lemma window_bit_set:
  assumes "length bm = 32" "k < 2048" "j < 2048"
  shows "window_bit (bm[k div 64 := bm ! (k div 64) OR 2 ^ (k mod 64)]) j
     \<longleftrightarrow> j = k \<or> window_bit bm j"
proof -
  have "k div 64 < 32" using assms(2) by linarith
  moreover have "j div 64 = k div 64 \<and> j mod 64 = k mod 64 \<longleftrightarrow> j = k"
    by (metis div_mult_mod_eq)
  moreover have "bit (2 ^ (k mod 64) :: u64) (j mod 64) \<longleftrightarrow> j mod 64 = k mod 64"
    by (auto simp: bit_simps)
  ultimately show ?thesis
    using assms(1) by (cases "j div 64 = k div 64") (auto simp: window_bit_def bit_simps)
qed

lemma bit_slide_word:
  assumes "r < 64" "b < 64"
  shows "bit (slide_word bm w b i) r \<longleftrightarrow>
    w \<le> i \<and> (if b \<le> r then bit (bm ! (i - w)) (r - b)
      else w < i \<and> bit (bm ! (i - w - 1)) (64 + r - b))"
  using assms by (auto simp: slide_word_def Let_def bit_simps dest: bit_imp_le_length)

lemma window_bit_slide:
  assumes "k < 2048"
  shows "window_bit (slide_bitmap bm (d div 64) (d mod 64)) k \<longleftrightarrow> d \<le> k \<and> window_bit bm (k - d)"
proof -
  define i r w b where "i = k div 64" "r = k mod 64" "w = d div 64" "b = d mod 64"
  note defs = this
  have k: "k = 64 * i + r" "r < 64" and d: "d = 64 * w + b" "b < 64" by (simp_all add: defs)
  have "i < 32" using assms by (simp add: defs)
  then have lhs: "window_bit (slide_bitmap bm w b) k \<longleftrightarrow> bit (slide_word bm w b i) r"
    by (simp add: window_bit_def slide_bitmap_def flip: defs)
  show ?thesis
  proof (cases "b \<le> r")
    case True
    then have "d \<le> k \<longleftrightarrow> w \<le> i" using k d by linarith
    moreover have "w \<le> i \<Longrightarrow> (k - d) div 64 = i - w \<and> (k - d) mod 64 = r - b"
      using True k d by (auto simp: div_nat_eqI mod_nat_eqI algebra_simps)
    ultimately show ?thesis
      unfolding defs(3,4) [symmetric] lhs bit_slide_word [OF k(2) d(2)]
      using True by (auto simp: window_bit_def)
  next
    case False
    then have "d \<le> k \<longleftrightarrow> w < i" using k d by linarith
    moreover have "w < i \<Longrightarrow> (k - d) div 64 = i - w - 1 \<and> (k - d) mod 64 = 64 + r - b"
      using False k d by (auto simp: div_nat_eqI mod_nat_eqI algebra_simps)
    ultimately show ?thesis
      unfolding defs(3,4) [symmetric] lhs bit_slide_word [OF k(2) d(2)]
      using False by (auto simp: window_bit_def)
  qed
qed


section \<open>Abstract filter: the set of counters marked so far\<close>

text \<open>
  \<open>H\<close> is the set of all counters that \<open>replay_update\<close> was called with. The abstract check accepts
  every counter while \<open>H\<close> is empty, every counter above the largest one, and a counter of the
  window that is not in \<open>H\<close>.
\<close>

definition spec_check :: "nat set \<Rightarrow> nat \<Rightarrow> bool" where
  "spec_check H c \<longleftrightarrow> H = {} \<or> Max H < c \<or> (Max H - c < VPN_REPLAY_WINDOW_SIZE \<and> c \<notin> H)"

definition replay_rel :: "replay_filter_t \<Rightarrow> nat set \<Rightarrow> bool" where
  "replay_rel f H \<longleftrightarrow> finite H \<and> length (bitmap f) = VPN_REPLAY_BITMAP_WORDS \<and>
     (if H = {} then f = replay_filter_zero
      else unat (last_counter f) = Max H \<and>
        (\<forall>k < VPN_REPLAY_WINDOW_SIZE. window_bit (bitmap f) k \<longleftrightarrow>
           k \<le> unat (last_counter f) \<and> unat (last_counter f) - k \<in> H))"

lemma replay_rel_zero: "replay_rel replay_filter_zero {}"
  by (simp add: replay_rel_def replay_filter_zero_def)

text \<open>The test for the first packet of a session recognises exactly the untouched filter.\<close>

lemma first_packet_iff:
  assumes "replay_rel f H"
  shows "last_counter f = 0 \<and> bitmap f ! 0 = 0 \<longleftrightarrow> H = {}"
proof (cases "H = {}")
  case True
  then show ?thesis using assms by (simp add: replay_rel_def replay_filter_zero_def)
next
  case False
  then have "window_bit (bitmap f) 0"
    using assms Max_in [of H] by (simp add: replay_rel_def)
  then show ?thesis using False by (auto simp: window_bit_def)
qed

lemma unat_diff_le: "(b :: u64) \<le> a \<Longrightarrow> unat (a - b) = unat a - unat b"
  by (simp add: unat_sub)

lemma replay_check_spec:
  assumes "replay_rel f H"
  shows "replay_check_body f c \<longleftrightarrow> spec_check H (unat c)"
proof (cases "H = {}")
  case True
  then show ?thesis using first_packet_iff [OF assms] by (simp add: replay_check_body_def spec_check_def)
next
  case False
  then have first: "\<not> (last_counter f = 0 \<and> bitmap f ! 0 = 0)"
    using first_packet_iff [OF assms] by simp
  have top: "unat (last_counter f) = Max H"
    and win: "\<And>k. k < 2048 \<Longrightarrow> window_bit (bitmap f) k \<longleftrightarrow> k \<le> Max H \<and> Max H - k \<in> H"
    using assms False by (auto simp: replay_rel_def)
  show ?thesis
  proof (cases "last_counter f < c")
    case True
    then show ?thesis using first top by (simp add: replay_check_body_def spec_check_def word_less_nat_alt)
  next
    case le: False
    then have "c \<le> last_counter f" by simp
    then have d: "unat (last_counter f - c) = Max H - unat c" and cle: "unat c \<le> Max H"
      unfolding top [symmetric] by (auto simp: unat_diff_le word_le_nat_alt)
    show ?thesis
      using first le cle False win [of "Max H - unat c"]
      by (auto simp: replay_check_body_def spec_check_def Let_def d and_exp_eq_0_iff_not_bit window_bit_def)
  qed
qed


lemma window_bit_set0:
  assumes "length bm = 32" "j < 2048"
  shows "window_bit (bm[0 := bm ! 0 OR 1]) j \<longleftrightarrow> j = 0 \<or> window_bit bm j"
  using window_bit_set [OF assms(1) _ assms(2), of 0] by simp

lemma window_bit_zero: "k < 2048 \<Longrightarrow> \<not> window_bit (replicate 32 0) k"
  by (simp add: window_bit_def)

lemma length_slide_bitmap [simp]: "length (slide_bitmap bm w b) = 32"
  by (simp add: slide_bitmap_def)

text \<open>The window after a jump forward by \<open>d\<close>, whether it slides or is cleared.\<close>

lemma window_bit_jump:
  assumes "k < 2048"
  shows "window_bit (if d < 2048 then slide_bitmap bm (d div 64) (d mod 64) else replicate 32 0) k
    \<longleftrightarrow> d \<le> k \<and> window_bit bm (k - d)"
  using assms by (auto simp: window_bit_slide window_bit_zero)

lemma replay_update_spec:
  assumes rel: "replay_rel f H"
  shows "replay_rel (replay_update_body f c) (insert (unat c) H)"
proof (cases "H = {}")
  case True
  then have f: "f = replay_filter_zero" using rel by (simp add: replay_rel_def)
  have "window_bit ((replicate 32 0)[0 := 1]) k \<longleftrightarrow> k = 0" if "k < 2048" for k
    using window_bit_set0 [of "replicate 32 0" k] that by (simp add: window_bit_zero)
  then show ?thesis
    using True f by (auto simp: replay_update_body_def replay_rel_def replay_filter_zero_def)
next
  case False
  then have first: "\<not> (last_counter f = 0 \<and> bitmap f ! 0 = 0)"
    using first_packet_iff [OF rel] by simp
  have len: "length (bitmap f) = 32" and fin: "finite H" and top: "unat (last_counter f) = Max H"
    and win: "\<And>k. k < 2048 \<Longrightarrow> window_bit (bitmap f) k \<longleftrightarrow> k \<le> Max H \<and> Max H - k \<in> H"
    using rel False by (auto simp: replay_rel_def)
  have le_top: "x \<le> Max H" if "x \<in> H" for x using fin that by simp
  show ?thesis
  proof (cases "last_counter f < c")
    case True
    then have lt: "Max H < unat c" and d: "unat (c - last_counter f) = unat c - Max H"
      unfolding top [symmetric] by (auto simp: word_less_nat_alt unat_diff_le word_le_nat_alt)
    define bm where "bm = (if unat c - Max H < 2048
      then slide_bitmap (bitmap f) ((unat c - Max H) div 64) ((unat c - Max H) mod 64)
      else replicate 32 0)"
    have bm: "window_bit bm k \<longleftrightarrow> unat c - Max H \<le> k \<and> window_bit (bitmap f) (k - (unat c - Max H))"
      if "k < 2048" for k unfolding bm_def using that by (rule window_bit_jump)
    have lbm: "length bm = 32" by (simp add: bm_def)
    have "Max (insert (unat c) H) = unat c" unfolding Max_insert [OF fin False] using lt by linarith
    moreover have "window_bit (bm[0 := bm ! 0 OR 1]) k \<longleftrightarrow> k \<le> unat c \<and> unat c - k \<in> insert (unat c) H"
      if "k < 2048" for k
      using that lt le_top [of "unat c - k"] win [of "k - (unat c - Max H)"]
      by (auto simp: window_bit_set0 [OF lbm] bm)
    ultimately show ?thesis
      using first True fin lbm unfolding bm_def
      by (auto simp: replay_update_body_def replay_rel_def Let_def d)
  next
    case le: False
    then have "c \<le> last_counter f" by simp
    then have d: "unat (last_counter f - c) = Max H - unat c" and cle: "unat c \<le> Max H"
      unfolding top [symmetric] by (auto simp: unat_diff_le word_le_nat_alt)
    have mx: "Max (insert (unat c) H) = Max H" unfolding Max_insert [OF fin False] using cle by linarith
    show ?thesis
    proof (cases "Max H - unat c < 2048")
      case True
      then show ?thesis
        using first le cle fin len top mx win
        by (auto simp: replay_update_body_def replay_rel_def Let_def d window_bit_set)
    next
      case False
      then show ?thesis
        using first le cle fin len top mx win
        by (auto simp: replay_update_body_def replay_rel_def Let_def d)
    qed
  qed
qed


section \<open>What a client of the filter relies on\<close>

locale replay_window =
  fixes init :: 'f
    and check :: "'f \<Rightarrow> u64 \<Rightarrow> bool"
    and update :: "'f \<Rightarrow> u64 \<Rightarrow> 'f"
    and marked :: "'f \<Rightarrow> nat set \<Rightarrow> bool"
    and size :: nat
  assumes marked_init: "marked init {}"
    and marked_update: "marked f H \<Longrightarrow> marked (update f c) (insert (unat c) H)"
    and check_fresh: "marked f H \<Longrightarrow> check f c \<Longrightarrow> unat c \<notin> H"
    and check_live: "marked f H \<Longrightarrow> unat c \<notin> H \<Longrightarrow> (\<And>h. h \<in> H \<Longrightarrow> h < unat c + size) \<Longrightarrow> check f c"

text \<open>
  The receiver's use of a filter: packets arrive as a counter and the outcome of its
  authentication; a packet is accepted when the check passes and the authentication succeeds,
  and only then is the filter updated. The result lists the accepted counters in order.
\<close>

fun receive_all :: "('f \<Rightarrow> u64 \<Rightarrow> bool) \<Rightarrow> ('f \<Rightarrow> u64 \<Rightarrow> 'f) \<Rightarrow> 'f \<Rightarrow> (u64 \<times> bool) list \<Rightarrow> u64 list" where
  "receive_all chk upd f [] = []"
| "receive_all chk upd f ((c, authentic) # ps) =
     (if chk f c \<and> authentic then c # receive_all chk upd (upd f c) ps
      else receive_all chk upd f ps)"

context replay_window
begin

lemma marked_foldl: "marked f H \<Longrightarrow> marked (foldl update f cs) (unat ` set cs \<union> H)"
proof (induction cs arbitrary: f H)
  case (Cons c cs)
  then have "marked (foldl update (update f c) cs) (unat ` set cs \<union> insert (unat c) H)"
    by (blast intro: marked_update)
  then show ?case by simp
qed simp

lemma marked_run: "marked (foldl update init cs) (unat ` set cs)"
  using marked_foldl [OF marked_init, of cs] by simp

lemma receive_all_fresh:
  "marked f H \<Longrightarrow> distinct (receive_all check update f ps) \<and>
     (\<forall>c \<in> set (receive_all check update f ps). unat c \<notin> H)"
proof (induction ps arbitrary: f H)
  case (Cons p ps)
  obtain c a where p: "p = (c, a)" by (cases p)
  show ?case
  proof (cases "check f c \<and> a")
    case True
    have "marked (update f c) (insert (unat c) H)" using Cons.prems by (rule marked_update)
    from Cons.IH [OF this] show ?thesis
      using True check_fresh [OF Cons.prems] p by auto
  next
    case False
    then show ?thesis using Cons p by auto
  qed
qed simp

end

lemma spec_check_fresh: "finite H \<Longrightarrow> spec_check H c \<Longrightarrow> c \<notin> H"
  using Max_ge [of H c] by (auto simp: spec_check_def simp del: Max_ge)

lemma spec_check_live:
  assumes "finite H" "c \<notin> H" "\<And>h. h \<in> H \<Longrightarrow> h < c + VPN_REPLAY_WINDOW_SIZE"
  shows "spec_check H c"
proof (cases "H = {}")
  case False
  then have "Max H < c + VPN_REPLAY_WINDOW_SIZE" using assms(1,3) by simp
  then show ?thesis using assms(2) by (auto simp: spec_check_def)
qed (simp add: spec_check_def)

interpretation rw: replay_window replay_filter_zero replay_check_body replay_update_body
  replay_rel VPN_REPLAY_WINDOW_SIZE
proof
  show "replay_rel replay_filter_zero {}" by (rule replay_rel_zero)
next
  fix f H and c :: u64
  assume rel: "replay_rel f H"
  then have fin: "finite H" by (simp add: replay_rel_def)
  show "replay_rel (replay_update_body f c) (insert (unat c) H)"
    using rel by (rule replay_update_spec)
  show "unat c \<notin> H" if "replay_check_body f c"
    using that fin by (simp add: replay_check_spec [OF rel] spec_check_fresh)
  show "replay_check_body f c"
    if "unat c \<notin> H" "\<And>h. h \<in> H \<Longrightarrow> h < unat c + VPN_REPLAY_WINDOW_SIZE"
    unfolding replay_check_spec [OF rel] using fin that by (rule spec_check_live)
qed

section \<open>Properties\<close>

lemma foldl_replay_update:
  "foldl replay_update (Some f) cs = Some (foldl replay_update_body f cs)"
  by (induction cs arbitrary: f) (simp_all add: replay_update_def)

text \<open>
  C10: after any sequence of updates of an initialised filter, \<open>replay_check\<close> on the bitmap decides
  exactly what the abstract filter decides on the set of all counters that were marked.
\<close>

theorem replay_check_refines_history:
  "replay_check (foldl replay_update (replay_init (Some f0)) cs) c \<longleftrightarrow>
     spec_check (unat ` set cs) (unat c)"
  using rw.marked_run [of cs]
  by (simp add: replay_init_def foldl_replay_update replay_check_def replay_check_spec)

text \<open>
  C11: a receiver that checks each counter, authenticates the packet and then updates the filter
  never accepts the same counter twice, whatever the sequence of packets.
\<close>

theorem replay_no_counter_twice:
  "distinct (receive_all (\<lambda>f. replay_check (Some f)) (\<lambda>f c. the (replay_update (Some f) c))
     (the (replay_init (Some f0))) ps)"
proof -
  have "(\<lambda>f. replay_check (Some f)) = replay_check_body"
    "(\<lambda>f c. the (replay_update (Some f) c)) = replay_update_body"
    by (simp_all add: fun_eq_iff replay_check_def replay_update_def)
  then show ?thesis
    using rw.receive_all_fresh [OF rw.marked_init] by (simp add: replay_init_def)
qed

text \<open>
  C33: no false rejection inside the window: a counter that was never marked, and that no marked
  counter exceeds by 2048 or more, is accepted.
\<close>

theorem replay_window_live:
  assumes "c \<notin> set cs" and "\<And>h. h \<in> set cs \<Longrightarrow> unat h < unat c + 2048"
  shows "replay_check (foldl replay_update (replay_init (Some f0)) cs) c"
proof -
  have "replay_check_body (foldl replay_update_body replay_filter_zero cs) c"
    using assms by (intro rw.check_live [OF rw.marked_run]) (auto dest!: word_unat_eq_iff [THEN iffD2])
  then show ?thesis by (simp add: replay_init_def foldl_replay_update replay_check_def)
qed

theorem replay_window_live_witness:
  "replay_check (foldl replay_update (replay_init (Some replay_filter_zero)) [3000, 10]) 953"
  by (rule replay_window_live) auto

end
