(* ===== verification/CLib.thy ===== *)
theory CLib
  imports Prelude "HOL-Library.Char_ord"
begin

text \<open>
  The parts of the C library that the sources call on strings: \<open>strchr\<close>, \<open>strrchr\<close>, \<open>atoi\<close>, the
  conversions \<open>%u\<close> and \<open>%02x\<close> of \<open>sscanf\<close> and \<open>snprintf\<close>, and the truncation of \<open>snprintf\<close>, with the
  behaviour of the GNU C library on Linux (64 bit \<open>long\<close>, 32 bit \<open>int\<close>). A C string is the list
  of its characters before the terminating NUL.
\<close>

unbundle bit_operations_syntax

section \<open>Characters\<close>

definition is_digit :: "char \<Rightarrow> bool" where
  "is_digit c \<longleftrightarrow> 48 \<le> (of_char c :: nat) \<and> (of_char c :: nat) \<le> 57"

definition is_space :: "char \<Rightarrow> bool" where
  "is_space c \<longleftrightarrow> (of_char c :: nat) = 32 \<or> 9 \<le> (of_char c :: nat) \<and> (of_char c :: nat) \<le> 13"

definition digit_val :: "char \<Rightarrow> nat" where
  "digit_val c = of_char c - 48"

definition digit_char :: "nat \<Rightarrow> char" where
  "digit_char n = char_of (48 + n)"

definition is_xdigit :: "char \<Rightarrow> bool" where
  "is_xdigit c \<longleftrightarrow> is_digit c \<or> 65 \<le> (of_char c :: nat) \<and> (of_char c :: nat) \<le> 70
     \<or> 97 \<le> (of_char c :: nat) \<and> (of_char c :: nat) \<le> 102"

definition xdigit_val :: "char \<Rightarrow> nat" where
  "xdigit_val c = (let n = of_char c in if n \<le> 57 then n - 48 else if n \<le> 70 then n - 55 else n - 87)"

definition xdigit_char :: "nat \<Rightarrow> char" where
  "xdigit_char n = char_of (if n < 10 then 48 + n else 87 + n)"

section \<open>Searching\<close>

text \<open>The suffix that starts at the first, respectively last, occurrence of the character.\<close>

definition strchr :: "string \<Rightarrow> char \<Rightarrow> string option" where
  "strchr s c = (if c \<in> set s then Some (dropWhile (\<lambda>x. x \<noteq> c) s) else None)"

fun strrchr :: "string \<Rightarrow> char \<Rightarrow> string option" where
  "strrchr [] c = None"
| "strrchr (x # xs) c =
     (case strrchr xs c of Some t \<Rightarrow> Some t | None \<Rightarrow> if x = c then Some (x # xs) else None)"

section \<open>Decimal numbers\<close>

definition dec_value :: "string \<Rightarrow> nat" where
  "dec_value ds = foldl (\<lambda>a c. a * 10 + digit_val c) 0 ds"

fun dec_string :: "nat \<Rightarrow> string" where
  "dec_string n = (if n < 10 then [digit_char n] else dec_string (n div 10) @ [digit_char (n mod 10)])"

declare dec_string.simps [simp del]

text \<open>The sign of a number: the flag is set for a minus.\<close>

definition scan_sign :: "string \<Rightarrow> bool \<times> string" where
  "scan_sign s = (case s of c # t \<Rightarrow> if c = CHR ''-'' then (True, t)
     else if c = CHR ''+'' then (False, t) else (False, s) | [] \<Rightarrow> (False, s))"

text \<open>\<open>atoi\<close> is \<open>(int) strtol(s, NULL, 10)\<close>: the \<open>long\<close> saturates, the conversion to \<open>int\<close> wraps.\<close>

definition to_int32 :: "int \<Rightarrow> int" where
  "to_int32 n = sint (word_of_int n :: u32)"

definition atoi :: "string \<Rightarrow> int" where
  "atoi s =
     (let (neg, t) = scan_sign (dropWhile is_space s);
          n = int (dec_value (takeWhile is_digit t));
          v = (if neg then max (- (2 ^ 63)) (- n) else min (2 ^ 63 - 1) n)
      in to_int32 v)"

text \<open>
  \<open>%u\<close> of \<open>sscanf\<close>: white space, an optional sign and digits, converted by \<open>strtoul\<close>, which saturates
  at \<open>ULONG_MAX\<close> and negates modulo \<open>2 ^ 64\<close>, and stored in an \<open>unsigned int\<close>.
\<close>

definition strtoul_value :: "bool \<Rightarrow> nat \<Rightarrow> u32" where
  "strtoul_value neg n =
     (if n \<ge> 2 ^ 64 then word_of_nat (2 ^ 64 - 1)
      else if neg then - word_of_nat n else word_of_nat n)"

definition scan_u :: "string \<Rightarrow> (u32 \<times> string) option" where
  "scan_u s =
     (let (neg, t) = scan_sign (dropWhile is_space s); ds = takeWhile is_digit t
      in if ds = [] then None else Some (strtoul_value neg (dec_value ds), dropWhile is_digit t))"

text \<open>A literal character of a \<open>sscanf\<close> format.\<close>

definition scan_lit :: "char \<Rightarrow> string \<Rightarrow> string option" where
  "scan_lit c s = (case s of x # t \<Rightarrow> if x = c then Some t else None | [] \<Rightarrow> None)"

section \<open>Two hexadecimal digits\<close>

text \<open>
  \<open>%02x\<close> of \<open>sscanf\<close>: white space is skipped and does not count; at most two characters follow,
  which may be a sign, a prefix \<open>0x\<close> or digits. The prefix contributes the digit zero.
\<close>

fun take_xdigits :: "nat \<Rightarrow> string \<Rightarrow> string" where
  "take_xdigits 0 s = []"
| "take_xdigits (Suc w) [] = []"
| "take_xdigits (Suc w) (c # s) = (if is_xdigit c then c # take_xdigits w s else [])"

definition hex_value :: "string \<Rightarrow> nat" where
  "hex_value ds = foldl (\<lambda>a c. a * 16 + xdigit_val c) 0 ds"

definition scan_02x :: "string \<Rightarrow> u32 option" where
  "scan_02x s =
     (let s1 = dropWhile is_space s; (neg, s2) = scan_sign s1;
          w = 2 - (length s1 - length s2);
          ds = (case s2 of
                  c # x # _ \<Rightarrow> if c = CHR ''0'' \<and> 1 < w \<and> (x = CHR ''x'' \<or> x = CHR ''X'')
                    then ''0'' else take_xdigits w s2
                | _ \<Rightarrow> take_xdigits w s2)
      in if ds = [] then None else Some (strtoul_value neg (hex_value ds)))"

text \<open>\<open>%02x\<close> of \<open>snprintf\<close> on a byte.\<close>

definition print_02x :: "u8 \<Rightarrow> string" where
  "print_02x b = [xdigit_char (unat b div 16), xdigit_char (unat b mod 16)]"

section \<open>Bounded printing\<close>

text \<open>
  \<open>snprintf(buf, n, ...)\<close> returns the length of the whole output; the buffer holds the part that
  fits before the terminating NUL.
\<close>

definition snprintf :: "nat \<Rightarrow> string \<Rightarrow> nat \<times> string" where
  "snprintf n out = (length out, take (n - 1) out)"

section \<open>Lemmas\<close>

lemma of_char_digit_char: "n < 10 \<Longrightarrow> (of_char (digit_char n) :: nat) = 48 + n"
  by (simp add: digit_char_def)

lemma is_digit_digit_char [simp]: "n < 10 \<Longrightarrow> is_digit (digit_char n)"
  by (simp add: is_digit_def of_char_digit_char)

lemma digit_val_digit_char [simp]: "n < 10 \<Longrightarrow> digit_val (digit_char n) = n"
  by (simp add: digit_val_def of_char_digit_char)

lemma dec_string_digits: "c \<in> set (dec_string n) \<Longrightarrow> is_digit c"
proof (induction n rule: dec_string.induct)
  case (1 n)
  then show ?case by (auto simp: dec_string.simps [of n] split: if_splits)
qed

lemma dec_string_not_Nil [simp]: "dec_string n \<noteq> []"
  by (simp add: dec_string.simps [of n])

lemma dec_value_snoc: "dec_value (ds @ [c]) = dec_value ds * 10 + digit_val c"
  by (simp add: dec_value_def)

lemma dec_value_dec_string [simp]: "dec_value (dec_string n) = n"
proof (induction n rule: dec_string.induct)
  case (1 n)
  show ?case
  proof (cases "n < 10")
    case True
    then show ?thesis by (simp add: dec_string.simps [of n] dec_value_def)
  next
    case False
    with "1.IH" show ?thesis by (simp add: dec_string.simps [of n] dec_value_snoc)
  qed
qed

lemma takeWhile_dec_string:
  "rest = [] \<or> \<not> is_digit (hd rest) \<Longrightarrow> takeWhile is_digit (dec_string n @ rest) = dec_string n"
  by (cases rest) (auto simp: takeWhile_append dest: dec_string_digits)

lemma dropWhile_dec_string:
  "rest = [] \<or> \<not> is_digit (hd rest) \<Longrightarrow> dropWhile is_digit (dec_string n @ rest) = rest"
  by (cases rest) (auto simp: dropWhile_append dest: dec_string_digits)

lemma is_digit_not_sign: "is_digit c \<Longrightarrow> c \<noteq> CHR ''-'' \<and> c \<noteq> CHR ''+'' \<and> \<not> is_space c"
  by (auto simp: is_digit_def is_space_def)

lemma dec_string_Cons: obtains c cs where "dec_string n = c # cs" "is_digit c"
  using dec_string_digits [of "hd (dec_string n)" n] by (cases "dec_string n") auto

lemma scan_sign_dec_string: "scan_sign (dropWhile is_space (dec_string n @ rest)) = (False, dec_string n @ rest)"
  by (rule dec_string_Cons [of n]) (use is_digit_not_sign in \<open>auto simp: scan_sign_def\<close>)

lemma scan_u_dec_string:
  assumes "rest = [] \<or> \<not> is_digit (hd rest)" "n < 2 ^ 64"
  shows "scan_u (dec_string n @ rest) = Some (word_of_nat n, rest)"
  using assms by (simp add: scan_u_def scan_sign_dec_string takeWhile_dec_string
      dropWhile_dec_string strtoul_value_def)

lemma to_int32_small: "- (2 ^ 31) \<le> n \<Longrightarrow> n < 2 ^ 31 \<Longrightarrow> to_int32 n = n"
  by (simp add: to_int32_def sint_sbintrunc' signed_take_bit_int_eq_self)

lemma atoi_dec_string:
  assumes "rest = [] \<or> \<not> is_digit (hd rest)" "n < 2 ^ 31"
  shows "atoi (dec_string n @ rest) = int n"
  using assms by (simp add: atoi_def scan_sign_dec_string takeWhile_dec_string to_int32_small)

lemma length_dec_string_1: "n < 10 \<Longrightarrow> length (dec_string n) = 1"
  by (simp add: dec_string.simps [of n])

lemma length_dec_string_Suc: "length (dec_string n) \<le> (if n < 10 then 1 else Suc (length (dec_string (n div 10))))"
  by (simp add: dec_string.simps [of n])

lemma length_dec_string_2: "n < 100 \<Longrightarrow> length (dec_string n) \<le> 2"
  using length_dec_string_Suc [of n] length_dec_string_1 [of "n div 10"]
  by (simp add: less_mult_imp_div_less split: if_splits)

lemma length_dec_string_3: "n < 1000 \<Longrightarrow> length (dec_string n) \<le> 3"
  using length_dec_string_Suc [of n] length_dec_string_2 [of "n div 10"]
  by (simp add: less_mult_imp_div_less split: if_splits)

lemma xdigit_cases: "n < 16 \<Longrightarrow> is_xdigit (xdigit_char n) \<and> xdigit_val (xdigit_char n) = n"
  by (auto simp: xdigit_char_def is_xdigit_def is_digit_def xdigit_val_def Let_def)

lemma is_xdigit_plain:
  "is_xdigit c \<Longrightarrow> \<not> is_space c \<and> c \<noteq> CHR ''-'' \<and> c \<noteq> CHR ''+'' \<and> c \<noteq> CHR ''x'' \<and> c \<noteq> CHR ''X''"
  by (auto simp: is_xdigit_def is_digit_def is_space_def)

lemma take_xdigits_2: "is_xdigit c \<Longrightarrow> is_xdigit d \<Longrightarrow> take_xdigits 2 (c # d # s) = [c, d]"
  by (simp add: numeral_2_eq_2)

lemma strtoul_value_small: "n < 2 ^ 64 \<Longrightarrow> strtoul_value False n = word_of_nat n"
  by (simp add: strtoul_value_def)

lemma scan_02x_print_02x: "scan_02x (print_02x b @ rest) = Some (ucast b)"
proof -
  have lt: "unat b < 256" by simp
  then have d: "unat b div 16 < 16" "unat b mod 16 < 16" by linarith+
  have "(256 :: nat) < 2 ^ 64" by simp
  with lt have n64: "unat b < 2 ^ 64" by linarith
  have v: "unat b div 16 * 16 + unat b mod 16 = unat b" by simp
  show ?thesis
    using xdigit_cases [OF d(1)] xdigit_cases [OF d(2)]
      is_xdigit_plain [of "xdigit_char (unat b div 16)"] is_xdigit_plain [of "xdigit_char (unat b mod 16)"]
    by (simp add: scan_02x_def print_02x_def scan_sign_def Let_def take_xdigits_2 hex_value_def v
        strtoul_value_small [OF n64] del: div_mult_mod_eq)
qed

end
