(* ===== verification/Routing.thy ===== *)
theory Routing
  imports CLib
begin

text \<open>
  IPv4 addresses and AllowedIPs ranges, from \<open>src/src/routing.h\<close> and \<open>src/src/routing.c\<close>.
  Addresses are 32-bit words with the first octet in the top byte.
\<close>

unbundle bit_operations_syntax

section \<open>Model\<close>

record vpn_cidr_t =
  network :: u32
  cidr_mask :: u32
  prefix_len :: int

text \<open>\<open>sscanf (str, "%u.%u.%u.%u", ...)\<close>: None unless all four conversions succeed.\<close>

definition scan_quad :: "string \<Rightarrow> (u32 \<times> u32 \<times> u32 \<times> u32) option" where
  "scan_quad str =
     (case scan_u str of None \<Rightarrow> None | Some (a, s1) \<Rightarrow>
     (case scan_lit CHR ''.'' s1 of None \<Rightarrow> None | Some s2 \<Rightarrow>
     (case scan_u s2 of None \<Rightarrow> None | Some (b, s3) \<Rightarrow>
     (case scan_lit CHR ''.'' s3 of None \<Rightarrow> None | Some s4 \<Rightarrow>
     (case scan_u s4 of None \<Rightarrow> None | Some (c, s5) \<Rightarrow>
     (case scan_lit CHR ''.'' s5 of None \<Rightarrow> None | Some s6 \<Rightarrow>
     (case scan_u s6 of None \<Rightarrow> None | Some (d, _) \<Rightarrow> Some (a, b, c, d))))))))"

definition vpn_ip_parse :: "string option \<Rightarrow> u32" where
  "vpn_ip_parse str =
     (case str of None \<Rightarrow> 0
      | Some s \<Rightarrow>
        (case scan_quad s of None \<Rightarrow> 0
         | Some (a, b, c, d) \<Rightarrow>
             if a > 255 \<or> b > 255 \<or> c > 255 \<or> d > 255 then 0
             else push_bit 24 a OR push_bit 16 b OR push_bit 8 c OR d))"

text \<open>The text \<open>"%u.%u.%u.%u"\<close> of an address.\<close>

definition ip_quad :: "u32 \<Rightarrow> string" where
  "ip_quad ip =
     dec_string (unat (drop_bit 24 ip AND 0xFF)) @ ''.'' @
     dec_string (unat (drop_bit 16 ip AND 0xFF)) @ ''.'' @
     dec_string (unat (drop_bit 8 ip AND 0xFF)) @ ''.'' @
     dec_string (unat (ip AND 0xFF))"

definition vpn_ip_to_string :: "u32 \<Rightarrow> nat \<Rightarrow> string result" where
  "vpn_ip_to_string ip buf_len =
     (if buf_len < 16 then Inl EINVAL
      else let (written, buf) = snprintf buf_len (ip_quad ip)
           in if written \<ge> buf_len then Inl ENOSPC else Inr buf)"

text \<open>The split of the text at the slash: the contents of \<open>ip_buf\<close> and the prefix.\<close>

definition cidr_split :: "string \<Rightarrow> (string \<times> int) result" where
  "cidr_split str =
     (case strchr str CHR ''/'' of
        Some slash \<Rightarrow>
          let len = length str - length slash
          in if len = 0 \<or> len \<ge> 32 then Inl EINVAL
             else Inr (take len str, atoi (tl slash))
      | None \<Rightarrow> Inr (snd (snprintf 32 str), 32))"

definition prefix_mask :: "int \<Rightarrow> u32" where
  "prefix_mask prefix =
     (if prefix = 0 then 0
      else if prefix = 32 then 0xFFFFFFFF
      else push_bit (nat (32 - prefix)) 0xFFFFFFFF)"

definition vpn_cidr_parse :: "string option \<Rightarrow> vpn_cidr_t result" where
  "vpn_cidr_parse str =
     (case str of None \<Rightarrow> Inl EINVAL
      | Some s \<Rightarrow>
        (case cidr_split s of
           Inl e \<Rightarrow> Inl e
         | Inr (ip_buf, prefix) \<Rightarrow>
             if prefix < 0 \<or> prefix > 32 then Inl EINVAL
             else let ip = vpn_ip_parse (Some ip_buf); m = prefix_mask prefix
                  in Inr \<lparr>network = ip AND m, cidr_mask = m, prefix_len = prefix\<rparr>))"

definition vpn_cidr_match :: "vpn_cidr_t option \<Rightarrow> u32 \<Rightarrow> bool" where
  "vpn_cidr_match cidr ip =
     (case cidr of None \<Rightarrow> False | Some c \<Rightarrow> ip AND cidr_mask c = network c)"

text \<open>The invariant of a parsed range: the mask is that of the prefix and the network has no host bits.\<close>

definition cidr_wf :: "vpn_cidr_t \<Rightarrow> bool" where
  "cidr_wf c \<longleftrightarrow> 0 \<le> prefix_len c \<and> prefix_len c \<le> 32 \<and> cidr_mask c = prefix_mask (prefix_len c)
     \<and> network c AND cidr_mask c = network c"

section \<open>Lemmas\<close>

lemma bit_prefix_mask:
  "n \<le> 32 \<Longrightarrow> bit (prefix_mask (int n)) i \<longleftrightarrow> 32 - n \<le> i \<and> i < 32"
proof -
  assume n: "n \<le> 32"
  have ff: "(0xFFFFFFFF :: u32) = mask 32" by (simp add: mask_eq_exp_minus_1)
  consider "n = 0" | "n = 32" | "0 < n" "n < 32" using n by linarith
  then show ?thesis
    by cases (use n in \<open>auto simp: prefix_mask_def ff bit_simps nat_diff_distrib\<close>)
qed

lemma and_prefix_mask_eq:
  assumes "n \<le> 32"
  shows "x AND prefix_mask (int n) = y AND prefix_mask (int n) \<longleftrightarrow> drop_bit (32 - n) x = drop_bit (32 - n) y"
proof
  assume eq: "x AND prefix_mask (int n) = y AND prefix_mask (int n)"
  show "drop_bit (32 - n) x = drop_bit (32 - n) y"
  proof (rule bit_word_eqI)
    fix i
    have "bit (x AND prefix_mask (int n)) (32 - n + i) = bit (y AND prefix_mask (int n)) (32 - n + i)"
      using eq by simp
    then show "bit (drop_bit (32 - n) x) i = bit (drop_bit (32 - n) y) i"
      using assms bit_imp_le_length [of x "32 - n + i"] bit_imp_le_length [of y "32 - n + i"]
      by (auto simp: bit_and_iff bit_prefix_mask bit_drop_bit_eq)
  qed
next
  assume eq: "drop_bit (32 - n) x = drop_bit (32 - n) y"
  show "x AND prefix_mask (int n) = y AND prefix_mask (int n)"
  proof (rule bit_word_eqI)
    fix i
    have "bit (drop_bit (32 - n) x) (i - (32 - n)) = bit (drop_bit (32 - n) y) (i - (32 - n))"
      using eq by simp
    then show "bit (x AND prefix_mask (int n)) i = bit (y AND prefix_mask (int n)) i"
      using assms by (auto simp: bit_and_iff bit_prefix_mask bit_drop_bit_eq)
  qed
qed

lemma octet_le: "(x :: u32) AND 0xFF \<le> 255" "\<not> x AND 0xFF > 255"
  by (simp_all add: word_and_le1 not_less)

lemma unat_octet_less: "unat ((x :: u32) AND 0xFF) < 256"
  using octet_le(1) [of x] by (simp add: word_le_nat_alt)

lemma octets_recombine:
  "push_bit 24 (drop_bit 24 ip AND 0xFF) OR push_bit 16 (drop_bit 16 ip AND 0xFF)
     OR push_bit 8 (drop_bit 8 ip AND 0xFF) OR (ip AND 0xFF) = (ip :: u32)"
proof -
  have ff: "x AND 0xFF = take_bit 8 x" for x :: u32
    by (simp add: take_bit_eq_mask mask_eq_exp_minus_1)
  show ?thesis unfolding ff
  proof (rule bit_word_eqI)
    fix n assume n: "n < LENGTH(32)"
    consider "n < 8" | "8 \<le> n" "n < 16" | "16 \<le> n" "n < 24" | "24 \<le> n" by linarith
    then show "bit (push_bit 24 (take_bit 8 (drop_bit 24 ip)) OR push_bit 16 (take_bit 8 (drop_bit 16 ip))
        OR push_bit 8 (take_bit 8 (drop_bit 8 ip)) OR take_bit 8 ip) n = bit ip n"
      by cases (use n in \<open>auto simp: bit_or_iff bit_push_bit_iff bit_take_bit_iff bit_drop_bit_eq\<close>)
  qed
qed

lemma not_digit_dot: "\<not> is_digit CHR ''.''" "\<not> is_digit CHR ''/''"
  by (simp_all add: is_digit_def)

lemma scan_octet_dot: "n < 256 \<Longrightarrow> scan_u (dec_string n @ CHR ''.'' # rest) = Some (word_of_nat n, CHR ''.'' # rest)"
  by (rule scan_u_dec_string) (simp_all add: not_digit_dot)

lemma scan_octet_end: "n < 256 \<Longrightarrow> scan_u (dec_string n) = Some (word_of_nat n, [])"
  using scan_u_dec_string [of "[]" n] by simp

lemma scan_quad_ip_quad:
  "scan_quad (ip_quad ip) =
     Some (drop_bit 24 ip AND 0xFF, drop_bit 16 ip AND 0xFF, drop_bit 8 ip AND 0xFF, ip AND 0xFF)"
  by (simp add: ip_quad_def scan_quad_def scan_octet_dot scan_octet_end unat_octet_less scan_lit_def)

lemma vpn_ip_parse_quad: "vpn_ip_parse (Some (ip_quad ip)) = ip"
  unfolding vpn_ip_parse_def scan_quad_ip_quad option.case prod.case
  by (simp only: octet_le(2) octets_recombine simp_thms if_False)

lemma length_octet: "length (dec_string (unat ((x :: u32) AND 0xFF))) \<le> 3"
  using length_dec_string_3 [of "unat (x AND 0xFF)"] unat_octet_less [of x] by linarith

lemma length_ip_quad: "length (ip_quad ip) \<le> 15"
  using length_octet [of "drop_bit 24 ip"] length_octet [of "drop_bit 16 ip"]
    length_octet [of "drop_bit 8 ip"] length_octet [of ip]
  unfolding ip_quad_def length_append by (simp del: dec_string.simps)

lemma vpn_cidr_parse_wf: "vpn_cidr_parse s = Inr c \<Longrightarrow> cidr_wf c"
  by (auto simp: vpn_cidr_parse_def cidr_wf_def Let_def split: option.splits sum.splits prod.splits if_splits)

lemma not_slash_ip_quad: "CHR ''/'' \<notin> set (ip_quad ip)"
  using not_digit_dot(2) dec_string_digits by (fastforce simp: ip_quad_def)

lemma ip_quad_not_Nil: "ip_quad ip \<noteq> []"
  by (simp add: ip_quad_def)

lemma cidr_split_slash:
  assumes "CHR ''/'' \<notin> set h" "h \<noteq> []" "length h < 32"
  shows "cidr_split (h @ CHR ''/'' # t) = Inr (h, atoi t)"
proof -
  have "dropWhile (\<lambda>x. x \<noteq> CHR ''/'') (h @ CHR ''/'' # t) = CHR ''/'' # t"
    using assms(1) by (subst dropWhile_append2) auto
  then show ?thesis using assms by (simp add: cidr_split_def strchr_def Let_def)
qed

section \<open>Properties\<close>

text \<open>
  An address printed into a buffer of at least 16 characters parses back to itself.
\<close>

theorem vpn_ip_roundtrip:
  assumes "16 \<le> buf_len"
  shows "\<exists>s. vpn_ip_to_string ip buf_len = Inr s \<and> vpn_ip_parse (Some s) = ip"
  using assms length_ip_quad [of ip] by (simp add: vpn_ip_to_string_def snprintf_def vpn_ip_parse_quad)

theorem vpn_ip_roundtrip_witness:
  "\<exists>s. vpn_ip_to_string 0xC0A80102 16 = Inr s \<and> vpn_ip_parse (Some s) = 0xC0A80102"
  by (rule vpn_ip_roundtrip) simp

text \<open>
  C31: for an address printed in dotted form and a prefix of 0 to 32 bits, the range that
  \<open>vpn_cidr_parse\<close> gives is well formed and matches exactly the addresses that agree with it in
  their first \<open>n\<close> bits.
\<close>

theorem vpn_cidr_prefix_semantics:
  assumes "n \<le> 32"
  shows "\<exists>c. vpn_cidr_parse (Some (ip_quad ip @ ''/'' @ dec_string n)) = Inr c \<and> cidr_wf c
    \<and> (\<forall>x. vpn_cidr_match (Some c) x \<longleftrightarrow> drop_bit (32 - n) x = drop_bit (32 - n) ip)"
proof -
  let ?c = "\<lparr>network = ip AND prefix_mask (int n), cidr_mask = prefix_mask (int n), prefix_len = int n\<rparr>"
  have "cidr_split (ip_quad ip @ CHR ''/'' # dec_string n) = Inr (ip_quad ip, int n)"
    using cidr_split_slash [OF not_slash_ip_quad ip_quad_not_Nil, of ip "dec_string n"]
      atoi_dec_string [of "[]" n] length_ip_quad [of ip] assms by simp
  then have p: "vpn_cidr_parse (Some (ip_quad ip @ ''/'' @ dec_string n)) = Inr ?c"
    using assms by (simp add: vpn_cidr_parse_def vpn_ip_parse_quad Let_def)
  show ?thesis
    using p vpn_cidr_parse_wf [OF p] and_prefix_mask_eq [OF assms] by (simp add: vpn_cidr_match_def)
qed

theorem vpn_cidr_prefix_semantics_witness:
  "\<exists>c. vpn_cidr_parse (Some (ip_quad 0x0A000001 @ ''/'' @ dec_string 24)) = Inr c \<and> cidr_wf c
    \<and> (\<forall>x. vpn_cidr_match (Some c) x \<longleftrightarrow> drop_bit (32 - 24) x = drop_bit (32 - 24) 0x0A000001)"
  by (rule vpn_cidr_prefix_semantics) simp

text \<open>
  C40: a range with a slash and no number after it is not refused: whatever text of 1 to 31 characters
  stands before the slash, the result is the range of prefix length 0, which matches every address.
\<close>

theorem vpn_cidr_missing_prefix_matches_all:
  assumes "CHR ''/'' \<notin> set host" "host \<noteq> []" "length host < 32"
    and "t = [] \<or> \<not> is_digit (hd t) \<and> \<not> is_space (hd t) \<and> hd t \<notin> {CHR ''-'', CHR ''+''}"
  shows "\<exists>c. vpn_cidr_parse (Some (host @ ''/'' @ t)) = Inr c \<and> (\<forall>x. vpn_cidr_match (Some c) x)"
proof -
  have "atoi t = 0"
    using assms(4) by (cases t) (auto simp: atoi_def scan_sign_def Let_def dec_value_def to_int32_small)
  then show ?thesis
    using cidr_split_slash [OF assms(1-3), of t]
    by (simp add: vpn_cidr_parse_def vpn_cidr_match_def prefix_mask_def Let_def)
qed

theorem vpn_cidr_missing_prefix_matches_all_witness:
  "\<exists>c. vpn_cidr_parse (Some (''10.0.0.2'' @ ''/'' @ ''x'')) = Inr c \<and> (\<forall>x. vpn_cidr_match (Some c) x)"
  by (rule vpn_cidr_missing_prefix_matches_all) (simp_all add: is_digit_def is_space_def)

end
