(* ===== verification/Chacha20.thy ===== *)
theory Chacha20
  imports Endian
begin

text \<open>
  libsodium's portable ChaCha20, \<open>crypto_stream/chacha20/ref/chacha20_ref.c\<close>, and the part of the
  dispatcher \<open>stream_chacha20.c\<close> that the AEAD uses.  The sixteen state words are a list.  The loop
  over the blocks reads each block before it writes it, so a call in place (\<open>c = m\<close>) computes the
  same bytes.  A call of \<open>sodium_misuse\<close>, which ends the process, is the result None.
\<close>

unbundle bit_operations_syntax

section \<open>Model\<close>

record chacha_ctx =
  input :: "u32 list"

definition QUARTERROUND :: "u32 \<Rightarrow> u32 \<Rightarrow> u32 \<Rightarrow> u32 \<Rightarrow> u32 \<times> u32 \<times> u32 \<times> u32" where
  "QUARTERROUND a b c d =
     (let a = a + b; d = rotl32 (d XOR a) 16;
          c = c + d; b = rotl32 (b XOR c) 12;
          a = a + b; d = rotl32 (d XOR a) 8;
          c = c + d; b = rotl32 (b XOR c) 7
      in (a, b, c, d))"

text \<open>A quarter round on four words of the working state.\<close>

definition qround :: "nat \<Rightarrow> nat \<Rightarrow> nat \<Rightarrow> nat \<Rightarrow> u32 list \<Rightarrow> u32 list" where
  "qround i j k l x =
     (case QUARTERROUND (x ! i) (x ! j) (x ! k) (x ! l) of
        (a, b, c, d) \<Rightarrow> x[i := a, j := b, k := c, l := d])"

definition double_round :: "u32 list \<Rightarrow> u32 list" where
  "double_round x =
     (let x = qround 0 4 8 12 x; x = qround 1 5 9 13 x;
          x = qround 2 6 10 14 x; x = qround 3 7 11 15 x;
          x = qround 0 5 10 15 x; x = qround 1 6 11 12 x;
          x = qround 2 7 8 13 x; x = qround 3 4 9 14 x
      in x)"

text \<open>Ten double rounds, then the addition of the input words.\<close>

definition chacha20_block :: "u32 list \<Rightarrow> u32 list" where
  "chacha20_block j = map2 (+) ((double_round ^^ 10) j) j"

text \<open>The words XORed with 64 bytes of the message and stored.\<close>

definition chacha20_xor_store :: "u32 list \<Rightarrow> bytes \<Rightarrow> bytes" where
  "chacha20_xor_store x m =
     concat (map (\<lambda>i. store32_le (x ! i XOR load32_le (drop (4 * i) m))) [0..<16])"

definition chacha20_next :: "u32 list \<Rightarrow> u32 list" where
  "chacha20_next j =
     (let j = j[12 := j ! 12 + 1]
      in if j ! 12 = 0 then j[13 := j ! 13 + 1] else j)"

text \<open>The loop: the last block, if it is short, goes through a zeroed buffer of 64 bytes.\<close>

function chacha20_loop :: "u32 list \<Rightarrow> bytes \<Rightarrow> u32 list \<times> bytes" where
  "chacha20_loop j m =
     (if length m < 64 then
        let tmp = memcpy_at (zeros 64) 0 m
        in (chacha20_next j, take (length m) (chacha20_xor_store (chacha20_block j) tmp))
      else
        let c = chacha20_xor_store (chacha20_block j) m; j' = chacha20_next j
        in if length m \<le> 64 then (j', c)
           else case chacha20_loop j' (drop 64 m) of (j'', cs) \<Rightarrow> (j'', c @ cs))"
  by pat_completeness auto
termination
  by (relation "measure (\<lambda>(j, m). length m)") auto

definition chacha_keysetup :: "chacha_ctx \<Rightarrow> bytes \<Rightarrow> chacha_ctx" where
  "chacha_keysetup ctx k =
     ctx\<lparr>input := memcpy_at (input ctx) 0
       [0x61707865, 0x3320646e, 0x79622d32, 0x6b206574,
        load32_le (drop 0 k), load32_le (drop 4 k), load32_le (drop 8 k), load32_le (drop 12 k),
        load32_le (drop 16 k), load32_le (drop 20 k), load32_le (drop 24 k), load32_le (drop 28 k)]\<rparr>"

definition chacha_ivsetup :: "chacha_ctx \<Rightarrow> bytes \<Rightarrow> bytes option \<Rightarrow> chacha_ctx" where
  "chacha_ivsetup ctx iv counter =
     ctx\<lparr>input := memcpy_at (input ctx) 12
       [case counter of None \<Rightarrow> 0 | Some p \<Rightarrow> load32_le (drop 0 p),
        case counter of None \<Rightarrow> 0 | Some p \<Rightarrow> load32_le (drop 4 p),
        load32_le (drop 0 iv), load32_le (drop 4 iv)]\<rparr>"

definition chacha_ietf_ivsetup :: "chacha_ctx \<Rightarrow> bytes \<Rightarrow> bytes option \<Rightarrow> chacha_ctx" where
  "chacha_ietf_ivsetup ctx iv counter =
     ctx\<lparr>input := memcpy_at (input ctx) 12
       [case counter of None \<Rightarrow> 0 | Some p \<Rightarrow> load32_le p,
        load32_le (drop 0 iv), load32_le (drop 4 iv), load32_le (drop 8 iv)]\<rparr>"

definition chacha20_encrypt_bytes :: "chacha_ctx \<Rightarrow> bytes \<Rightarrow> chacha_ctx \<times> bytes" where
  "chacha20_encrypt_bytes ctx m =
     (if length m = 0 then (ctx, [])
      else case chacha20_loop (input ctx) m of
        (j, c) \<Rightarrow> (ctx\<lparr>input := (input ctx)[12 := j ! 12, 13 := j ! 13]\<rparr>, c))"

text \<open>The context on the stack before \<open>chacha_keysetup\<close>; every word of it is overwritten.\<close>

definition chacha_ctx_fresh :: chacha_ctx where
  "chacha_ctx_fresh = \<lparr>input = replicate 16 0\<rparr>"

definition stream_ref :: "nat \<Rightarrow> bytes \<Rightarrow> bytes \<Rightarrow> bytes" where
  "stream_ref clen n k =
     (if clen = 0 then []
      else let ctx = chacha_keysetup chacha_ctx_fresh k; ctx = chacha_ivsetup ctx n None
           in snd (chacha20_encrypt_bytes ctx (zeros clen)))"

definition stream_ietf_ext_ref :: "nat \<Rightarrow> bytes \<Rightarrow> bytes \<Rightarrow> bytes" where
  "stream_ietf_ext_ref clen n k =
     (if clen = 0 then []
      else let ctx = chacha_keysetup chacha_ctx_fresh k; ctx = chacha_ietf_ivsetup ctx n None
           in snd (chacha20_encrypt_bytes ctx (zeros clen)))"

definition stream_ref_xor_ic :: "bytes \<Rightarrow> bytes \<Rightarrow> u64 \<Rightarrow> bytes \<Rightarrow> bytes" where
  "stream_ref_xor_ic m n ic k =
     (if length m = 0 then []
      else let ic_high = ucast (drop_bit 32 ic); ic_low = ucast ic;
               ic_bytes = store32_le ic_low @ store32_le ic_high;
               ctx = chacha_keysetup chacha_ctx_fresh k; ctx = chacha_ivsetup ctx n (Some ic_bytes)
           in snd (chacha20_encrypt_bytes ctx m))"

definition stream_ietf_ext_ref_xor_ic :: "bytes \<Rightarrow> bytes \<Rightarrow> u32 \<Rightarrow> bytes \<Rightarrow> bytes" where
  "stream_ietf_ext_ref_xor_ic m n ic k =
     (if length m = 0 then []
      else let ic_bytes = store32_le ic;
               ctx = chacha_keysetup chacha_ctx_fresh k; ctx = chacha_ietf_ivsetup ctx n (Some ic_bytes)
           in snd (chacha20_encrypt_bytes ctx m))"

text \<open>The dispatcher: the limit for the 32-bit block counter is checked in 64-bit arithmetic.\<close>

definition crypto_stream_chacha20_ietf :: "nat \<Rightarrow> bytes \<Rightarrow> bytes \<Rightarrow> bytes option" where
  "crypto_stream_chacha20_ietf clen n k =
     (if clen > 64 * 2 ^ 32 then None else Some (stream_ietf_ext_ref clen n k))"

definition crypto_stream_chacha20_ietf_xor_ic :: "bytes \<Rightarrow> bytes \<Rightarrow> u32 \<Rightarrow> bytes \<Rightarrow> bytes option" where
  "crypto_stream_chacha20_ietf_xor_ic m n ic k =
     (let mlen = word_of_nat (length m) :: u64
      in if (ucast ic :: u64) > (64 * push_bit 32 1) div 64 - (mlen + 63) div 64 then None
         else Some (stream_ietf_ext_ref_xor_ic m n ic k))"

section \<open>The key stream\<close>

text \<open>Byte \<open>i\<close> of the key stream that starts with state \<open>j\<close>.\<close>

definition keystream_byte :: "u32 list \<Rightarrow> nat \<Rightarrow> u8" where
  "keystream_byte j i =
     concat (map store32_le (chacha20_block ((chacha20_next ^^ (i div 64)) j))) ! (i mod 64)"

text \<open>The initial state of the IETF variant, as RFC 8439 lays it out.\<close>

definition ietf_state :: "bytes \<Rightarrow> bytes \<Rightarrow> u32 \<Rightarrow> u32 list" where
  "ietf_state k n ic =
     [0x61707865, 0x3320646e, 0x79622d32, 0x6b206574] @
     map (\<lambda>i. le32_read (drop (4 * i) k)) [0..<8] @ [ic] @
     map (\<lambda>i. le32_read (drop (4 * i) n)) [0..<3]"


section \<open>Lemmas\<close>

declare chacha20_loop.simps [simp del]

lemma length_qround [simp]: "length (qround i j k l x) = length x"
  by (simp add: qround_def split: prod.split)

lemma length_double_round [simp]: "length (double_round x) = length x"
  by (simp add: double_round_def)

lemma length_double_rounds [simp]: "length ((double_round ^^ n) x) = length x"
  by (induction n) simp_all

lemma length_chacha20_block [simp]: "length (chacha20_block j) = length j"
  by (simp add: chacha20_block_def)

lemma length_chacha20_next [simp]: "length (chacha20_next j) = length j"
  by (simp add: chacha20_next_def Let_def)

lemma length_chacha20_nexts [simp]: "length ((chacha20_next ^^ n) j) = length j"
  by (induction n) simp_all

lemma length_chacha20_xor_store [simp]: "length (chacha20_xor_store x m) = 64"
  by (simp add: chacha20_xor_store_def length_concat_uniform [where c = 4])

lemma nth_store32_xor:
  assumes "k < 4" "k < length p"
  shows "store32_le (w XOR load32_le p) ! k = p ! k XOR store32_le w ! k"
proof (rule bit_word_eqI)
  fix j assume "j < LENGTH(8)"
  then have j: "j < 8" by simp
  show "bit (store32_le (w XOR load32_le p) ! k) j = bit (p ! k XOR store32_le w ! k) j"
    unfolding sodium_le_eqs bit_xor_iff bit_le32_write [OF assms(1) j] bit_le32_read [OF assms(1) j]
    by auto
qed

lemma nth_chacha20_xor_store:
  assumes "length x = 16" "64 \<le> length m" "i < 64"
  shows "chacha20_xor_store x m ! i = m ! i XOR concat (map store32_le x) ! i"
proof -
  have "chacha20_xor_store x m ! i =
      store32_le (x ! ([0..<16] ! (i div 4)) XOR load32_le (drop (4 * ([0..<16] ! (i div 4))) m)) ! (i mod 4)"
    unfolding chacha20_xor_store_def using assms by (intro nth_concat_uniform) auto
  also have "\<dots> = store32_le (x ! (i div 4) XOR load32_le (drop (4 * (i div 4)) m)) ! (i mod 4)"
    using assms by simp
  also have "\<dots> = drop (4 * (i div 4)) m ! (i mod 4) XOR store32_le (x ! (i div 4)) ! (i mod 4)"
  proof (intro nth_store32_xor)
    have "4 * (i div 4) + i mod 4 = i" by simp
    then show "i mod 4 < length (drop (4 * (i div 4)) m)" using assms(2,3) unfolding length_drop by linarith
  qed simp
  also have "drop (4 * (i div 4)) m ! (i mod 4) = m ! i"
    using assms by simp
  also have "store32_le (x ! (i div 4)) ! (i mod 4) = concat (map store32_le x) ! i"
    using assms by (intro nth_concat_uniform [symmetric]) auto
  finally show ?thesis .
qed

lemma length_chacha20_loop [simp]: "length (snd (chacha20_loop j m)) = length m"
  by (induction j m rule: chacha20_loop.induct)
    (subst chacha20_loop.simps, auto simp: Let_def split: prod.splits)

lemma keystream_byte_next: "64 \<le> i \<Longrightarrow> keystream_byte (chacha20_next j) (i - 64) = keystream_byte j i"
proof -
  assume "64 \<le> i"
  then have "i div 64 = Suc ((i - 64) div 64)" "i mod 64 = (i - 64) mod 64"
    by (simp_all add: le_div_geq le_mod_geq)
  then show ?thesis by (simp add: keystream_byte_def funpow_swap1)
qed

lemma keystream_byte_first: "i < 64 \<Longrightarrow> keystream_byte j i = concat (map store32_le (chacha20_block j)) ! i"
  by (simp add: keystream_byte_def)

lemma nth_chacha20_loop:
  "length j = 16 \<Longrightarrow> i < length m \<Longrightarrow> snd (chacha20_loop j m) ! i = m ! i XOR keystream_byte j i"
proof (induction j m arbitrary: i rule: chacha20_loop.induct)
  case (1 j m)
  show ?case
  proof (cases "length m < 64")
    case True
    have "memcpy_at (zeros 64) 0 m ! i = m ! i"
      using True 1(3) by (simp add: nth_memcpy_at)
    then show ?thesis
      using True 1(2,3) by (subst chacha20_loop.simps) (simp add: Let_def nth_chacha20_xor_store keystream_byte_first)
  next
    case False
    have step: "snd (chacha20_loop j m) = chacha20_xor_store (chacha20_block j) m
        @ (if length m \<le> 64 then [] else snd (chacha20_loop (chacha20_next j) (drop 64 m)))"
      using False by (subst chacha20_loop.simps) (simp add: Let_def split: prod.split)
    show ?thesis
    proof (cases "i < 64")
      case True
      then show ?thesis
        using False 1(2) unfolding step
        by (simp add: nth_append nth_chacha20_xor_store keystream_byte_first)
    next
      case big: False
      have "snd (chacha20_loop (chacha20_next j) (drop 64 m)) ! (i - 64)
          = drop 64 m ! (i - 64) XOR keystream_byte (chacha20_next j) (i - 64)"
        using False big 1(2,3) by (intro 1(1)) auto
      then show ?thesis
        using False big 1(3) unfolding step by (simp add: nth_append keystream_byte_next)
    qed
  qed
qed

lemma length_chacha20_encrypt_bytes [simp]: "length (snd (chacha20_encrypt_bytes ctx m)) = length m"
  by (simp add: chacha20_encrypt_bytes_def case_prod_beta)

lemma nth_chacha20_encrypt_bytes:
  "length (input ctx) = 16 \<Longrightarrow> i < length m \<Longrightarrow>
   snd (chacha20_encrypt_bytes ctx m) ! i = m ! i XOR keystream_byte (input ctx) i"
  by (auto simp: chacha20_encrypt_bytes_def case_prod_beta nth_chacha20_loop)

lemma ietf_setup:
  "input (chacha_ietf_ivsetup (chacha_keysetup chacha_ctx_fresh k) n (Some (store32_le ic))) = ietf_state k n ic"
  "input (chacha_ietf_ivsetup (chacha_keysetup chacha_ctx_fresh k) n None) = ietf_state k n 0"
  using le32_read_write [of ic "[]"]
  by (simp_all add: chacha_ietf_ivsetup_def chacha_keysetup_def chacha_ctx_fresh_def memcpy_at_def ietf_state_def
      sodium_le_eqs numeral_eq_Suc)

lemma length_ietf_state [simp]: "length (ietf_state k n ic) = 16"
  by (simp add: ietf_state_def)

lemma length_stream_ietf_ext_ref_xor_ic [simp]: "length (stream_ietf_ext_ref_xor_ic m n ic k) = length m"
  by (simp add: stream_ietf_ext_ref_xor_ic_def Let_def)

lemma length_stream_ietf_ext_ref [simp]: "length (stream_ietf_ext_ref clen n k) = clen"
  by (simp add: stream_ietf_ext_ref_def Let_def)

lemma nth_stream_ietf_ext_ref_xor_ic:
  "i < length m \<Longrightarrow> stream_ietf_ext_ref_xor_ic m n ic k ! i = m ! i XOR keystream_byte (ietf_state k n ic) i"
  by (auto simp: stream_ietf_ext_ref_xor_ic_def Let_def nth_chacha20_encrypt_bytes ietf_setup)

lemma stream_ietf_involution:
  "stream_ietf_ext_ref_xor_ic (stream_ietf_ext_ref_xor_ic m n ic k) n ic k = m"
  by (rule nth_equalityI) (simp_all add: nth_stream_ietf_ext_ref_xor_ic xor.assoc)

lemma no_misuse:
  assumes "length m \<le> 64 * (2 ^ 32 - 1)"
  shows "crypto_stream_chacha20_ietf_xor_ic m n 1 k = Some (stream_ietf_ext_ref_xor_ic m n 1 k)"
proof -
  have "unat ((word_of_nat (length m) :: u64) + 63) = length m + 63"
    using assms by (simp add: unat_word_ariths unat_of_nat)
  then have "unat (((word_of_nat (length m) :: u64) + 63) div 64) = (length m + 63) div 64"
    by (simp add: unat_div)
  moreover have "(length m + 63) div 64 < 2 ^ 32" using assms by simp
  ultimately have "\<not> (1 :: u64) > 4294967296 - ((word_of_nat (length m) :: u64) + 63) div 64"
    by (simp add: word_less_nat_alt unat_sub_if_size not_less)
  then show ?thesis
    by (simp add: crypto_stream_chacha20_ietf_xor_ic_def Let_def)
qed

text \<open>The ten double rounds of the block of RFC 8439, section 2.3.2.\<close>

lemma rfc8439_round_1:
  "double_round
    [0x61707865, 0x3320646e, 0x79622d32, 0x6b206574, 0x03020100, 0x07060504, 0x0b0a0908, 0x0f0e0d0c,
     0x13121110, 0x17161514, 0x1b1a1918, 0x1f1e1d1c, 0x00000001, 0x09000000, 0x4a000000, 0x00000000] =
    [0xcd52e917, 0x85ab03b4, 0xb3457395, 0xf96de7dd, 0xc4b7cd22, 0x5c2e187a, 0xc95eb461, 0x316c801a,
     0x7bf7d740, 0x7eddd644, 0xf1a1bdf5, 0x761246ca, 0x6b0d58a3, 0x6798471a, 0xd737f167, 0xf173888d]"
  by code_simp

lemma rfc8439_round_2:
  "double_round
    [0xcd52e917, 0x85ab03b4, 0xb3457395, 0xf96de7dd, 0xc4b7cd22, 0x5c2e187a, 0xc95eb461, 0x316c801a,
     0x7bf7d740, 0x7eddd644, 0xf1a1bdf5, 0x761246ca, 0x6b0d58a3, 0x6798471a, 0xd737f167, 0xf173888d] =
    [0xcf1a7584, 0x048927ec, 0x54051fda, 0xc244ff28, 0x901d2f40, 0x7974b81c, 0x378dcfb4, 0xcd47fd0e,
     0x2dafb216, 0x27c89cd6, 0xcd3c9aa0, 0x79fc89c7, 0x10aef18d, 0x16218765, 0x68f76705, 0x04d6ee22]"
  by code_simp

lemma rfc8439_round_3:
  "double_round
    [0xcf1a7584, 0x048927ec, 0x54051fda, 0xc244ff28, 0x901d2f40, 0x7974b81c, 0x378dcfb4, 0xcd47fd0e,
     0x2dafb216, 0x27c89cd6, 0xcd3c9aa0, 0x79fc89c7, 0x10aef18d, 0x16218765, 0x68f76705, 0x04d6ee22] =
    [0x03a14032, 0x66b15927, 0x9d6b6b42, 0xb84c4109, 0xa7143ae0, 0xa09b33dd, 0xa5daaf88, 0x2fd91a73,
     0xc90c6b18, 0x5a202413, 0xc20e01b6, 0x72cd6b74, 0xba35d777, 0xb360f1bf, 0x8178315b, 0x2cd11b1a]"
  by code_simp

lemma rfc8439_round_4:
  "double_round
    [0x03a14032, 0x66b15927, 0x9d6b6b42, 0xb84c4109, 0xa7143ae0, 0xa09b33dd, 0xa5daaf88, 0x2fd91a73,
     0xc90c6b18, 0x5a202413, 0xc20e01b6, 0x72cd6b74, 0xba35d777, 0xb360f1bf, 0x8178315b, 0x2cd11b1a] =
    [0x9a2d3589, 0x0b23fc4e, 0x40af3b6b, 0xceea8144, 0x0a1bffc6, 0x5e5993f7, 0x9904c2e7, 0x0d334718,
     0xe46c6354, 0xc9503229, 0x04fef5aa, 0xf8933f72, 0x2687d476, 0x54e65231, 0x3594ffc5, 0x2b3bb2ca]"
  by code_simp

lemma rfc8439_round_5:
  "double_round
    [0x9a2d3589, 0x0b23fc4e, 0x40af3b6b, 0xceea8144, 0x0a1bffc6, 0x5e5993f7, 0x9904c2e7, 0x0d334718,
     0xe46c6354, 0xc9503229, 0x04fef5aa, 0xf8933f72, 0x2687d476, 0x54e65231, 0x3594ffc5, 0x2b3bb2ca] =
    [0xc53318c5, 0xca325d96, 0x7e7d11cb, 0x3404e2ca, 0x26d7cf73, 0x6088d379, 0xc0f0e9bd, 0xe310cdb9,
     0xae2ca8db, 0x42f67c72, 0x71669aca, 0x975c171d, 0x9e5ec228, 0x7d85a9f3, 0x201d0756, 0x63fa6953]"
  by code_simp

lemma rfc8439_round_6:
  "double_round
    [0xc53318c5, 0xca325d96, 0x7e7d11cb, 0x3404e2ca, 0x26d7cf73, 0x6088d379, 0xc0f0e9bd, 0xe310cdb9,
     0xae2ca8db, 0x42f67c72, 0x71669aca, 0x975c171d, 0x9e5ec228, 0x7d85a9f3, 0x201d0756, 0x63fa6953] =
    [0x04a3131a, 0x66176309, 0x0415bab1, 0x61b880a2, 0x36cc86c7, 0xbf8a4465, 0xf77dd720, 0xfc0bdc90,
     0x07d13aca, 0xeb0be9af, 0x61599491, 0x918512dc, 0x33b6686d, 0x795cc671, 0xc0049972, 0xa0a81bde]"
  by code_simp

lemma rfc8439_round_7:
  "double_round
    [0x04a3131a, 0x66176309, 0x0415bab1, 0x61b880a2, 0x36cc86c7, 0xbf8a4465, 0xf77dd720, 0xfc0bdc90,
     0x07d13aca, 0xeb0be9af, 0x61599491, 0x918512dc, 0x33b6686d, 0x795cc671, 0xc0049972, 0xa0a81bde] =
    [0x9b70f51f, 0x7ea8ac11, 0x21e54da9, 0xca393b2f, 0x93b08686, 0x6a4c50ae, 0x19212a5a, 0x9b032958,
     0xd839165e, 0x4c06e28a, 0xd3fde99e, 0x26acc13d, 0xa609f555, 0x2c246549, 0x95151853, 0x2c847a0d]"
  by code_simp

lemma rfc8439_round_8:
  "double_round
    [0x9b70f51f, 0x7ea8ac11, 0x21e54da9, 0xca393b2f, 0x93b08686, 0x6a4c50ae, 0x19212a5a, 0x9b032958,
     0xd839165e, 0x4c06e28a, 0xd3fde99e, 0x26acc13d, 0xa609f555, 0x2c246549, 0x95151853, 0x2c847a0d] =
    [0xca5c85dd, 0x93a4f90e, 0xd9f0df58, 0x26dd82dd, 0x982563f8, 0x712aa9ff, 0x279a61e8, 0x970f72bd,
     0x1c25931a, 0x5180bb10, 0x779c27e7, 0x54077e08, 0xa9b751fb, 0x382f3ce2, 0x8db1757d, 0xcc38080b]"
  by code_simp

lemma rfc8439_round_9:
  "double_round
    [0xca5c85dd, 0x93a4f90e, 0xd9f0df58, 0x26dd82dd, 0x982563f8, 0x712aa9ff, 0x279a61e8, 0x970f72bd,
     0x1c25931a, 0x5180bb10, 0x779c27e7, 0x54077e08, 0xa9b751fb, 0x382f3ce2, 0x8db1757d, 0xcc38080b] =
    [0xb6b87de6, 0x9a016148, 0x93859815, 0x4915e6cc, 0xdc33c122, 0x98e18fa3, 0x5ffbe8fc, 0xf7154b8b,
     0x28c1fcb3, 0xc4b38f9d, 0x83e2f5d7, 0x7d24b98b, 0x21078b22, 0xb193e7a3, 0xb2f49389, 0x6cde6026]"
  by code_simp

lemma rfc8439_round_10:
  "double_round
    [0xb6b87de6, 0x9a016148, 0x93859815, 0x4915e6cc, 0xdc33c122, 0x98e18fa3, 0x5ffbe8fc, 0xf7154b8b,
     0x28c1fcb3, 0xc4b38f9d, 0x83e2f5d7, 0x7d24b98b, 0x21078b22, 0xb193e7a3, 0xb2f49389, 0x6cde6026] =
    [0x837778ab, 0xe238d763, 0xa67ae21e, 0x5950bb2f, 0xc4f2d0c7, 0xfc62bb2f, 0x8fa018fc, 0x3f5ec7b7,
     0x335271c2, 0xf29489f3, 0xeabda8fc, 0x82e46ebd, 0xd19c12b4, 0xb04e16de, 0x9e83d0cb, 0x4e3c50a2]"
  by code_simp

lemmas rfc8439_rounds = rfc8439_round_1 rfc8439_round_2 rfc8439_round_3 rfc8439_round_4 rfc8439_round_5 rfc8439_round_6 rfc8439_round_7 rfc8439_round_8 rfc8439_round_9 rfc8439_round_10

lemma rfc8439_state:
  "ietf_state (map word_of_nat [0..<32]) [0, 0, 0, 9, 0, 0, 0, 0x4a, 0, 0, 0, 0] 1 =
    [0x61707865, 0x3320646e, 0x79622d32, 0x6b206574, 0x03020100, 0x07060504, 0x0b0a0908, 0x0f0e0d0c,
     0x13121110, 0x17161514, 0x1b1a1918, 0x1f1e1d1c, 0x00000001, 0x09000000, 0x4a000000, 0x00000000]"
  by code_simp

lemma funpow_10: "(f ^^ 10) x = f (f (f (f (f (f (f (f (f (f x)))))))))"
  by (simp add: numeral_eq_Suc)

section \<open>Properties\<close>

text \<open>
  C8: the block function gives the output words of the test vector of RFC 8439, section 2.3.2 (key
  00 01 .. 1f, nonce 00:00:00:09:00:00:00:4a:00:00:00:00, block counter 1).
\<close>

theorem chacha20_block_rfc8439_vector:
  "chacha20_block (ietf_state (map word_of_nat [0..<32]) [0, 0, 0, 9, 0, 0, 0, 0x4a, 0, 0, 0, 0] 1) =
    [0xe4e7f110, 0x15593bd1, 0x1fdd0f50, 0xc47120a3, 0xc7f4d1c7, 0x0368c033, 0x9aaa2204, 0x4e6cd4c3,
     0x466482d2, 0x09aa9f07, 0x05d7c214, 0xa2028bd9, 0xd19c12b5, 0xb94e16de, 0xe883d0cb, 0x4e3c50a2]"
  unfolding rfc8439_state chacha20_block_def funpow_10 rfc8439_rounds by simp



end
