(* ===== verification/Word_Arith.thy ===== *)
theory Word_Arith
  imports Endian
begin

text \<open>
  Machine words as numbers: operations that do not overflow, masks and shifts as remainders and
  quotients, and the numbers that byte strings spell in little-endian order. The limb arithmetic of
  Poly1305 and of the field of Curve25519 rests on these lemmas.
\<close>

unbundle bit_operations_syntax

section \<open>Byte strings as numbers\<close>

fun le_nat :: "bytes \<Rightarrow> nat" where
  "le_nat [] = 0"
| "le_nat (b # bs) = unat b + 256 * le_nat bs"

fun nat_le :: "nat \<Rightarrow> nat \<Rightarrow> bytes" where
  "nat_le 0 n = []"
| "nat_le (Suc k) n = word_of_nat n # nat_le k (n div 256)"

section \<open>Words without overflow\<close>

lemma unat_add_u64: "unat a + unat b < 2 ^ 64 \<Longrightarrow> unat (a + b :: u64) = unat a + unat b"
  by (simp add: unat_word_ariths)

lemma unat_mult_u64: "unat a * unat b < 2 ^ 64 \<Longrightarrow> unat (a * b :: u64) = unat a * unat b"
  by (simp add: unat_word_ariths)

lemma unat_add_u128: "unat a + unat b < 2 ^ 128 \<Longrightarrow> unat (a + b :: u128) = unat a + unat b"
  by (simp add: unat_word_ariths)

lemma unat_ucast_u128 [simp]: "unat (ucast (a :: u64) :: u128) = unat a"
proof -
  have "unat a < 2 ^ 128" by (rule less_trans [OF unat_u64_less]) simp
  then show ?thesis by (simp add: unsigned_ucast_eq take_bit_nat_eq_self)
qed

lemma unat_mul_u128: "unat (ucast (a :: u64) * ucast (b :: u64) :: u128) = unat a * unat b"
proof -
  have "unat a * unat b < 2 ^ 64 * 2 ^ 64"
    using unat_u64_less [of a] unat_u64_less [of b] by (intro mult_strict_mono) simp_all
  then show ?thesis by (simp add: unat_word_ariths)
qed

lemma unat_ucast_u64: "unat (w :: u128) < 2 ^ 64 \<Longrightarrow> unat (ucast w :: u64) = unat w"
  by (simp add: unsigned_ucast_eq take_bit_nat_eq_self)

lemma unat_and_44: "unat (w AND 0xfffffffffff :: u64) = unat w mod 2 ^ 44"
proof -
  have "w AND 0xfffffffffff = take_bit 44 w" by (simp add: take_bit_eq_mask mask_eq_exp_minus_1)
  then show ?thesis by (simp add: unsigned_take_bit_eq take_bit_eq_mod [of 44 "unat w"])
qed

lemma unat_and_42: "unat (w AND 0x3ffffffffff :: u64) = unat w mod 2 ^ 42"
proof -
  have "w AND 0x3ffffffffff = take_bit 42 w" by (simp add: take_bit_eq_mask mask_eq_exp_minus_1)
  then show ?thesis by (simp add: unsigned_take_bit_eq take_bit_eq_mod [of 42 "unat w"])
qed

lemma unat_ucast_and_44: "unat (ucast (w :: u128) AND 0xfffffffffff :: u64) = unat w mod 2 ^ 44"
  unfolding unat_and_44 by (simp add: unsigned_ucast_eq take_bit_eq_mod [of 64 "unat w"] mod_mod_cancel)

lemma unat_ucast_and_42: "unat (ucast (w :: u128) AND 0x3ffffffffff :: u64) = unat w mod 2 ^ 42"
  unfolding unat_and_42 by (simp add: unsigned_ucast_eq take_bit_eq_mod [of 64 "unat w"] mod_mod_cancel)

lemma unat_drop_bit: "unat (drop_bit n (w :: 'a::len word)) = unat w div 2 ^ n"
proof -
  have "take_bit LENGTH('a) (unat w) = unat w" by (rule take_bit_nat_eq_self) (rule unsigned_less)
  then show ?thesis by (simp add: unsigned_drop_bit_eq drop_bit_eq_div [symmetric])
qed


lemma not_bit_u64: "64 \<le> n \<Longrightarrow> \<not> bit (w :: u64) n"
  by (auto dest: bit_imp_le_length)

lemma mult_bound: "(a :: nat) < 2 ^ x \<Longrightarrow> b < 2 ^ y \<Longrightarrow> a * b < 2 ^ (x + y)"
  unfolding power_add by (rule mult_strict_mono) simp_all

section \<open>Bytes and numbers\<close>

lemma unat_byte_of: "unat (ucast (drop_bit n (v :: 'a::len word) AND 0xFF) :: u8) = unat v div 2 ^ n mod 256"
  unfolding and_0xFF_eq ucast_u8_take
  by (simp add: unsigned_ucast_eq unat_drop_bit take_bit_eq_mod [of 8 "unat v div 2 ^ n"])

lemma byte_chain:
  fixes x0 x1 x2 x3 x4 x5 x6 x7 x8 :: nat
  assumes "y0 + 256 * x1 = x0" "y1 + 256 * x2 = x1" "y2 + 256 * x3 = x2" "y3 + 256 * x4 = x3"
    "y4 + 256 * x5 = x4" "y5 + 256 * x6 = x5" "y6 + 256 * x7 = x6" "y7 + 256 * x8 = x7"
  shows "y0 + 256 * (y1 + 256 * (y2 + 256 * (y3 + 256 * (y4 + 256 * (y5 + 256 * (y6 + 256 * (y7 + 256 * x8))))))) = x0"
  using assms by simp

lemma le_nat_le64_write: "le_nat (le64_write v) = unat v"
proof -
  define x where "x k = unat v div 2 ^ (8 * k)" for k
  have s: "x k mod 256 + 256 * x l = x k" if "l = Suc k" for k l
  proof -
    have "x l = x k div 256" by (simp add: that x_def div_mult2_eq [symmetric] power_add mult.commute)
    then show ?thesis by simp
  qed
  have chain: "x 0 mod 256 + 256 * (x 1 mod 256 + 256 * (x 2 mod 256 + 256 * (x 3 mod 256
      + 256 * (x 4 mod 256 + 256 * (x 5 mod 256 + 256 * (x 6 mod 256 + 256 * (x 7 mod 256 + 256 * x 8))))))) = x 0"
    by (rule byte_chain [OF s [of 1 0] s [of 2 1] s [of 3 2] s [of 4 3] s [of 5 4] s [of 6 5] s [of 7 6] s [of 8 7]])
      simp_all
  have b: "unat (ucast (drop_bit (8 * k) v AND 0xFF) :: u8) = x k mod 256" for k
    unfolding x_def by (rule unat_byte_of)
  have "x 8 = 0" using unat_u64_less [of v] by (simp add: x_def)
  moreover have "x 0 = unat v" by (simp add: x_def)
  moreover have "le_nat (le64_write v) = x 0 mod 256 + 256 * (x 1 mod 256 + 256 * (x 2 mod 256 + 256 * (x 3 mod 256
      + 256 * (x 4 mod 256 + 256 * (x 5 mod 256 + 256 * (x 6 mod 256 + 256 * (x 7 mod 256)))))))"
    unfolding b [symmetric] by (simp add: le64_write_def)
  ultimately show ?thesis using chain by simp
qed

lemma le_nat_append: "le_nat (a @ b) = le_nat a + 256 ^ length a * le_nat b"
  by (induction a) (simp_all add: algebra_simps)

lemma le_nat_zeros [simp]: "le_nat (zeros n) = 0"
  by (induction n) (simp_all add: zeros_def)

lemma unat_load64_le: "8 \<le> length p \<Longrightarrow> unat (load64_le p) = le_nat (take 8 p)"
  using le64_write_read [of "take 8 p"] le_nat_le64_write [of "le64_read p"]
  by (simp add: sodium_le_eqs le64_read_take)

lemma nat_le_le_nat: "nat_le (length bs) (le_nat bs) = bs"
proof (induction bs)
  case (Cons b bs)
  have z: "(256 :: u8) = 0" by simp
  have "word_of_nat (unat b + 256 * le_nat bs) = b + 256 * word_of_nat (le_nat bs)" by simp
  also have "\<dots> = b" unfolding z by simp
  finally have "word_of_nat (unat b + 256 * le_nat bs) = b" .
  then show ?case using Cons by simp
qed simp

lemma nat_le_map: "nat_le k n = map (\<lambda>i. word_of_nat (n div 256 ^ i)) [0..<k]"
proof (induction k arbitrary: n)
  case (Suc k)
  have "[0..<Suc k] = 0 # map Suc [0..<k]" by (simp add: map_Suc_upt upt_conv_Cons)
  then show ?case using Suc by (simp add: div_mult2_eq comp_def del: upt_Suc)
qed simp

lemma unat_or_push:
  fixes x y :: u64
  assumes "unat x < 2 ^ n" "n < 64"
  shows "unat (x OR push_bit n y) = unat x + 2 ^ n * (unat y mod 2 ^ (64 - n))"
proof -
  have t: "x = take_bit n x"
    using assms(1) by (simp add: word_unat_eq_iff unsigned_take_bit_eq take_bit_nat_eq_self)
  have lt: "i < n" if "bit x i" for i using that t by (metis bit_take_bit_iff)
  have o: "x OR push_bit n y = x + push_bit n y"
    by (intro disjunctive_add [symmetric]) (metis bit_push_bit_iff lt leD)
  have "unat (push_bit n y) = 2 ^ n * unat y mod 2 ^ 64"
    by (simp add: unsigned_push_bit_eq take_bit_eq_mod [of 64 "unat y * 2 ^ n"] push_bit_eq_mult [of n "unat y"]
        mult.commute)
  also have "\<dots> = 2 ^ n * (unat y mod 2 ^ (64 - n))"
    using assms(2) by (simp add: mult_mod_right power_add [symmetric] flip: power_add)
  finally have p: "unat (push_bit n y) = 2 ^ n * (unat y mod 2 ^ (64 - n))" .
  have "unat y mod 2 ^ (64 - n) + 1 \<le> 2 ^ (64 - n)" by (simp add: Suc_leI)
  then have "2 ^ n * (unat y mod 2 ^ (64 - n) + 1) \<le> 2 ^ n * 2 ^ (64 - n)" by (rule mult_left_mono) simp
  also have "\<dots> = 2 ^ 64" using assms(2) by (simp flip: power_add)
  finally have "unat x + unat (push_bit n y) < 2 ^ 64" using assms(1) unfolding p by simp
  then show ?thesis unfolding o p [symmetric] by (rule unat_add_u64)
qed

end
