(* ===== verification/Poly1305_Limbs.thy ===== *)
theory Poly1305_Limbs
  imports Poly1305
begin

text \<open>
  The limb arithmetic of Poly1305: no 64-bit or 128-bit operation of the block function overflows, the
  limbs stay within their bounds, and one block step multiplies modulo \<open>2 ^ 130 - 5\<close>.
\<close>

unbundle bit_operations_syntax

declare poly1305_blocks_loop.simps [simp del] poly1305_acc.simps [simp del]

section \<open>Limbs\<close>

fun limbs_val :: "limbs \<Rightarrow> nat" where
  "limbs_val (a, b, c) = unat a + 2 ^ 44 * unat b + 2 ^ 88 * unat c"

text \<open>The bounds on the accumulator between blocks, and on the clamped multiplier.\<close>

fun h_bounded :: "limbs \<Rightarrow> bool" where
  "h_bounded (a, b, c) \<longleftrightarrow> unat a < 2 ^ 44 \<and> unat b < 2 ^ 45 \<and> unat c < 2 ^ 42"

fun r_bounded :: "limbs \<Rightarrow> bool" where
  "r_bounded (a, b, c) \<longleftrightarrow> unat a < 2 ^ 44 \<and> unat b < 2 ^ 44 \<and> unat c < 2 ^ 40"

text \<open>The 44-bit limbs of the 128-bit number with the given halves.\<close>

lemma unat_middle_limb:
  "unat ((drop_bit 44 t0 OR push_bit 20 t1) AND 0xfffffffffff :: u64) = unat t0 div 2 ^ 44 + 2 ^ 20 * (unat t1 mod 2 ^ 24)"
proof -
  let ?w = "(drop_bit 44 t0 OR push_bit 20 t1) AND 0xfffffffffff :: u64"
  have "?w = drop_bit 44 t0 OR push_bit 20 (take_bit 24 t1)"
  proof -
    have "?w = take_bit 44 (drop_bit 44 t0 OR push_bit 20 t1)" by (simp add: take_bit_eq_mask mask_eq_exp_minus_1)
    also have "\<dots> = drop_bit 44 t0 OR push_bit 20 (take_bit 24 t1)"
      by (rule bit_word_eqI) (auto simp: bit_simps not_bit_u64)
    finally show ?thesis .
  qed
  also have "\<dots> = drop_bit 44 t0 + push_bit 20 (take_bit 24 t1)"
    by (rule disjunctive_add [symmetric]) (auto simp: bit_simps not_bit_u64)
  finally have w: "?w = drop_bit 44 t0 + push_bit 20 (take_bit 24 t1)" .
  have lo: "unat (drop_bit 44 t0) = unat t0 div 2 ^ 44" by (rule unat_drop_bit)
  have "unat t0 div 2 ^ 44 < 2 ^ 20" by (rule less_mult_imp_div_less) (use unat_u64_less [of t0] in simp)
  moreover have hi: "unat (push_bit 20 (take_bit 24 t1)) = 2 ^ 20 * (unat t1 mod 2 ^ 24)"
  proof -
    have t: "unat (take_bit 24 t1) = unat t1 mod 2 ^ 24"
      by (simp add: unsigned_take_bit_eq take_bit_eq_mod [of 24 "unat t1"])
    have "unat (take_bit 24 t1 * 1048576) = unat (take_bit 24 t1) * unat (1048576 :: u64)"
      by (rule unat_mult_u64) (use t mod_less_divisor [of "2 ^ 24" "unat t1"] in simp)
    then show ?thesis using t by (simp add: push_bit_eq_mult)
  qed
  moreover have "unat t1 mod 2 ^ 24 < 2 ^ 24" by simp
  ultimately have "unat (drop_bit 44 t0) + unat (push_bit 20 (take_bit 24 t1)) < 2 ^ 64" using lo by simp
  then show ?thesis unfolding w by (simp only: unat_add_u64 lo hi)
qed

lemma limbs_split_arith:
  "A = 2 ^ 44 * x + y \<Longrightarrow> B = 2 ^ 24 * u + v \<Longrightarrow>
   y + 2 ^ 44 * (x + 2 ^ 20 * v) + 2 ^ 88 * u = A + 2 ^ 64 * (B :: nat)"
  by simp

lemma limbs_split:
  fixes t0 t1 :: u64
  shows "unat (t0 AND 0xfffffffffff) + 2 ^ 44 * unat ((drop_bit 44 t0 OR push_bit 20 t1) AND 0xfffffffffff)
      + 2 ^ 88 * unat (drop_bit 24 t1 AND 0x3ffffffffff) = unat t0 + 2 ^ 64 * unat t1"
    and "unat (t0 AND 0xfffffffffff) < 2 ^ 44"
    and "unat ((drop_bit 44 t0 OR push_bit 20 t1) AND 0xfffffffffff) < 2 ^ 44"
    and "unat (drop_bit 24 t1 AND 0x3ffffffffff) < 2 ^ 40"
proof -
  have a: "unat t0 = 2 ^ 44 * (unat t0 div 2 ^ 44) + unat t0 mod 2 ^ 44" by simp
  have b: "unat t1 = 2 ^ 24 * (unat t1 div 2 ^ 24) + unat t1 mod 2 ^ 24" by simp
  have d: "unat t1 div 2 ^ 24 < 2 ^ 40" by (rule less_mult_imp_div_less) (use unat_u64_less [of t1] in simp)
  have e: "unat t0 div 2 ^ 44 < 2 ^ 20" by (rule less_mult_imp_div_less) (use unat_u64_less [of t0] in simp)
  have c: "unat (drop_bit 24 t1 AND 0x3ffffffffff) = unat t1 div 2 ^ 24"
    unfolding unat_and_42 unat_drop_bit using d by (intro mod_less) simp
  show "unat (t0 AND 0xfffffffffff) < 2 ^ 44" by (simp add: unat_and_44)
  show "unat ((drop_bit 44 t0 OR push_bit 20 t1) AND 0xfffffffffff) < 2 ^ 44" by (simp add: unat_and_44)
  show "unat (drop_bit 24 t1 AND 0x3ffffffffff) < 2 ^ 40" using c d by simp
  show "unat (t0 AND 0xfffffffffff) + 2 ^ 44 * unat ((drop_bit 44 t0 OR push_bit 20 t1) AND 0xfffffffffff)
      + 2 ^ 88 * unat (drop_bit 24 t1 AND 0x3ffffffffff) = unat t0 + 2 ^ 64 * unat t1"
    unfolding unat_middle_limb c unat_and_44 [of t0] by (rule limbs_split_arith [OF a b])
qed


section \<open>Multiplication and partial reduction\<close>

lemma unat_mul3:
  fixes a0 a1 a2 b0 b1 b2 :: u64
  assumes "unat a0 * unat b0 + unat a1 * unat b1 + unat a2 * unat b2 < 2 ^ 128"
  shows "unat (ucast a0 * ucast b0 + ucast a1 * ucast b1 + ucast a2 * ucast b2 :: u128)
    = unat a0 * unat b0 + unat a1 * unat b1 + unat a2 * unat b2"
proof -
  have "unat (ucast a0 * ucast b0 + ucast a1 * ucast b1 :: u128) = unat a0 * unat b0 + unat a1 * unat b1"
    using assms by (subst unat_add_u128) (simp_all add: unat_mul_u128)
  then show ?thesis
    using assms by (subst unat_add_u128) (simp_all add: unat_mul_u128)
qed

lemma poly1305_mul_val:
  assumes "unat h0 < 2 ^ 45" "unat h1 < 2 ^ 46" "unat h2 < 2 ^ 43" "r_bounded (r0, r1, r2)"
    and d: "poly1305_mul (h0, h1, h2) (r0, r1, r2) = (d0, d1, d2)"
  shows "unat d0 = unat h0 * unat r0 + 20 * (unat h1 * unat r2 + unat h2 * unat r1)"
    and "unat d1 = unat h0 * unat r1 + unat h1 * unat r0 + 20 * (unat h2 * unat r2)"
    and "unat d2 = unat h0 * unat r2 + unat h1 * unat r1 + unat h2 * unat r0"
    and "unat d0 < 2 ^ 96" "unat d1 < 2 ^ 96" "unat d2 < 2 ^ 96"
proof -
  have r: "unat r0 < 2 ^ 44" "unat r1 < 2 ^ 44" "unat r2 < 2 ^ 40" using assms(4) by simp_all
  have s: "unat (r1 * 20) = 20 * unat r1" "unat (r2 * 20) = 20 * unat r2"
    using r by (simp_all add: unat_mult_u64)
  note b = mult_bound [OF assms(1) r(1)] mult_bound [OF assms(1) r(2)] mult_bound [OF assms(1) r(3)]
    mult_bound [OF assms(2) r(1)] mult_bound [OF assms(2) r(2)] mult_bound [OF assms(2) r(3)]
    mult_bound [OF assms(3) r(1)] mult_bound [OF assms(3) r(2)] mult_bound [OF assms(3) r(3)]
  have d0: "d0 = ucast h0 * ucast r0 + ucast h1 * ucast (r2 * 20) + ucast h2 * ucast (r1 * 20)"
    and d1: "d1 = ucast h0 * ucast r1 + ucast h1 * ucast r0 + ucast h2 * ucast (r2 * 20)"
    and d2: "d2 = ucast h0 * ucast r2 + ucast h1 * ucast r1 + ucast h2 * ucast r0"
    using d by (simp_all add: poly1305_mul_def Let_def)
  have e0: "unat h0 * unat r0 + unat h1 * unat (r2 * 20) + unat h2 * unat (r1 * 20) < 2 ^ 96"
    and e1: "unat h0 * unat r1 + unat h1 * unat r0 + unat h2 * unat (r2 * 20) < 2 ^ 96"
    and e2: "unat h0 * unat r2 + unat h1 * unat r1 + unat h2 * unat r0 < 2 ^ 96"
    unfolding s mult.left_commute [of _ 20] using b by simp_all
  have big: "(2 :: nat) ^ 96 < 2 ^ 128" by simp
  note v = unat_mul3 [OF less_trans [OF e0 big]] unat_mul3 [OF less_trans [OF e1 big]] unat_mul3 [OF less_trans [OF e2 big]]
  show "unat d0 < 2 ^ 96" "unat d1 < 2 ^ 96" "unat d2 < 2 ^ 96"
    unfolding d0 d1 d2 v by (rule e0 e1 e2)+
  show "unat d0 = unat h0 * unat r0 + 20 * (unat h1 * unat r2 + unat h2 * unat r1)"
    "unat d1 = unat h0 * unat r1 + unat h1 * unat r0 + 20 * (unat h2 * unat r2)"
    "unat d2 = unat h0 * unat r2 + unat h1 * unat r1 + unat h2 * unat r0"
    unfolding d0 d1 d2 v s by (simp_all add: algebra_simps)
qed

text \<open>\<open>2 ^ 132\<close> is 20 modulo p.\<close>

lemma mul_mod_p:
  fixes H0 H1 H2 R0 R1 R2 :: nat
  shows "((H0 + 2 ^ 44 * H1 + 2 ^ 88 * H2) * (R0 + 2 ^ 44 * R1 + 2 ^ 88 * R2)) mod poly1305_p
    = ((H0 * R0 + 20 * (H1 * R2 + H2 * R1)) + 2 ^ 44 * (H0 * R1 + H1 * R0 + 20 * (H2 * R2))
      + 2 ^ 88 * (H0 * R2 + H1 * R1 + H2 * R0)) mod poly1305_p"
    (is "?a mod _ = ?b mod _")
proof -
  have "?a = ?b + poly1305_p * (4 * (H1 * R2 + H2 * R1) + 2 ^ 44 * 4 * (H2 * R2))"
    by (simp add: poly1305_p_def algebra_simps)
  then show ?thesis by (metis mod_mult_self2)
qed

lemma reduce_arith:
  fixes d0 d1 d2 e1 e2 c0 c1 c2 g0 k :: nat
  assumes "d0 = c0 * 2 ^ 44 + l0" "e1 = d1 + c0" "e1 = c1 * 2 ^ 44 + l1" "e2 = d2 + c1" "e2 = c2 * 2 ^ 42 + l2"
    "g0 = l0 + 5 * c2" "g0 = k * 2 ^ 44 + m0"
  shows "d0 + 2 ^ 44 * d1 + 2 ^ 88 * d2 = m0 + 2 ^ 44 * (l1 + k) + 2 ^ 88 * l2 + (2 ^ 130 - 5) * c2"
  using assms by simp

lemma poly1305_reduce_val:
  assumes "unat d0 < 2 ^ 96" "unat d1 < 2 ^ 96" "unat d2 < 2 ^ 96"
    and h: "poly1305_reduce (d0, d1, d2) = h"
  shows "h_bounded h"
    and "limbs_val h mod poly1305_p = (unat d0 + 2 ^ 44 * unat d1 + 2 ^ 88 * unat d2) mod poly1305_p"
proof -
  define c0 where "c0 = (ucast (drop_bit 44 d0) :: u64)"
  define e1 where "e1 = d1 + ucast c0"
  define c1 where "c1 = (ucast (drop_bit 44 e1) :: u64)"
  define e2 where "e2 = d2 + ucast c1"
  define c2 where "c2 = (ucast (drop_bit 42 e2) :: u64)"
  define g0 where "g0 = (ucast d0 AND 0xfffffffffff) + c2 * 5"
  have h': "h = (g0 AND 0xfffffffffff, (ucast e1 AND 0xfffffffffff) + drop_bit 44 g0, ucast e2 AND 0x3ffffffffff)"
    using h by (simp add: poly1305_reduce_def Let_def c0_def e1_def c1_def e2_def c2_def g0_def)
  have C0: "unat c0 = unat d0 div 2 ^ 44" "unat c0 < 2 ^ 52"
    using assms(1) unfolding c0_def by (simp_all add: unat_ucast_u64 unat_drop_bit)
  have E1: "unat e1 = unat d1 + unat c0" using assms(2) C0(2) unfolding e1_def by (subst unat_add_u128) simp_all
  have C1: "unat c1 = unat e1 div 2 ^ 44" "unat c1 < 2 ^ 53"
    using assms(2) E1 C0(2) unfolding c1_def by (simp_all add: unat_ucast_u64 unat_drop_bit)
  have E2: "unat e2 = unat d2 + unat c1" using assms(3) C1(2) unfolding e2_def by (subst unat_add_u128) simp_all
  have C2: "unat c2 = unat e2 div 2 ^ 42" "unat c2 < 2 ^ 55"
    using assms(3) E2 C1(2) unfolding c2_def by (simp_all add: unat_ucast_u64 unat_drop_bit)
  have five: "unat (c2 * 5) = 5 * unat c2" using C2(2) by (subst unat_mult_u64) simp_all
  have G0: "unat g0 = unat d0 mod 2 ^ 44 + 5 * unat c2"
    unfolding g0_def using C2(2) mod_less_divisor [of "2 ^ 44" "unat d0"]
    by (subst unat_add_u64) (simp_all add: unat_ucast_and_44 five)
  have "unat g0 < 2 ^ 58" using G0 C2(2) mod_less_divisor [of "2 ^ 44" "unat d0"] by simp
  then have K: "unat g0 div 2 ^ 44 < 2 ^ 14" by (intro less_mult_imp_div_less) simp
  have H1: "unat ((ucast e1 AND 0xfffffffffff) + drop_bit 44 g0) = unat e1 mod 2 ^ 44 + unat g0 div 2 ^ 44"
    using K mod_less_divisor [of "2 ^ 44" "unat e1"]
    by (subst unat_add_u64) (simp_all add: unat_ucast_and_44 unat_drop_bit)
  show "h_bounded h"
    using K mod_less_divisor [of "2 ^ 44" "unat e1"] unfolding h' h_bounded.simps H1 unat_and_44 unat_ucast_and_42
    by simp
  have "unat d0 + 2 ^ 44 * unat d1 + 2 ^ 88 * unat d2 = limbs_val h + poly1305_p * unat c2"
    unfolding h' limbs_val.simps H1 unat_and_44 [of g0] unat_ucast_and_42 poly1305_p_def
    by (rule reduce_arith [OF div_mult_mod_eq [symmetric, of "unat d0" "2 ^ 44", folded C0(1)] E1
        div_mult_mod_eq [symmetric, of "unat e1" "2 ^ 44", folded C1(1)] E2
        div_mult_mod_eq [symmetric, of "unat e2" "2 ^ 42", folded C2(1)] G0
        div_mult_mod_eq [symmetric, of "unat g0" "2 ^ 44"]])
  then show "limbs_val h mod poly1305_p = (unat d0 + 2 ^ 44 * unat d1 + 2 ^ 88 * unat d2) mod poly1305_p"
    by simp
qed


lemma le_nat_16:
  assumes "16 \<le> length p"
  shows "le_nat (take 16 p) = unat (load64_le (drop 0 p)) + 2 ^ 64 * unat (load64_le (drop 8 p))"
proof -
  have "take 16 p = take 8 p @ take 8 (drop 8 p)" using take_add [of 8 8 p] by simp
  then show ?thesis using assms by (simp add: le_nat_append unat_load64_le)
qed

section \<open>One block\<close>

lemma unat_or_hibit:
  assumes "unat (w :: u64) < 2 ^ 40" "hibit = 0 \<or> hibit = push_bit 40 1"
  shows "unat (w OR hibit) = unat w + unat hibit"
proof -
  have t: "w = take_bit 40 w"
    using assms(1) by (simp add: word_unat_eq_iff unsigned_take_bit_eq take_bit_nat_eq_self)
  have wb: "n < 40" if "bit w n" for n
    using that t by (metis bit_take_bit_iff)
  have hb: "n = 40" if "bit hibit n" for n
    using assms(2)
  proof
    assume "hibit = push_bit 40 1"
    then have "bit (push_bit 40 (1 :: u64)) n" using that by (simp only:)
    then show ?thesis unfolding bit_push_bit_iff bit_1_iff by auto
  qed (use that in simp)
  have "w OR hibit = w + hibit"
    by (intro disjunctive_add [symmetric]) (use wb hb in fastforce)
  moreover have "unat w + unat hibit < 2 ^ 64" using assms by auto
  ultimately show ?thesis by (simp add: unat_add_u64)
qed

lemma poly1305_add_block_val:
  assumes "h_bounded h" "16 \<le> length m" "hibit = 0 \<or> hibit = push_bit 40 1"
    and e: "poly1305_add_block hibit h m = (a, b, c)"
  shows "unat a < 2 ^ 45" "unat b < 2 ^ 46" "unat c < 2 ^ 43"
    and "limbs_val (a, b, c) = limbs_val h + le_nat (take 16 m) + 2 ^ 88 * unat hibit"
proof -
  obtain h0 h1 h2 where h: "h = (h0, h1, h2)" by (cases h)
  define t0 t1 where "t0 = load64_le (drop 0 m)" and "t1 = load64_le (drop 8 m)"
  define m0 m1 m2 where "m0 = t0 AND 0xfffffffffff" and "m1 = (drop_bit 44 t0 OR push_bit 20 t1) AND 0xfffffffffff"
    and "m2 = drop_bit 24 t1 AND 0x3ffffffffff"
  note sp = limbs_split(1) [of t0 t1, folded m0_def m1_def m2_def] limbs_split(2) [of t0, folded m0_def]
    limbs_split(3) [of t0 t1, folded m1_def] limbs_split(4) [of t1, folded m2_def]
  have abc: "a = h0 + m0" "b = h1 + m1" "c = h2 + (m2 OR hibit)"
    using e by (simp_all add: h poly1305_add_block_def Let_def t0_def t1_def m0_def m1_def m2_def)
  have hb: "unat h0 < 2 ^ 44" "unat h1 < 2 ^ 45" "unat h2 < 2 ^ 42" using assms(1) by (simp_all add: h)
  have hi: "unat (m2 OR hibit) = unat m2 + unat hibit" by (rule unat_or_hibit [OF sp(4) assms(3)])
  have hib: "unat hibit \<le> 2 ^ 40" using assms(3) by auto
  have v: "unat a = unat h0 + unat m0" "unat b = unat h1 + unat m1" "unat c = unat h2 + (unat m2 + unat hibit)"
    unfolding abc hi [symmetric] using hb sp(2-4) hib hi by (simp_all add: unat_add_u64)
  show "unat a < 2 ^ 45" "unat b < 2 ^ 46" "unat c < 2 ^ 43" using v hb sp(2-4) hib by simp_all
  show "limbs_val (a, b, c) = limbs_val h + le_nat (take 16 m) + 2 ^ 88 * unat hibit"
    unfolding le_nat_16 [OF assms(2), folded t0_def t1_def] sp(1) [symmetric] h limbs_val.simps v
    by (simp add: algebra_simps)
qed

lemma poly1305_step_val:
  assumes "h_bounded h" "r_bounded r" "16 \<le> length m" "hibit = 0 \<or> hibit = push_bit 40 1"
    and h': "poly1305_reduce (poly1305_mul (poly1305_add_block hibit h m) r) = h'"
  shows "h_bounded h'"
    and "limbs_val h' mod poly1305_p
      = ((limbs_val h + le_nat (take 16 m) + 2 ^ 88 * unat hibit) * limbs_val r) mod poly1305_p"
proof -
  obtain a b c where abc: "poly1305_add_block hibit h m = (a, b, c)" by (metis prod_cases3)
  obtain r0 r1 r2 where r: "r = (r0, r1, r2)" by (metis prod_cases3)
  obtain d0 d1 d2 where d: "poly1305_mul (a, b, c) r = (d0, d1, d2)" by (metis prod_cases3)
  note ab = poly1305_add_block_val [OF assms(1,3,4) abc]
  note mu = poly1305_mul_val [OF ab(1-3) assms(2) [unfolded r] d [unfolded r]]
  have red: "poly1305_reduce (d0, d1, d2) = h'" using h' abc d by simp
  show "h_bounded h'" by (rule poly1305_reduce_val(1) [OF mu(4-6) red])
  show "limbs_val h' mod poly1305_p
      = ((limbs_val h + le_nat (take 16 m) + 2 ^ 88 * unat hibit) * limbs_val r) mod poly1305_p"
    unfolding poly1305_reduce_val(2) [OF mu(4-6) red] ab(4) [symmetric] r limbs_val.simps mul_mod_p mu(1-3) ..
qed

section \<open>All full blocks\<close>

lemma poly1305_acc_Nil [simp]: "poly1305_acc r a [] = a"
  by (simp add: poly1305_acc.simps)

lemma poly1305_acc_block:
  "m \<noteq> [] \<Longrightarrow> poly1305_acc r a m =
     poly1305_acc r ((a + le_nat (take 16 m) + 2 ^ (8 * length (take 16 m))) * r mod poly1305_p) (drop 16 m)"
  by (subst poly1305_acc.simps) (simp add: Let_def)

lemma poly1305_acc_append:
  "16 dvd length m1 \<Longrightarrow> poly1305_acc r a (m1 @ m2) = poly1305_acc r (poly1305_acc r a m1) m2"
proof (induction r a m1 rule: poly1305_acc.induct)
  case (1 r a m1)
  show ?case
  proof (cases "m1 = []")
    case False
    then have l: "16 \<le> length m1" using 1(2) by (auto intro: dvd_imp_le)
    then have "16 dvd length (drop 16 m1)" using 1(2) by (simp add: dvd_diff_nat)
    then show ?thesis
      using 1(1) [OF False refl] False l poly1305_acc_block [of m1 r a] poly1305_acc_block [of "m1 @ m2" r a]
      by (simp add: Let_def)
  qed simp
qed

lemma poly1305_blocks_loop_val:
  assumes "r_bounded r"
  shows "h_bounded h \<Longrightarrow> 16 dvd length m \<Longrightarrow> hibit = push_bit 40 1 \<Longrightarrow>
    h_bounded (poly1305_blocks_loop hibit r h m) \<and>
    limbs_val (poly1305_blocks_loop hibit r h m) mod poly1305_p
      = poly1305_acc (limbs_val r) (limbs_val h mod poly1305_p) m"
  using assms
proof (induction hibit r h m rule: poly1305_blocks_loop.induct)
  case (1 hibit r h m)
  show ?case
  proof (cases "m = []")
    case True
    then show ?thesis using 1 by (subst (1 2) poly1305_blocks_loop.simps) (simp add: poly1305_block_size_def)
  next
    case False
    then have l: "16 \<le> length m" using 1(3) by (auto intro: dvd_imp_le)
    let ?h = "poly1305_reduce (poly1305_mul (poly1305_add_block hibit h m) r)"
    note st = poly1305_step_val [OF 1(2) 1(5) l, of hibit ?h, OF _ refl]
    have d: "16 dvd length (drop 16 m)" using 1(3) l by (simp add: dvd_diff_nat)
    have hib: "2 ^ 88 * unat hibit = 2 ^ (8 * length (take 16 m))" using l 1(4) by simp
    have "limbs_val ?h mod poly1305_p
      = (limbs_val h mod poly1305_p + le_nat (take 16 m) + 2 ^ (8 * length (take 16 m))) * limbs_val r mod poly1305_p"
      using st(2) 1(4) unfolding hib [symmetric] by (simp add: add.assoc) (metis mod_mult_left_eq mod_add_left_eq)
    then show ?thesis
      using 1(1) [OF _ st(1)] 1(4,5) l d False poly1305_acc_block [OF False]
      by (subst (1 2) poly1305_blocks_loop.simps) (simp add: poly1305_block_size_def)
  qed
qed

end
