(* ===== verification/Poly1305_Correct.thy ===== *)
theory Poly1305_Correct
  imports Poly1305_Limbs
begin

text \<open>
  Poly1305 as a whole: the state after any sequence of updates represents the message read so far, and
  \<open>poly1305_finish\<close> gives the authenticator of RFC 8439 for it.
\<close>

unbundle bit_operations_syntax

section \<open>The final reduction\<close>

lemma pass_arith:
  fixes h0 h1 h2 :: nat
  assumes "h1 = c1 * 2 ^ 44 + a1" "h2 + c1 = c2 * 2 ^ 42 + a2" "h0 + c2 * 5 = c0 * 2 ^ 44 + a0"
  shows "h0 + 2 ^ 44 * h1 + 2 ^ 88 * h2 = a0 + 2 ^ 44 * (a1 + c0) + 2 ^ 88 * a2 + (2 ^ 130 - 5) * c2"
  using assms by simp

lemma carry_arith:
  fixes h0 h1 h2 :: nat
  assumes "h0 < 2 ^ 44" "h1 < 2 ^ 45" "h2 < 2 ^ 42"
    and "h1 = c1 * 2 ^ 44 + a1" "a1 < 2 ^ 44" "h2 + c1 = c2 * 2 ^ 42 + a2" "a2 < 2 ^ 42"
    and "h0 + c2 * 5 = c0 * 2 ^ 44 + a0" "a0 < 2 ^ 44" "a1 + c0 = d1 * 2 ^ 44 + b1" "b1 < 2 ^ 44"
    and "a2 + d1 = d2 * 2 ^ 42 + b2" "b2 < 2 ^ 42" "a0 + d2 * 5 = d0 * 2 ^ 44 + b0" "b0 < 2 ^ 44"
  shows "c1 \<le> 1" "c2 \<le> 1" "c0 \<le> 1" "d1 \<le> 1" "d2 \<le> 1" "d0 \<le> 1" "b1 + d0 < 2 ^ 44"
    and "h0 + 2 ^ 44 * h1 + 2 ^ 88 * h2 = b0 + 2 ^ 44 * (b1 + d0) + 2 ^ 88 * b2 + (2 ^ 130 - 5) * (c2 + d2)"
proof -
  show c1: "c1 \<le> 1" using assms(2,4) by simp
  show c2: "c2 \<le> 1" using assms(3,6) c1 by simp
  show c0: "c0 \<le> 1" using assms(1,8) c2 by simp
  show d1: "d1 \<le> 1" using assms(5,10) c0 by simp
  show d2: "d2 \<le> 1" using assms(7,12) d1 by simp
  show d0: "d0 \<le> 1" using assms(9,14) d2 by simp
  show "b1 + d0 < 2 ^ 44"
  proof (cases "d2 = 0")
    case True
    then have "d0 = 0" using assms(9,14) by simp
    then show ?thesis using assms(11) by simp
  next
    case False
    then have "d1 = 1" using assms(7,12) d1 by simp
    then have "b1 = 0" using assms(5,10) c0 by simp
    then show ?thesis using d0 by simp
  qed
  have "h0 + 2 ^ 44 * h1 + 2 ^ 88 * h2 = a0 + 2 ^ 44 * (a1 + c0) + 2 ^ 88 * a2 + (2 ^ 130 - 5) * c2"
    by (rule pass_arith [OF assms(4,6,8)])
  also have "a0 + 2 ^ 44 * (a1 + c0) + 2 ^ 88 * a2 = b0 + 2 ^ 44 * (b1 + d0) + 2 ^ 88 * b2 + (2 ^ 130 - 5) * d2"
    by (rule pass_arith [OF assms(10,12,14)])
  finally show "h0 + 2 ^ 44 * h1 + 2 ^ 88 * h2 = b0 + 2 ^ 44 * (b1 + d0) + 2 ^ 88 * b2 + (2 ^ 130 - 5) * (c2 + d2)"
    by (simp only: add_mult_distrib add_mult_distrib2 ac_simps)
qed

lemma unat_drop44: "unat (w :: u64) = unat (drop_bit 44 w) * 2 ^ 44 + unat (w AND 0xfffffffffff)"
  by (simp add: unat_drop_bit unat_and_44)

lemma unat_drop42: "unat (w :: u64) = unat (drop_bit 42 w) * 2 ^ 42 + unat (w AND 0x3ffffffffff)"
  by (simp add: unat_drop_bit unat_and_42)

lemma unat_and_less: "unat (w AND 0xfffffffffff :: u64) < 2 ^ 44" "unat (w AND 0x3ffffffffff :: u64) < 2 ^ 42"
  by (simp_all add: unat_and_44 unat_and_42)

lemma poly1305_carry_pass_val:
  assumes "unat h0 < 2 ^ 44" "unat h1 < 2 ^ 45" "unat h2 < 2 ^ 42"
    and e: "poly1305_carry_pass (h0, h1, h2) = (a, b, c)"
  obtains c1 a1 c2 c0 where "unat h1 = c1 * 2 ^ 44 + a1" "a1 < 2 ^ 44" "unat h2 + c1 = c2 * 2 ^ 42 + unat c" "unat c < 2 ^ 42"
    "unat h0 + c2 * 5 = c0 * 2 ^ 44 + unat a" "unat a < 2 ^ 44" "unat b = a1 + c0" "unat b < 2 ^ 45"
proof -
  define c1 a1 where "c1 = drop_bit 44 h1" and "a1 = h1 AND 0xfffffffffff"
  define g2 where "g2 = h2 + c1"
  define c2 where "c2 = drop_bit 42 g2"
  define g0 where "g0 = h0 + c2 * 5"
  define c0 where "c0 = drop_bit 44 g0"
  have abc: "a = g0 AND 0xfffffffffff" "b = a1 + c0" "c = g2 AND 0x3ffffffffff"
    using e by (simp_all add: poly1305_carry_pass_def Let_def c1_def a1_def g2_def c2_def g0_def c0_def)
  have A1: "unat h1 = unat c1 * 2 ^ 44 + unat a1" "unat a1 < 2 ^ 44"
    unfolding c1_def a1_def by (rule unat_drop44, rule unat_and_less)
  then have c1: "unat c1 \<le> 1" using assms(2) by simp
  then have G2: "unat g2 = unat h2 + unat c1" unfolding g2_def using assms(3) by (subst unat_add_u64) simp_all
  have A2: "unat h2 + unat c1 = unat c2 * 2 ^ 42 + unat c" "unat c < 2 ^ 42"
    unfolding G2 [symmetric] c2_def abc by (rule unat_drop42, rule unat_and_less)
  then have c2: "unat c2 \<le> 1" using assms(3) c1 by simp
  then have "unat (c2 * 5) = unat c2 * 5" by (subst unat_mult_u64) simp_all
  then have G0: "unat g0 = unat h0 + unat c2 * 5" unfolding g0_def using assms(1) c2 by (subst unat_add_u64) simp_all
  have A0: "unat h0 + unat c2 * 5 = unat c0 * 2 ^ 44 + unat a" "unat a < 2 ^ 44"
    unfolding G0 [symmetric] c0_def abc by (rule unat_drop44, rule unat_and_less)
  then have c0: "unat c0 \<le> 1" using assms(1) c2 by simp
  then have B: "unat b = unat a1 + unat c0" unfolding abc using A1 by (subst unat_add_u64) simp_all
  have "unat b < 2 ^ 45" using B A1(2) c0 by simp
  then show thesis by (rule that [OF A1 A2 A0 B])
qed

lemma poly1305_full_carry_val:
  assumes "h_bounded h" and e: "poly1305_full_carry h = (a, b, c)"
  shows "unat a < 2 ^ 44" "unat b < 2 ^ 44" "unat c < 2 ^ 42"
    and "limbs_val (a, b, c) mod poly1305_p = limbs_val h mod poly1305_p"
proof -
  obtain h0 h1 h2 where h: "h = (h0, h1, h2)" by (cases h)
  obtain g0 g1 g2 where g: "poly1305_carry_pass (h0, h1, h2) = (g0, g1, g2)" by (metis prod_cases3)
  have hb: "unat h0 < 2 ^ 44" "unat h1 < 2 ^ 45" "unat h2 < 2 ^ 42" using assms(1) by (simp_all add: h)
  obtain c1 a1 c2 c0 where 1: "unat h1 = c1 * 2 ^ 44 + a1" "a1 < 2 ^ 44"
      "unat h2 + c1 = c2 * 2 ^ 42 + unat g2" "unat g2 < 2 ^ 42"
      "unat h0 + c2 * 5 = c0 * 2 ^ 44 + unat g0" "unat g0 < 2 ^ 44" and b1: "unat g1 = a1 + c0" "unat g1 < 2 ^ 45"
    by (rule poly1305_carry_pass_val [OF hb g])
  have e2: "poly1305_carry_pass (g0, g1, g2) = (a, b, c)" using e g by (simp add: poly1305_full_carry_def h)
  obtain d1 b1 d2 d0 where 2: "unat g1 = d1 * 2 ^ 44 + b1" "b1 < 2 ^ 44"
      "unat g2 + d1 = d2 * 2 ^ 42 + unat c" "unat c < 2 ^ 42"
      "unat g0 + d2 * 5 = d0 * 2 ^ 44 + unat a" "unat a < 2 ^ 44" and b: "unat b = b1 + d0"
    by (rule poly1305_carry_pass_val [OF 1(6) b1(2) 1(4) e2])
  note ar = carry_arith [OF hb 1 2(1) [unfolded b1(1)] 2(2-6)]
  show "unat a < 2 ^ 44" "unat b < 2 ^ 44" "unat c < 2 ^ 42"
    unfolding b by (rule 2 ar(7))+
  have "limbs_val h = limbs_val (a, b, c) + poly1305_p * (c2 + d2)"
    unfolding limbs_val.simps h b poly1305_p_def by (rule ar(8))
  then show "limbs_val (a, b, c) mod poly1305_p = limbs_val h mod poly1305_p" by simp
qed


text \<open>The selection of \<open>h\<close> or \<open>h - p\<close> by a mask.\<close>

lemma sub_p_arith:
  fixes h0 h1 h2 :: nat
  assumes "h0 + 5 = k0 * 2 ^ 44 + g0" "h1 + k0 = k1 * 2 ^ 44 + g1"
  shows "h0 + 2 ^ 44 * h1 + 2 ^ 88 * h2 + 5 = g0 + 2 ^ 44 * g1 + 2 ^ 88 * (h2 + k1)"
  using assms by simp

lemma limbs_less:
  "a < 2 ^ 44 \<Longrightarrow> b < 2 ^ 44 \<Longrightarrow> a + 2 ^ 44 * b + 2 ^ 88 * c < 2 ^ 88 * (c + 1 :: nat)"
  by simp

lemma mask_select:
  fixes x y :: u64
  shows "(x AND NOT (- 1)) OR (y AND - 1) = y" "(x AND NOT 0) OR (y AND 0) = x"
  by simp_all

lemma poly1305_sub_p_val:
  assumes "unat h0 < 2 ^ 44" "unat h1 < 2 ^ 44" "unat h2 < 2 ^ 42"
  shows "\<exists>a b c. poly1305_sub_p (h0, h1, h2) = (a, b, c) \<and> unat a < 2 ^ 44 \<and> unat b < 2 ^ 44 \<and> unat c < 2 ^ 42
    \<and> limbs_val (a, b, c) = limbs_val (h0, h1, h2) mod poly1305_p"
proof -
  define k0 g0 where "k0 = drop_bit 44 (h0 + 5)" and "g0 = (h0 + 5) AND 0xfffffffffff"
  define k1 g1 where "k1 = drop_bit 44 (h1 + k0)" and "g1 = (h1 + k0) AND 0xfffffffffff"
  define g2 where "g2 = h2 + k1 - push_bit 42 1"
  define msk where "msk = drop_bit 63 g2 - 1"
  have e: "poly1305_sub_p (h0, h1, h2) =
      ((h0 AND NOT msk) OR (g0 AND msk), (h1 AND NOT msk) OR (g1 AND msk), (h2 AND NOT msk) OR (g2 AND msk))"
    unfolding poly1305_sub_p_def Let_def prod.case msk_def g2_def k1_def k0_def g0_def g1_def ..
  have E0: "unat (h0 + 5) = unat h0 + 5" using assms(1) by (subst unat_add_u64) simp_all
  have G0: "unat h0 + 5 = unat k0 * 2 ^ 44 + unat g0" "unat g0 < 2 ^ 44"
    unfolding E0 [symmetric] k0_def g0_def by (rule unat_drop44, rule unat_and_less)
  have "unat k0 \<le> 1" using G0 assms(1) by simp
  then have E1: "unat (h1 + k0) = unat h1 + unat k0" using assms(2) by (subst unat_add_u64) simp_all
  have G1: "unat h1 + unat k0 = unat k1 * 2 ^ 44 + unat g1" "unat g1 < 2 ^ 44"
    unfolding E1 [symmetric] k1_def g1_def by (rule unat_drop44, rule unat_and_less)
  have k1: "unat k1 \<le> 1" using G1 assms(2) \<open>unat k0 \<le> 1\<close> by simp
  have H2: "unat (h2 + k1) = unat h2 + unat k1" using assms(3) k1 by (subst unat_add_u64) simp_all
  note v = sub_p_arith [OF G0(1) G1(1), of "unat h2"]
  show ?thesis
  proof (cases "unat h2 + unat k1 < 2 ^ 42")
    case True
    then have "unat g2 = 2 ^ 64 + unat h2 + unat k1 - 2 ^ 42"
      unfolding g2_def using H2 by (simp add: unat_sub_if_size word_size)
    then have "unat (drop_bit 63 g2) = 1" using True unfolding unat_drop_bit by (simp add: div_nat_eqI)
    then have "drop_bit 63 g2 = 1" by (simp add: word_unat_eq_iff)
    then have m: "msk = 0" by (simp add: msk_def)
    have "2 ^ 88 * (unat h2 + unat k1 + 1) \<le> 2 ^ 88 * 2 ^ 42" using True by simp
    then have "limbs_val (h0, h1, h2) < poly1305_p"
      using v limbs_less [OF G0(2) G1(2), of "unat h2 + unat k1"] by (simp add: poly1305_p_def)
    then show ?thesis unfolding e m mask_select using assms by simp
  next
    case False
    then have h2: "unat h2 + unat k1 = 2 ^ 42" using assms(3) k1 by simp
    then have "g2 = 0" unfolding g2_def using H2 by (simp add: word_unat_eq_iff unat_sub_if_size word_size)
    then have m: "msk = - 1" by (simp add: msk_def)
    have val: "limbs_val (h0, h1, h2) = limbs_val (g0, g1, 0) + poly1305_p"
      using v h2 by (simp add: poly1305_p_def)
    have "limbs_val (g0, g1, 0) < poly1305_p"
      using limbs_less [OF G0(2) G1(2), of 0] by (simp add: poly1305_p_def)
    then have "limbs_val (h0, h1, h2) mod poly1305_p = limbs_val (g0, g1, 0)"
      unfolding val by simp
    then show ?thesis unfolding e m mask_select using G0(2) G1(2) \<open>g2 = 0\<close> by simp
  qed
qed


section \<open>The pad and the bytes of the tag\<close>

lemma pad_arith:
  fixes a b c m0 m1 m2 :: nat
  assumes "a + m0 = c0 * 2 ^ 44 + x0" "b + (m1 + c0) = c1 * 2 ^ 44 + (k1 * 2 ^ 20 + l1)" "c + (m2 + c1) = k2 * 2 ^ 40 + l2"
  shows "(a + 2 ^ 44 * b + 2 ^ 88 * c) + (m0 + 2 ^ 44 * m1 + 2 ^ 88 * m2)
    = (x0 + 2 ^ 44 * l1) + 2 ^ 64 * (k1 + 2 ^ 24 * l2) + 2 ^ 128 * k2"
  using assms by simp


lemma two_words_less: "unat (lo :: u64) + 2 ^ 64 * unat (hi :: u64) < 2 ^ 128"
proof -
  have "l + 2 ^ 64 * h < 2 ^ 128" if "l < 18446744073709551616" "h < 18446744073709551616" for l h :: nat
    using that by simp
  then show ?thesis using unat_u64_less by blast
qed

lemma store_two_words: "store64_le lo @ store64_le hi = nat_le 16 (unat lo + 2 ^ 64 * unat hi)"
  using nat_le_le_nat [of "store64_le lo @ store64_le hi"]
  by (simp add: le_nat_append sodium_le_eqs le_nat_le64_write)

lemma poly1305_add_pad_val:
  assumes "unat a < 2 ^ 44" "unat b < 2 ^ 44" "unat c < 2 ^ 42"
  shows "poly1305_add_pad (a, b, c) (t0, t1) =
    nat_le 16 ((limbs_val (a, b, c) + (unat t0 + 2 ^ 64 * unat t1)) mod 2 ^ 128)"
proof -
  define m0 m1 m2 where "m0 = t0 AND 0xfffffffffff" and "m1 = (drop_bit 44 t0 OR push_bit 20 t1) AND 0xfffffffffff"
    and "m2 = drop_bit 24 t1 AND 0x3ffffffffff"
  note sp = limbs_split(1) [of t0 t1, folded m0_def m1_def m2_def] limbs_split(2) [of t0, folded m0_def]
    limbs_split(3) [of t0 t1, folded m1_def] limbs_split(4) [of t1, folded m2_def]
  define g0 where "g0 = a + m0"
  define c0 x0 where "c0 = drop_bit 44 g0" and "x0 = g0 AND 0xfffffffffff"
  define g1 where "g1 = b + (m1 + c0)"
  define c1 x1 where "c1 = drop_bit 44 g1" and "x1 = g1 AND 0xfffffffffff"
  define g2 where "g2 = c + (m2 + c1)"
  define x2 where "x2 = g2 AND 0x3ffffffffff"
  have e: "poly1305_add_pad (a, b, c) (t0, t1) = store64_le (x0 OR push_bit 44 x1) @ store64_le (drop_bit 20 x1 OR push_bit 24 x2)"
    unfolding poly1305_add_pad_def Let_def prod.case m0_def m1_def m2_def g0_def c0_def x0_def g1_def c1_def x1_def
      g2_def x2_def ..
  have "unat g0 = unat a + unat m0" unfolding g0_def using assms(1) sp(2) by (subst unat_add_u64) simp_all
  then have G0: "unat a + unat m0 = unat c0 * 2 ^ 44 + unat x0" "unat x0 < 2 ^ 44"
    using unat_drop44 [of g0, folded c0_def x0_def] unat_and_less(1) [of g0, folded x0_def] by auto
  then have c0: "unat c0 \<le> 1" using assms(1) sp(2) by simp
  have "unat (m1 + c0) = unat m1 + unat c0" using sp(3) c0 by (subst unat_add_u64) simp_all
  then have "unat g1 = unat b + (unat m1 + unat c0)"
    unfolding g1_def using assms(2) sp(3) c0 by (subst unat_add_u64) simp_all
  then have G1: "unat b + (unat m1 + unat c0) = unat c1 * 2 ^ 44 + unat x1" "unat x1 < 2 ^ 44"
    using unat_drop44 [of g1, folded c1_def x1_def] unat_and_less(1) [of g1, folded x1_def] by auto
  then have c1: "unat c1 \<le> 1" using assms(2) sp(3) c0 by simp
  have "unat (m2 + c1) = unat m2 + unat c1" using sp(4) c1 by (subst unat_add_u64) simp_all
  then have G2: "unat g2 = unat c + (unat m2 + unat c1)"
    unfolding g2_def using assms(3) sp(4) c1 by (subst unat_add_u64) simp_all
  have lo: "unat (x0 OR push_bit 44 x1) = unat x0 + 2 ^ 44 * (unat x1 mod 2 ^ 20)"
    using unat_or_push [OF G0(2), of x1] by simp
  have d: "unat (drop_bit 20 x1) = unat x1 div 2 ^ 20" "unat (drop_bit 20 x1) < 2 ^ 24"
    using G1(2) by (simp_all add: unat_drop_bit less_mult_imp_div_less)
  have "unat x2 mod 2 ^ 40 = unat g2 mod 2 ^ 40" unfolding x2_def unat_and_42 by (simp add: mod_mod_cancel)
  then have hi: "unat (drop_bit 20 x1 OR push_bit 24 x2) = unat x1 div 2 ^ 20 + 2 ^ 24 * (unat g2 mod 2 ^ 40)"
    using unat_or_push [OF d(2), of x2] d(1) by simp
  have x1: "unat b + (unat m1 + unat c0) = unat c1 * 2 ^ 44 + (unat x1 div 2 ^ 20 * 2 ^ 20 + unat x1 mod 2 ^ 20)"
    using G1(1) by simp
  have g2: "unat c + (unat m2 + unat c1) = unat g2 div 2 ^ 40 * 2 ^ 40 + unat g2 mod 2 ^ 40"
    unfolding G2 [symmetric] by simp
  have "limbs_val (a, b, c) + (unat t0 + 2 ^ 64 * unat t1) =
      (unat x0 + 2 ^ 44 * (unat x1 mod 2 ^ 20)) + 2 ^ 64 * (unat x1 div 2 ^ 20 + 2 ^ 24 * (unat g2 mod 2 ^ 40))
      + 2 ^ 128 * (unat g2 div 2 ^ 40)"
    unfolding sp(1) [symmetric] limbs_val.simps by (rule pad_arith [OF G0(1) x1 g2])
  also have "\<dots> = unat (x0 OR push_bit 44 x1) + 2 ^ 64 * unat (drop_bit 20 x1 OR push_bit 24 x2)
      + 2 ^ 128 * (unat g2 div 2 ^ 40)" unfolding lo hi ..
  finally have "(limbs_val (a, b, c) + (unat t0 + 2 ^ 64 * unat t1)) mod 2 ^ 128
      = (unat (x0 OR push_bit 44 x1) + 2 ^ 64 * unat (drop_bit 20 x1 OR push_bit 24 x2)) mod 2 ^ 128"
    by (simp only: mod_mult_self2)
  also have "\<dots> = unat (x0 OR push_bit 44 x1) + 2 ^ 64 * unat (drop_bit 20 x1 OR push_bit 24 x2)"
    by (rule mod_less) (rule two_words_less)
  finally show ?thesis unfolding e store_two_words by (simp only:)
qed

section \<open>The multiplier\<close>

lemma and_split_nat:
  fixes a b c d :: nat
  assumes "a < 2 ^ n" "c < 2 ^ n"
  shows "(a + 2 ^ n * b) AND (c + 2 ^ n * d) = (a AND c) + 2 ^ n * (b AND d)"
proof -
  let ?x = "a + 2 ^ n * b" and ?y = "c + 2 ^ n * d"
  have t: "take_bit n ?x = a" "take_bit n ?y = c" "drop_bit n ?x = b" "drop_bit n ?y = d"
    using assms by (simp_all add: take_bit_eq_mod drop_bit_eq_div)
  have "?x AND ?y = push_bit n (drop_bit n (?x AND ?y)) + take_bit n (?x AND ?y)" by (simp only: bits_ident)
  also have "\<dots> = push_bit n (b AND d) + (a AND c)" by (simp only: drop_bit_and take_bit_and t)
  finally show ?thesis by (simp add: push_bit_eq_mult mult.commute)
qed


lemma clamp_word:
  fixes w :: u64
  shows "w AND 0xffc0fffffff = (w AND 0xfffffffffff) AND 0xffc0fffffff"
    and "w AND 0xfffffc0ffff = (w AND 0xfffffffffff) AND 0xfffffc0ffff"
    and "w AND 0x00ffffffc0f = (w AND 0x3ffffffffff) AND 0x00ffffffc0f"
  by (simp_all add: and.assoc)

lemma poly1305_init_r:
  assumes "16 \<le> length key"
  shows "r_bounded (poly_r (poly1305_init st key))"
    and "limbs_val (poly_r (poly1305_init st key)) = poly1305_clamp (le_nat (take 16 key))"
proof -
  define t0 t1 where "t0 = load64_le (drop 0 key)" and "t1 = load64_le (drop 8 key)"
  define m0 m1 m2 where "m0 = t0 AND 0xfffffffffff" and "m1 = (drop_bit 44 t0 OR push_bit 20 t1) AND 0xfffffffffff"
    and "m2 = drop_bit 24 t1 AND 0x3ffffffffff"
  note sp = limbs_split(1) [of t0 t1, folded m0_def m1_def m2_def] limbs_split(2) [of t0, folded m0_def]
    limbs_split(3) [of t0 t1, folded m1_def] limbs_split(4) [of t1, folded m2_def]
  have r: "poly_r (poly1305_init st key) = (m0 AND 0xffc0fffffff, m1 AND 0xfffffc0ffff, m2 AND 0x00ffffffc0f)"
    unfolding poly1305_init_def Let_def t0_def [symmetric] t1_def [symmetric] m0_def m1_def m2_def
      clamp_word [symmetric] by simp
  have u: "unat (m0 AND 0xffc0fffffff) = unat m0 AND 0xffc0fffffff" "unat (m1 AND 0xfffffc0ffff) = unat m1 AND 0xfffffc0ffff"
    "unat (m2 AND 0x00ffffffc0f) = unat m2 AND 0x00ffffffc0f"
    by (simp_all add: unsigned_and_eq)
  have le: "x AND y \<le> y" for x y :: nat
    using AND_upper2 [of "int y" "int x"] by (simp add: and_nat_def nat_le_iff)
  show "r_bounded (poly_r (poly1305_init st key))"
    unfolding r r_bounded.simps u
    using le [of "unat m0" "0xffc0fffffff"] le [of "unat m1" "0xfffffc0ffff"] le [of "unat m2" "0x00ffffffc0f"] by simp
  have "poly1305_clamp (le_nat (take 16 key)) =
      (unat m0 + 2 ^ 44 * (unat m1 + 2 ^ 44 * unat m2)) AND (0xffc0fffffff + 2 ^ 44 * (0xfffffc0ffff + 2 ^ 44 * 0x00ffffffc0f))"
    unfolding poly1305_clamp_def le_nat_16 [OF assms, folded t0_def t1_def] sp(1) [symmetric] by (simp add: algebra_simps)
  also have "\<dots> = (unat m0 AND 0xffc0fffffff) + 2 ^ 44 * ((unat m1 AND 0xfffffc0ffff) + 2 ^ 44 * (unat m2 AND 0x00ffffffc0f))"
    using sp(2,3) by (subst and_split_nat, simp, simp, subst and_split_nat, simp_all)
  finally show "limbs_val (poly_r (poly1305_init st key)) = poly1305_clamp (le_nat (take 16 key))"
    unfolding r limbs_val.simps u by simp
qed

section \<open>The state represents the message\<close>

text \<open>\<open>full\<close> is the part of the message in complete blocks, \<open>tail\<close> what waits in the buffer.\<close>

definition poly1305_inv :: "bytes \<Rightarrow> bytes \<Rightarrow> bytes \<Rightarrow> poly1305_state_internal_t \<Rightarrow> bool" where
  "poly1305_inv key full tail st \<longleftrightarrow>
     h_bounded (poly_h st) \<and> r_bounded (poly_r st)
     \<and> limbs_val (poly_r st) = poly1305_clamp (le_nat (take 16 key))
     \<and> poly_pad st = (load64_le (drop 16 key), load64_le (drop 24 key))
     \<and> \<not> final st \<and> length (buffer st) = 16 \<and> leftover st = length tail \<and> length tail < 16
     \<and> take (length tail) (buffer st) = tail \<and> 16 dvd length full
     \<and> limbs_val (poly_h st) mod poly1305_p = poly1305_acc (limbs_val (poly_r st)) 0 full"

lemma poly1305_inv_init:
  "length (buffer st) = 16 \<Longrightarrow> length key = 32 \<Longrightarrow> poly1305_inv key [] [] (poly1305_init st key)"
  using poly1305_init_r [of key st] by (simp add: poly1305_inv_def, simp add: poly1305_init_def Let_def)

lemma poly1305_inv_blocks:
  assumes "poly1305_inv key full [] st" "16 dvd length m"
  shows "poly1305_inv key (full @ m) [] (poly1305_blocks st m)"
  using assms poly1305_blocks_loop_val [of "poly_r st" "poly_h st" m "push_bit 40 1"]
  by (simp add: poly1305_inv_def poly1305_blocks_def Let_def poly1305_acc_append dvd_add)

text \<open>A full buffer is processed as one block.\<close>

lemma poly1305_inv_buffer:
  assumes "poly1305_inv key full tail st" "length (tail @ x) = 16"
  shows "poly1305_inv key (full @ tail @ x) []
    ((poly1305_blocks (st\<lparr>buffer := tail @ x, leftover := n\<rparr>) (tail @ x))\<lparr>leftover := 0\<rparr>)"
proof -
  have "poly1305_inv key full [] (st\<lparr>buffer := tail @ x, leftover := 0\<rparr>)"
    using assms by (simp add: poly1305_inv_def)
  from poly1305_inv_blocks [OF this, of "tail @ x"]
  have "poly1305_inv key (full @ tail @ x) [] (poly1305_blocks (st\<lparr>buffer := tail @ x, leftover := 0\<rparr>) (tail @ x))"
    using assms(2) by simp
  then show ?thesis using assms by (auto simp: poly1305_blocks_def poly1305_inv_def Let_def)
qed

lemma poly1305_update_leftover_inv:
  assumes inv: "poly1305_inv key full tail st" and e: "poly1305_update_leftover st m = (st', m', returned)"
  obtains full' tail' where "poly1305_inv key full' tail' st'" "full' @ tail' @ m' = full @ tail @ m"
    "returned \<Longrightarrow> m' = []" "\<not> returned \<Longrightarrow> tail' = []"
proof (cases "tail = []")
  case True
  then show ?thesis using inv e that [of full tail] by (auto simp: poly1305_update_leftover_def poly1305_inv_def)
next
  case False
  note i = inv [unfolded poly1305_inv_def]
  have l: "leftover st = length tail" "length tail < 16" "length tail \<noteq> 0" using i False by auto
  have buf: "buffer st = tail @ drop (length tail) (buffer st)" using i by (metis append_take_drop_id)
  define want where "want = (if 16 - length tail > length m then length m else 16 - length tail)"
  have b: "memcpy_at (buffer st) (leftover st) (take want m)
      = (tail @ take want m) @ drop (length (take want m)) (drop (length tail) (buffer st))"
    unfolding l(1) by (subst buf) (rule memcpy_over, simp)
  have step: "poly1305_update_leftover st m =
      (let st1 = st\<lparr>buffer := memcpy_at (buffer st) (leftover st) (take want m), leftover := length tail + want\<rparr>
       in if length tail + want < 16 then (st1, drop want m, True)
          else ((poly1305_blocks st1 (buffer st1))\<lparr>leftover := 0\<rparr>, drop want m, False))"
    using l by (simp add: poly1305_update_leftover_def Let_def want_def poly1305_block_size_def)
  show ?thesis
  proof (cases "length tail + want < 16")
    case True
    then have w: "want = length m" by (simp add: want_def split: if_splits)
    have "poly1305_inv key full (tail @ m) st'"
      using step e True i b w by (simp add: poly1305_inv_def Let_def)
    then show ?thesis using that [of full "tail @ m"] step e True w by (auto simp: Let_def)
  next
    case False
    then have w: "want = 16 - length tail" "want \<le> length m" by (auto simp: want_def split: if_splits)
    have full: "memcpy_at (buffer st) (leftover st) (take want m) = tail @ take want m"
      unfolding b using w l i by simp
    have "poly1305_inv key (full @ tail @ take want m) [] st'"
      using poly1305_inv_buffer [OF inv, of "take want m" "length tail + want"] step e False w l full
      by (simp add: Let_def)
    then show ?thesis using that [of "full @ tail @ take want m" "[]"] step e False by (auto simp: Let_def)
  qed
qed


lemma poly1305_update_full_inv:
  assumes inv: "poly1305_inv key full [] st" and e: "poly1305_update_full st m = (st', m')"
  obtains full' where "poly1305_inv key full' [] st'" "full' @ m' = full @ m" "length m' < 16"
proof (cases "length m \<ge> 16")
  case True
  let ?w = "16 * (length m div 16)"
  have w: "?w \<le> length m" by simp
  have "length m - ?w = length m mod 16" by (simp add: minus_mult_div_eq_mod)
  then have "length (drop ?w m) < 16" by simp
  moreover have "poly1305_inv key (full @ take ?w m) [] (poly1305_blocks st (take ?w m))"
    using w by (intro poly1305_inv_blocks [OF inv]) (simp add: min_absorb2)
  ultimately show ?thesis
    using that [of "full @ take ?w m"] e True by (auto simp: poly1305_update_full_def poly1305_block_size_def Let_def)
next
  case False
  then show ?thesis
    using that [of full] e inv by (auto simp: poly1305_update_full_def poly1305_block_size_def)
qed

lemma poly1305_update_inv:
  assumes "poly1305_inv key full tail st"
  obtains full' tail' where "poly1305_inv key full' tail' (poly1305_update st m)" "full' @ tail' = full @ tail @ m"
proof -
  obtain st1 m1 returned where 1: "poly1305_update_leftover st m = (st1, m1, returned)" by (metis prod_cases3)
  obtain full1 tail1 where f1: "poly1305_inv key full1 tail1 st1" "full1 @ tail1 @ m1 = full @ tail @ m"
    "returned \<Longrightarrow> m1 = []" "\<not> returned \<Longrightarrow> tail1 = []"
    by (rule poly1305_update_leftover_inv [OF assms 1]) blast
  show ?thesis
  proof (cases returned)
    case True
    then show ?thesis using that [of full1 tail1] f1 1 by (simp add: poly1305_update_def)
  next
    case False
    obtain st2 m2 where 2: "poly1305_update_full st1 m1 = (st2, m2)" by (metis prod.exhaust)
    have "poly1305_inv key full1 [] st1" using f1 False by simp
    then obtain full2 where f2: "poly1305_inv key full2 [] st2" "full2 @ m2 = full1 @ m1" "length m2 < 16"
      by (rule poly1305_update_full_inv [OF _ 2]) blast
    have "poly1305_inv key full2 m2 (poly1305_update st m)"
      using f2 1 2 False by (auto simp: poly1305_update_def poly1305_inv_def memcpy_at_def)
    then show ?thesis using that [of full2 m2] f1 f2 False by simp
  qed
qed

lemma poly1305_updates_inv:
  assumes "poly1305_inv key full tail st"
  obtains full' tail' where "poly1305_inv key full' tail' (fold (\<lambda>m st. poly1305_update st m) ms st)"
    "full' @ tail' = full @ tail @ concat ms"
  using assms
proof (induction ms arbitrary: full tail st thesis)
  case (Cons m ms)
  obtain full1 tail1 where "poly1305_inv key full1 tail1 (poly1305_update st m)" "full1 @ tail1 = full @ tail @ m"
    using poly1305_update_inv [OF Cons.prems(2)] by blast
  moreover from Cons.IH [OF _ this(1)] obtain full2 tail2 where
    "poly1305_inv key full2 tail2 (fold (\<lambda>m st. poly1305_update st m) ms (poly1305_update st m))"
    "full2 @ tail2 = full1 @ tail1 @ concat ms" by blast
  ultimately show ?case using Cons.prems(1) [of full2 tail2] by simp
qed simp

section \<open>The last block\<close>

lemma list_update_append_length: "n = length xs \<Longrightarrow> ys \<noteq> [] \<Longrightarrow> (xs @ ys)[n := v] = xs @ v # tl ys"
  by (cases ys) (simp_all add: list_update_append)

lemma last_block_buffer:
  assumes "length buf = 16" "take (length t) buf = t" "length t < 16"
  shows "memcpy_at (buf[length t := 1]) (length t + 1) (zeros (16 - (length t + 1))) = t @ 1 # zeros (15 - length t)"
proof -
  have "buf = t @ drop (length t) buf" using assms by (metis append_take_drop_id)
  then have "buf[length t := 1] = (t @ [1]) @ tl (drop (length t) buf)"
    using assms list_update_append_length [of "length t" t "drop (length t) buf" 1] by simp
  then have "memcpy_at (buf[length t := 1]) (length t + 1) (zeros (16 - (length t + 1)))
      = ((t @ [1]) @ zeros (15 - length t)) @ drop (15 - length t) (tl (drop (length t) buf))"
    by (simp only: memcpy_over length_append) (simp add: memcpy_at_def)
  then show ?thesis using assms by simp
qed

lemma poly1305_last_block_val:
  assumes "poly1305_inv key full tail st"
  shows "h_bounded (poly_h (poly1305_last_block st))" "poly_pad (poly1305_last_block st) = poly_pad st"
    and "limbs_val (poly_h (poly1305_last_block st)) mod poly1305_p = poly1305_acc (limbs_val (poly_r st)) 0 (full @ tail)"
proof -
  note i = assms [unfolded poly1305_inv_def]
  let ?b = "tail @ 1 # zeros (15 - length tail)"
  let ?h = "poly1305_reduce (poly1305_mul (poly1305_add_block 0 (poly_h st) ?b) (poly_r st))"
  have len: "length ?b = 16" using i by simp
  have lb: "poly_h (poly1305_last_block st) = (if tail = [] then poly_h st else ?h)" "poly_pad (poly1305_last_block st) = poly_pad st"
  proof -
    have "poly1305_blocks_loop 0 r h ?b = poly1305_reduce (poly1305_mul (poly1305_add_block 0 h ?b) r)" for r h
      using len by (subst poly1305_blocks_loop.simps, subst poly1305_blocks_loop.simps)
        (simp add: poly1305_block_size_def)
    moreover have "leftover st = length tail" using i by simp
    moreover note last_block_buffer [of "buffer st" tail]
    ultimately show "poly_h (poly1305_last_block st) = (if tail = [] then poly_h st else ?h)"
      "poly_pad (poly1305_last_block st) = poly_pad st"
      using i by (auto simp: poly1305_last_block_def poly1305_blocks_def Let_def poly1305_block_size_def)
  qed
  show "poly_pad (poly1305_last_block st) = poly_pad st" by (rule lb)
  have st: "h_bounded ?h" "limbs_val ?h mod poly1305_p
      = ((limbs_val (poly_h st) + le_nat (take 16 ?b) + 2 ^ 88 * unat (0 :: u64)) * limbs_val (poly_r st)) mod poly1305_p"
    using poly1305_step_val [of "poly_h st" "poly_r st" ?b 0 ?h] i len by simp_all
  show "h_bounded (poly_h (poly1305_last_block st))" using lb st i by simp
  show "limbs_val (poly_h (poly1305_last_block st)) mod poly1305_p = poly1305_acc (limbs_val (poly_r st)) 0 (full @ tail)"
  proof (cases "tail = []")
    case True
    then show ?thesis using lb i by simp
  next
    case False
    have "le_nat ?b = le_nat tail + 2 ^ (8 * length tail)"
      by (simp add: le_nat_append power_mult)
    then have "limbs_val ?h mod poly1305_p
        = ((limbs_val (poly_h st) mod poly1305_p + le_nat tail + 2 ^ (8 * length tail)) * limbs_val (poly_r st)) mod poly1305_p"
      using st(2) len by (simp add: add.assoc) (metis mod_mult_left_eq mod_add_left_eq)
    then show ?thesis
      using lb False i poly1305_acc_block [OF False] by (simp add: poly1305_acc_append)
  qed
qed

lemma poly1305_finish_val:
  assumes "poly1305_inv key full tail st" "length key = 32"
  shows "poly1305_finish st = poly1305_spec key (full @ tail)"
proof -
  let ?st = "poly1305_last_block st"
  note lb = poly1305_last_block_val [OF assms(1)]
  obtain a b c where 1: "poly1305_full_carry (poly_h ?st) = (a, b, c)" by (metis prod_cases3)
  note fc = poly1305_full_carry_val [OF lb(1) 1]
  obtain x y z where 2: "poly1305_sub_p (a, b, c) = (x, y, z)" "unat x < 2 ^ 44" "unat y < 2 ^ 44" "unat z < 2 ^ 42"
    "limbs_val (x, y, z) = limbs_val (a, b, c) mod poly1305_p"
    using poly1305_sub_p_val [OF fc(1-3)] by blast
  have pad: "poly_pad ?st = (load64_le (drop 16 key), load64_le (drop 24 key))"
    and r: "limbs_val (poly_r st) = poly1305_clamp (le_nat (take 16 key))"
    using lb(2) assms(1) by (simp_all add: poly1305_inv_def)
  have s: "unat (load64_le (drop 16 key)) + 2 ^ 64 * unat (load64_le (drop 24 key)) = le_nat (slice 16 16 key)"
    using le_nat_16 [of "drop 16 key"] assms(2) by (simp add: slice_def)
  have "poly1305_finish st = poly1305_add_pad (x, y, z) (load64_le (drop 16 key), load64_le (drop 24 key))"
    by (simp add: poly1305_finish_def Let_def 1 2 pad)
  also have "\<dots> = nat_le 16 ((limbs_val (x, y, z) + le_nat (slice 16 16 key)) mod 2 ^ 128)"
    unfolding poly1305_add_pad_val [OF 2(2-4)] s ..
  finally show ?thesis unfolding 2(5) fc(4) lb(3) r poly1305_spec_def .
qed


lemma poly1305_fold_val:
  assumes "length (buffer st) = 16" "length key = 32"
  shows "poly1305_finish (fold (\<lambda>m st. poly1305_update st m) ms (poly1305_init st key)) = poly1305_spec key (concat ms)"
  using poly1305_updates_inv [OF poly1305_inv_init [OF assms], of ms] poly1305_finish_val [OF _ assms(2)]
  by (metis append_Nil)

text \<open>The example of RFC 8439, section 2.5.2.\<close>

definition rfc8439_key :: bytes where
  "rfc8439_key = [0x85, 0xd6, 0xbe, 0x78, 0x57, 0x55, 0x6d, 0x33, 0x7f, 0x44, 0x52, 0xfe, 0x42, 0xd5, 0x06, 0xa8,
     0x01, 0x03, 0x80, 0x8a, 0xfb, 0x0d, 0xb2, 0xfd, 0x4a, 0xbf, 0xf6, 0xaf, 0x41, 0x49, 0xf5, 0x1b]"

definition rfc8439_msg :: bytes where
  "rfc8439_msg = map (\<lambda>c. word_of_nat (of_char c)) ''Cryptographic Forum Research Group''"

definition rfc8439_tag :: bytes where
  "rfc8439_tag = [0xa8, 0x06, 0x1d, 0xc1, 0x30, 0x51, 0x36, 0xc6, 0xc2, 0x2b, 0x8b, 0xaf, 0x0c, 0x01, 0x27, 0xa9]"

lemma poly1305_spec_rfc8439: "poly1305_spec rfc8439_key rfc8439_msg = rfc8439_tag"
proof -
  have r: "poly1305_clamp (le_nat (take 16 rfc8439_key)) = 0x806d5400e52447c036d555408bed685"
    by (simp add: poly1305_clamp_def rfc8439_key_def)
  have s: "le_nat (slice 16 16 rfc8439_key) = 0x1bf54941aff6bf4afdb20dfb8a800301"
    by (simp add: rfc8439_key_def slice_def)
  have m: "rfc8439_msg = [0x43, 0x72, 0x79, 0x70, 0x74, 0x6f, 0x67, 0x72, 0x61, 0x70, 0x68, 0x69, 0x63, 0x20, 0x46, 0x6f, 0x72, 0x75, 0x6d, 0x20, 0x52, 0x65, 0x73, 0x65, 0x61, 0x72, 0x63, 0x68, 0x20, 0x47, 0x72, 0x6f, 0x75, 0x70]"
    by (simp add: rfc8439_msg_def)
  have a1: "poly1305_acc 0x806d5400e52447c036d555408bed685 0x0 [0x43, 0x72, 0x79, 0x70, 0x74, 0x6f, 0x67, 0x72, 0x61, 0x70, 0x68, 0x69, 0x63, 0x20, 0x46, 0x6f, 0x72, 0x75, 0x6d, 0x20, 0x52, 0x65, 0x73, 0x65, 0x61, 0x72, 0x63, 0x68, 0x20, 0x47, 0x72, 0x6f, 0x75, 0x70]
      = poly1305_acc 0x806d5400e52447c036d555408bed685 0x2c88c77849d64ae9147ddeb88e69c83fc [0x72, 0x75, 0x6d, 0x20, 0x52, 0x65, 0x73, 0x65, 0x61, 0x72, 0x63, 0x68, 0x20, 0x47, 0x72, 0x6f, 0x75, 0x70]"
    by (subst poly1305_acc_block) (simp_all add: poly1305_p_def)
  have a2: "poly1305_acc 0x806d5400e52447c036d555408bed685 0x2c88c77849d64ae9147ddeb88e69c83fc [0x72, 0x75, 0x6d, 0x20, 0x52, 0x65, 0x73, 0x65, 0x61, 0x72, 0x63, 0x68, 0x20, 0x47, 0x72, 0x6f, 0x75, 0x70]
      = poly1305_acc 0x806d5400e52447c036d555408bed685 0x2d8adaf23b0337fa7cccfb4ea344b30de [0x75, 0x70]"
    by (subst poly1305_acc_block) (simp_all add: poly1305_p_def)
  have a3: "poly1305_acc 0x806d5400e52447c036d555408bed685 0x2d8adaf23b0337fa7cccfb4ea344b30de [0x75, 0x70]
      = poly1305_acc 0x806d5400e52447c036d555408bed685 0x28d31b7caff946c77c8844335369d03a7 []"
    by (subst poly1305_acc_block) (simp_all add: poly1305_p_def)
  have t: "(0x28d31b7caff946c77c8844335369d03a7 + 0x1bf54941aff6bf4afdb20dfb8a800301) mod 2 ^ 128 = (0xa927010caf8b2bc2c6365130c11d06a8 :: nat)" by simp
  have n: "nat_le 16 0xa927010caf8b2bc2c6365130c11d06a8 = rfc8439_tag"
    unfolding rfc8439_tag_def nat_le_map by (simp add: upt_rec_numeral upt_conv_Cons)
  show ?thesis unfolding poly1305_spec_def r s m using a1 a2 a3 t n by simp
qed


section \<open>Properties\<close>

text \<open>
  C18: for a key of 32 bytes, initialising the state, feeding it any sequence of updates and finishing
  gives the 16 bytes that RFC 8439 defines for the concatenation of the updates: the polynomial in the
  clamped half of the key modulo \<open>2 ^ 130 - 5\<close>, plus the other half, modulo \<open>2 ^ 128\<close>.
\<close>

theorem poly1305_streaming_correct:
  assumes "length (buffer st) = 16" "length key = 32"
  shows "poly1305_finish (fold (\<lambda>m st. poly1305_update st m) ms (poly1305_init st key)) = poly1305_spec key (concat ms)"
  by (rule poly1305_fold_val [OF assms])

theorem poly1305_streaming_correct_witness:
  "poly1305_finish (fold (\<lambda>m st. poly1305_update st m) [take 5 rfc8439_msg, drop 5 rfc8439_msg]
     (poly1305_init \<lparr>poly_r = (0, 0, 0), poly_h = (0, 0, 0), poly_pad = (0, 0), leftover = 0,
        buffer = replicate 16 0, final = False\<rparr> rfc8439_key)) = rfc8439_tag"
proof -
  have "concat [take 5 rfc8439_msg, drop 5 rfc8439_msg] = rfc8439_msg" by simp
  then show ?thesis
    using poly1305_streaming_correct [of "\<lparr>poly_r = (0, 0, 0), poly_h = (0, 0, 0), poly_pad = (0, 0),
        leftover = 0, buffer = replicate 16 0, final = False\<rparr>" rfc8439_key "[take 5 rfc8439_msg, drop 5 rfc8439_msg]"]
      poly1305_spec_rfc8439
    by (simp add: rfc8439_key_def)
qed

end
