(* ===== verification/Sodium_Utils.thy ===== *)
theory Sodium_Utils
  imports Prelude
begin

text \<open>
  The comparison and wiping helpers of libsodium: \<open>sodium_memcmp\<close> and \<open>sodium_memzero\<close> of
  \<open>sodium/utils.c\<close> and the portable \<open>crypto_verify_n\<close> of \<open>crypto_verify/verify.c\<close>.
\<close>

unbundle bit_operations_syntax

section \<open>Model\<close>

definition sodium_memzero :: "bytes \<Rightarrow> bytes" where
  "sodium_memzero pnt = zeros (length pnt)"

text \<open>\<open>d\<close> is an unsigned char that is promoted to int, so the shift is arithmetic.\<close>

definition sodium_memcmp :: "bytes \<Rightarrow> bytes \<Rightarrow> nat \<Rightarrow> int" where
  "sodium_memcmp b1 b2 len =
     (let d = fold (\<lambda>i d. d OR (b1 ! i XOR b2 ! i)) [0..<len] (0 :: u8)
      in (1 AND drop_bit 8 (uint d - 1)) - 1)"

text \<open>Here \<open>d\<close> is a \<open>uint_fast16_t\<close>, 64 bits wide on the target; the shift is logical.\<close>

definition crypto_verify_n :: "bytes \<Rightarrow> bytes \<Rightarrow> nat \<Rightarrow> int" where
  "crypto_verify_n x y n =
     (let d = fold (\<lambda>i d. d OR ucast (x ! i XOR y ! i)) [0..<n] (0 :: u64)
      in uint (1 AND drop_bit 8 (d - 1)) - 1)"

definition crypto_verify_16 :: "bytes \<Rightarrow> bytes \<Rightarrow> int" where
  "crypto_verify_16 x y = crypto_verify_n x y 16"

definition crypto_verify_32 :: "bytes \<Rightarrow> bytes \<Rightarrow> int" where
  "crypto_verify_32 x y = crypto_verify_n x y 32"

section \<open>Lemmas\<close>

lemma bit_fold_or:
  fixes f :: "'i \<Rightarrow> 'a::len word"
  shows "bit (fold (\<lambda>i d. d OR f i) is a) n \<longleftrightarrow> bit a n \<or> (\<exists>i \<in> set is. bit (f i) n)"
  by (induction "is" arbitrary: a) (auto simp: bit_or_iff)

lemma fold_or_eq_0: "fold (\<lambda>i d. d OR f i) is (0 :: 'a::len word) = 0 \<longleftrightarrow> (\<forall>i \<in> set is. f i = 0)"
  by (auto simp: bit_eq_iff bit_fold_or)

lemma xor_eq_0: "(a :: 'a::len word) XOR b = 0 \<longleftrightarrow> a = b"
  by (auto simp: bit_eq_iff bit_xor_iff)

lemma take_eq_all:
  "n \<le> length x \<Longrightarrow> n \<le> length y \<Longrightarrow> (\<forall>i \<in> set [0..<n]. x ! i = y ! i) \<longleftrightarrow> take n x = take n y"
  by (auto simp: list_eq_iff_nth_eq)

text \<open>The branch-free test for zero.\<close>

lemma zero_mask: "1 AND drop_bit 8 (uint (d :: u8) - 1) = (if d = 0 then 1 else 0)"
proof (cases "d = 0")
  case False
  then have "uint d \<noteq> 0" by (simp add: unsigned_eq_0_iff)
  then have "0 < uint d" "uint d < 256" using uint_bounded [of d] uint_nonnegative [of d] by (simp_all add: le_neq_trans)
  then have "drop_bit 8 (uint d - 1) = 0" by (simp add: drop_bit_eq_div)
  then show ?thesis using False by simp
qed (simp add: drop_bit_eq_div)

text \<open>Both return 0 exactly when the first \<open>n\<close> bytes agree, and -1 otherwise.\<close>

lemma sodium_memcmp_eq:
  assumes "n \<le> length x" "n \<le> length y"
  shows "sodium_memcmp x y n = (if take n x = take n y then 0 else -1)"
proof -
  define d where "d = fold (\<lambda>i d. d OR (x ! i XOR y ! i)) [0..<n] (0 :: u8)"
  have z: "d = 0 \<longleftrightarrow> take n x = take n y"
    unfolding d_def fold_or_eq_0 xor_eq_0 by (rule take_eq_all [OF assms])
  then show ?thesis by (simp add: sodium_memcmp_def Let_def d_def [symmetric] zero_mask)
qed

lemma crypto_verify_n_eq:
  assumes "n \<le> length x" "n \<le> length y"
  shows "crypto_verify_n x y n = (if take n x = take n y then 0 else -1)"
proof -
  define d where "d = fold (\<lambda>i d. d OR ucast (x ! i XOR y ! i)) [0..<n] (0 :: u64)"
  have "ucast w = (0 :: u64) \<longleftrightarrow> w = 0" for w :: u8
  proof -
    have "unat w < 2 ^ 64" by (rule less_trans [OF unat_u8_less]) simp
    then show ?thesis by (simp add: word_unat_eq_iff unsigned_ucast_eq take_bit_nat_eq_self)
  qed
  then have z: "d = 0 \<longleftrightarrow> take n x = take n y"
    unfolding d_def fold_or_eq_0 xor_eq_0 [symmetric, of "_ ! _"] using take_eq_all [OF assms] by (simp add: xor_eq_0)
  have small: "d = take_bit 8 d"
    by (rule bit_word_eqI) (use bit_imp_le_length in \<open>fastforce simp: d_def bit_fold_or bit_simps\<close>)
  have "uint (1 AND drop_bit 8 (d - 1)) - 1 = (if d = 0 then 0 else -1)"
  proof (cases "d = 0")
    case False
    have "unat d < 256"
      by (subst small) (simp add: unsigned_take_bit_eq take_bit_eq_mod [of 8 "unat d"])
    then have "unat (d - 1) < 256" using False by (simp add: unat_minus_one)
    then have "drop_bit 8 (d - 1) = 0"
      by (simp add: word_unat_eq_iff unsigned_drop_bit_eq drop_bit_eq_div [of 8 "unat (d - 1)"]
          take_bit_eq_mod [of 64 "unat (d - 1)"])
    then show ?thesis using False by simp
  qed (simp add: mask_eq_exp_minus_1)
  then show ?thesis using z by (simp add: crypto_verify_n_def Let_def d_def)
qed

end
