(* ===== verification/Aead.thy ===== *)
theory Aead
  imports Chacha20 Poly1305_Correct Sodium_Utils
begin

text \<open>
  libsodium's ChaCha20-Poly1305 in its IETF variant with detached tag,
  \<open>crypto_aead/chacha20poly1305/aead_chacha20poly1305.c\<close>.  The functions of the dispatcher
  \<open>onetimeauth_poly1305.c\<close> are the ones of \<open>Poly1305\<close>.
\<close>

unbundle bit_operations_syntax

section \<open>Model\<close>

text \<open>The authenticator state on the stack; \<open>poly1305_init\<close> sets what is read of it.\<close>

definition poly1305_state_fresh :: poly1305_state_internal_t where
  "poly1305_state_fresh = \<lparr>poly_r = (0, 0, 0), poly_h = (0, 0, 0), poly_pad = (0, 0), leftover = 0,
     buffer = zeros 16, final = False\<rparr>"

definition pad0 :: bytes where
  "pad0 = zeros 16"

text \<open>\<open>(0x10 - len) & 0xf\<close> on unsigned 64-bit integers.\<close>

definition pad_len :: "nat \<Rightarrow> nat" where
  "pad_len len = unat ((0x10 - word_of_nat len :: u64) AND 0xf)"

definition aead_absorb :: "poly1305_state_internal_t \<Rightarrow> bytes \<Rightarrow> poly1305_state_internal_t" where
  "aead_absorb state x = poly1305_update (poly1305_update state x) (take (pad_len (length x)) pad0)"

definition aead_lengths :: "poly1305_state_internal_t \<Rightarrow> nat \<Rightarrow> nat \<Rightarrow> poly1305_state_internal_t" where
  "aead_lengths state adlen mlen =
     poly1305_update (poly1305_update state (store64_le (word_of_nat adlen))) (store64_le (word_of_nat mlen))"

definition crypto_aead_chacha20poly1305_ietf_encrypt_detached ::
  "bytes \<Rightarrow> bytes \<Rightarrow> bytes \<Rightarrow> bytes \<Rightarrow> (bytes \<times> bytes) option" where
  "crypto_aead_chacha20poly1305_ietf_encrypt_detached m ad npub k =
     (case crypto_stream_chacha20_ietf 64 npub k of None \<Rightarrow> None
      | Some block0 \<Rightarrow>
          let state = poly1305_init poly1305_state_fresh block0;
              state = aead_absorb state ad
          in case crypto_stream_chacha20_ietf_xor_ic m npub 1 k of None \<Rightarrow> None
             | Some c \<Rightarrow>
                 let state = aead_absorb state c;
                     state = aead_lengths state (length ad) (length m);
                     mac = poly1305_finish state
                 in Some (c, mac))"

text \<open>
  Decryption: \<open>m\<close> is the output buffer, None for NULL.  The result is the return code and the buffer:
  a wrong tag zero-fills the message area.
\<close>

definition crypto_aead_chacha20poly1305_ietf_decrypt_detached ::
  "bytes option \<Rightarrow> bytes \<Rightarrow> bytes \<Rightarrow> bytes \<Rightarrow> bytes \<Rightarrow> bytes \<Rightarrow> (int \<times> bytes option) option" where
  "crypto_aead_chacha20poly1305_ietf_decrypt_detached m c mac ad npub k =
     (case crypto_stream_chacha20_ietf 64 npub k of None \<Rightarrow> None
      | Some block0 \<Rightarrow>
          let state = poly1305_init poly1305_state_fresh block0;
              state = aead_absorb state ad;
              mlen = length c;
              state = aead_absorb state c;
              state = aead_lengths state (length ad) mlen;
              computed_mac = poly1305_finish state;
              ret = crypto_verify_16 computed_mac mac
          in case m of None \<Rightarrow> Some (ret, None)
             | Some buf \<Rightarrow>
                 if ret \<noteq> 0 then Some (-1, Some (memcpy_at buf 0 (zeros mlen)))
                 else case crypto_stream_chacha20_ietf_xor_ic c npub 1 k of None \<Rightarrow> None
                      | Some p \<Rightarrow> Some (0, Some (memcpy_at buf 0 p)))"

section \<open>The construction of RFC 8439\<close>

definition aead_otk :: "bytes \<Rightarrow> bytes \<Rightarrow> bytes" where
  "aead_otk npub k = take 32 (stream_ietf_ext_ref 64 npub k)"

definition aead_mac_data :: "bytes \<Rightarrow> bytes \<Rightarrow> bytes" where
  "aead_mac_data ad c =
     ad @ zeros ((16 - length ad mod 16) mod 16) @ c @ zeros ((16 - length c mod 16) mod 16)
     @ le64_write (word_of_nat (length ad)) @ le64_write (word_of_nat (length c))"

definition aead_tag :: "bytes \<Rightarrow> bytes \<Rightarrow> bytes \<Rightarrow> bytes \<Rightarrow> bytes" where
  "aead_tag npub k ad c = poly1305_spec (aead_otk npub k) (aead_mac_data ad c)"

section \<open>Lemmas\<close>

lemma pad_len_eq: "pad_len n = (16 - n mod 16) mod 16"
proof -
  have "pad_len n = unat (0x10 - word_of_nat n :: u64) mod 16"
  proof -
    have "(w AND 0xf :: u64) = take_bit 4 w" for w by (simp add: take_bit_eq_mask mask_eq_exp_minus_1)
    then show ?thesis
      by (simp add: pad_len_def unsigned_take_bit_eq take_bit_eq_mod [of 4 "unat (16 - word_of_nat n :: u64)"])
  qed
  moreover have "int (unat (0x10 - word_of_nat n :: u64) mod 16) = (16 - int n) mod 16"
  proof -
    have "int (unat (0x10 - word_of_nat n :: u64)) = (16 - int n) mod 2 ^ 64"
      by (simp add: uint_word_ariths uint_nat [symmetric] of_nat_mod unsigned_of_nat take_bit_eq_mod mod_diff_right_eq)
    then show ?thesis by (simp add: zmod_int mod_mod_cancel)
  qed
  moreover have "int ((16 - n mod 16) mod 16) = (16 - int n) mod 16"
    by (simp add: zmod_int of_nat_diff mod_minus_eq)
  ultimately show ?thesis by (metis of_nat_eq_iff)
qed

lemma poly1305_init_take: "32 \<le> length key \<Longrightarrow> poly1305_init st key = poly1305_init st (take 32 key)"
  by (simp add: poly1305_init_def Let_def sodium_le_eqs le64_read_def)

lemma length_nat_le [simp]: "length (nat_le k n) = k"
  by (induction k arbitrary: n) simp_all

lemma length_aead_tag [simp]: "length (aead_tag npub k ad c) = 16"
  by (simp add: aead_tag_def poly1305_spec_def)

lemma length_aead_otk [simp]: "length (aead_otk npub k) = 32"
  by (simp add: aead_otk_def)

lemma aead_absorb_fold:
  "poly1305_finish (aead_lengths (aead_absorb (aead_absorb (poly1305_init poly1305_state_fresh (stream_ietf_ext_ref 64 npub k)) ad) c)
      (length ad) (length c)) = aead_tag npub k ad c"
proof -
  have pad: "take (pad_len n) pad0 = zeros ((16 - n mod 16) mod 16)" for n
    by (simp add: pad_len_eq pad0_def zeros_def min_def)
  let ?ms = "[ad, zeros ((16 - length ad mod 16) mod 16), c, zeros ((16 - length c mod 16) mod 16),
      store64_le (word_of_nat (length ad)), store64_le (word_of_nat (length c))]"
  have "poly1305_finish (fold (\<lambda>m st. poly1305_update st m) ?ms (poly1305_init poly1305_state_fresh (aead_otk npub k)))
      = poly1305_spec (aead_otk npub k) (concat ?ms)"
    by (rule poly1305_fold_val) (simp_all add: poly1305_state_fresh_def)
  then show ?thesis
    by (simp add: aead_absorb_def aead_lengths_def pad aead_tag_def aead_mac_data_def aead_otk_def sodium_le_eqs
        poly1305_init_take [of "stream_ietf_ext_ref 64 npub k"])
qed

lemma aead_encrypt_eq:
  assumes "length m \<le> 64 * (2 ^ 32 - 1)"
  shows "crypto_aead_chacha20poly1305_ietf_encrypt_detached m ad npub k =
    Some (stream_ietf_ext_ref_xor_ic m npub 1 k, aead_tag npub k ad (stream_ietf_ext_ref_xor_ic m npub 1 k))"
  using aead_absorb_fold [of npub k ad "stream_ietf_ext_ref_xor_ic m npub 1 k"]
  by (simp add: crypto_aead_chacha20poly1305_ietf_encrypt_detached_def crypto_stream_chacha20_ietf_def
      no_misuse [OF assms])

lemma aead_decrypt_eq:
  assumes "length c \<le> 64 * (2 ^ 32 - 1)" "length mac = 16"
  shows "crypto_aead_chacha20poly1305_ietf_decrypt_detached (Some buf) c mac ad npub k =
    (if mac = aead_tag npub k ad c then Some (0, Some (memcpy_at buf 0 (stream_ietf_ext_ref_xor_ic c npub 1 k)))
     else Some (-1, Some (memcpy_at buf 0 (zeros (length c)))))"
  using assms(2)
  by (auto simp: crypto_aead_chacha20poly1305_ietf_decrypt_detached_def crypto_stream_chacha20_ietf_def Let_def
      no_misuse [OF assms(1)] aead_absorb_fold crypto_verify_16_def crypto_verify_n_eq)

end
