(* ===== verification/Blake2b.thy ===== *)
theory Blake2b
  imports Endian
begin

text \<open>
  libsodium's BLAKE2b, \<open>crypto_generichash/blake2b/ref/blake2b-ref.c\<close> with the portable compression
  function of \<open>blake2b-compress-ref.c\<close>, and \<open>crypto_generichash\<close> on top of it.  A call of
  \<open>sodium_misuse\<close> is the result None.
\<close>

unbundle bit_operations_syntax

section \<open>Compression\<close>

definition blake2b_IV :: "u64 list" where
  "blake2b_IV =
     [0x6a09e667f3bcc908, 0xbb67ae8584caa73b, 0x3c6ef372fe94f82b, 0xa54ff53a5f1d36f1,
      0x510e527fade682d1, 0x9b05688c2b3e6c1f, 0x1f83d9abfb41bd6b, 0x5be0cd19137e2179]"

definition blake2b_sigma :: "nat list list" where
  "blake2b_sigma =
     [[0, 1, 2, 3, 4, 5, 6, 7, 8, 9, 10, 11, 12, 13, 14, 15],
      [14, 10, 4, 8, 9, 15, 13, 6, 1, 12, 0, 2, 11, 7, 5, 3],
      [11, 8, 12, 0, 5, 2, 15, 13, 10, 14, 3, 6, 7, 1, 9, 4],
      [7, 9, 3, 1, 13, 12, 11, 14, 2, 6, 5, 10, 4, 0, 15, 8],
      [9, 0, 5, 7, 2, 4, 10, 15, 14, 1, 11, 12, 6, 8, 3, 13],
      [2, 12, 6, 10, 0, 11, 8, 3, 4, 13, 7, 5, 15, 14, 1, 9],
      [12, 5, 1, 15, 14, 13, 4, 10, 0, 7, 6, 3, 9, 2, 8, 11],
      [13, 11, 7, 14, 12, 1, 3, 9, 5, 0, 15, 4, 8, 6, 2, 10],
      [6, 15, 14, 9, 11, 3, 0, 8, 12, 2, 13, 7, 1, 4, 10, 5],
      [10, 2, 8, 4, 7, 6, 1, 5, 15, 11, 9, 14, 3, 12, 13, 0],
      [0, 1, 2, 3, 4, 5, 6, 7, 8, 9, 10, 11, 12, 13, 14, 15],
      [14, 10, 4, 8, 9, 15, 13, 6, 1, 12, 0, 2, 11, 7, 5, 3]]"

definition blake2b_G :: "u64 list \<Rightarrow> nat \<Rightarrow> nat \<Rightarrow> nat \<Rightarrow> nat \<Rightarrow> nat \<Rightarrow> nat \<Rightarrow> u64 list \<Rightarrow> u64 list" where
  "blake2b_G m r i ka kb kc kd v =
     (let a = v ! ka; b = v ! kb; c = v ! kc; d = v ! kd;
          a = a + (b + m ! (blake2b_sigma ! r ! (2 * i + 0)));
          d = rotr64 (d XOR a) 32;
          c = c + d;
          b = rotr64 (b XOR c) 24;
          a = a + (b + m ! (blake2b_sigma ! r ! (2 * i + 1)));
          d = rotr64 (d XOR a) 16;
          c = c + d;
          b = rotr64 (b XOR c) 63
      in v[ka := a, kb := b, kc := c, kd := d])"

definition blake2b_ROUND :: "u64 list \<Rightarrow> nat \<Rightarrow> u64 list \<Rightarrow> u64 list" where
  "blake2b_ROUND m r v =
     (let v = blake2b_G m r 0 0 4 8 12 v; v = blake2b_G m r 1 1 5 9 13 v;
          v = blake2b_G m r 2 2 6 10 14 v; v = blake2b_G m r 3 3 7 11 15 v;
          v = blake2b_G m r 4 0 5 10 15 v; v = blake2b_G m r 5 1 6 11 12 v;
          v = blake2b_G m r 6 2 7 8 13 v; v = blake2b_G m r 7 3 4 9 14 v
      in v)"

text \<open>The new chaining words from the old ones, the counter, the flags and a block.\<close>

definition blake2b_compress_h :: "u64 list \<Rightarrow> u64 \<times> u64 \<Rightarrow> u64 \<times> u64 \<Rightarrow> bytes \<Rightarrow> u64 list" where
  "blake2b_compress_h h t f block =
     (let m = map (\<lambda>i. load64_le (drop (i * 8) block)) [0..<16];
          v = take 8 h @ [blake2b_IV ! 0, blake2b_IV ! 1, blake2b_IV ! 2, blake2b_IV ! 3,
            fst t XOR blake2b_IV ! 4, snd t XOR blake2b_IV ! 5,
            fst f XOR blake2b_IV ! 6, snd f XOR blake2b_IV ! 7];
          v = fold (blake2b_ROUND m) [0..<12] v
      in map (\<lambda>i. (h ! i XOR v ! i) XOR v ! (i + 8)) [0..<8])"

section \<open>State\<close>

record blake2b_state =
  blake_h :: "u64 list"
  blake_t :: "u64 \<times> u64"
  blake_f :: "u64 \<times> u64"
  blake_buf :: bytes
  blake_buflen :: nat
  blake_last_node :: u8

definition BLAKE2B_BLOCKBYTES :: nat where "BLAKE2B_BLOCKBYTES = 128"
definition BLAKE2B_OUTBYTES :: nat where "BLAKE2B_OUTBYTES = 64"
definition BLAKE2B_KEYBYTES :: nat where "BLAKE2B_KEYBYTES = 64"

lemmas blake2b_consts [simp] = BLAKE2B_BLOCKBYTES_def BLAKE2B_OUTBYTES_def BLAKE2B_KEYBYTES_def

definition blake2b_compress_ref :: "blake2b_state \<Rightarrow> bytes \<Rightarrow> blake2b_state" where
  "blake2b_compress_ref S block =
     S\<lparr>blake_h := blake2b_compress_h (blake_h S) (blake_t S) (blake_f S) block\<rparr>"

definition blake2b_set_lastnode :: "blake2b_state \<Rightarrow> blake2b_state" where
  "blake2b_set_lastnode S = S\<lparr>blake_f := (fst (blake_f S), -1)\<rparr>"

definition blake2b_is_lastblock :: "blake2b_state \<Rightarrow> bool" where
  "blake2b_is_lastblock S \<longleftrightarrow> fst (blake_f S) \<noteq> 0"

definition blake2b_set_lastblock :: "blake2b_state \<Rightarrow> blake2b_state" where
  "blake2b_set_lastblock S =
     (let S = (if blake_last_node S \<noteq> 0 then blake2b_set_lastnode S else S)
      in S\<lparr>blake_f := (-1, snd (blake_f S))\<rparr>)"

definition counter_add :: "u64 \<times> u64 \<Rightarrow> u64 \<Rightarrow> u64 \<times> u64" where
  "counter_add t inc =
     (let x = (push_bit 64 (ucast (snd t)) OR ucast (fst t) :: u128); x = x + ucast inc
      in (ucast x, ucast (drop_bit 64 x)))"

definition blake2b_increment_counter :: "blake2b_state \<Rightarrow> u64 \<Rightarrow> blake2b_state" where
  "blake2b_increment_counter S inc = S\<lparr>blake_t := counter_add (blake_t S) inc\<rparr>"

definition blake2b_init0 :: blake2b_state where
  "blake2b_init0 = \<lparr>blake_h = blake2b_IV, blake_t = (0, 0), blake_f = (0, 0), blake_buf = zeros 256,
     blake_buflen = 0, blake_last_node = 0\<rparr>"

text \<open>The parameter block as its 64 bytes, in the order of the packed structure.\<close>

definition blake2b_param :: "u8 \<Rightarrow> u8 \<Rightarrow> bytes" where
  "blake2b_param digest_length key_length =
     [digest_length, key_length, 1, 1] @ store32_le 0 @ store64_le 0 @ [0, 0] @ zeros 14 @ zeros 16 @ zeros 16"

definition blake2b_init_param :: "bytes \<Rightarrow> blake2b_state" where
  "blake2b_init_param p =
     (let S = blake2b_init0
      in S\<lparr>blake_h := map (\<lambda>i. blake_h S ! i XOR load64_le (drop (8 * i) p)) [0..<8]\<rparr>)"

definition blake2b_init :: "u8 \<Rightarrow> blake2b_state option" where
  "blake2b_init outlen =
     (if outlen = 0 \<or> unat outlen > BLAKE2B_OUTBYTES then None
      else Some (blake2b_init_param (blake2b_param outlen 0)))"

section \<open>Update and final\<close>

text \<open>The body of the loop for input that does not fit: fill the buffer, compress, shift.\<close>

definition blake2b_fill_compress :: "blake2b_state \<Rightarrow> bytes \<Rightarrow> blake2b_state" where
  "blake2b_fill_compress S x =
     (let S = S\<lparr>blake_buf := memcpy_at (blake_buf S) (blake_buflen S) x, blake_buflen := blake_buflen S + length x\<rparr>;
          S = blake2b_increment_counter S 128;
          S = blake2b_compress_ref S (blake_buf S)
      in S\<lparr>blake_buf := memcpy_at (blake_buf S) 0 (slice BLAKE2B_BLOCKBYTES BLAKE2B_BLOCKBYTES (blake_buf S)),
           blake_buflen := blake_buflen S - BLAKE2B_BLOCKBYTES\<rparr>)"

function blake2b_update :: "blake2b_state \<Rightarrow> bytes \<Rightarrow> blake2b_state" where
  "blake2b_update S inp =
     (if length inp > 0 then
        let fill = 2 * BLAKE2B_BLOCKBYTES - blake_buflen S
        in if length inp > fill
           then blake2b_update (blake2b_fill_compress S (take fill inp)) (drop fill inp)
           else blake2b_update
             (S\<lparr>blake_buf := memcpy_at (blake_buf S) (blake_buflen S) inp, blake_buflen := blake_buflen S + length inp\<rparr>)
             (drop (length inp) inp)
      else S)"
  by pat_completeness auto
termination
  by (relation "measures [\<lambda>(S, inp). length inp, \<lambda>(S, inp). blake_buflen S]")
    (auto simp: blake2b_fill_compress_def blake2b_compress_ref_def blake2b_increment_counter_def Let_def)

definition blake2b_init_key :: "u8 \<Rightarrow> bytes option \<Rightarrow> u8 \<Rightarrow> blake2b_state option" where
  "blake2b_init_key outlen key keylen =
     (if outlen = 0 \<or> unat outlen > BLAKE2B_OUTBYTES then None
      else case key of None \<Rightarrow> None
           | Some k \<Rightarrow>
               if keylen = 0 \<or> unat keylen > BLAKE2B_KEYBYTES then None
               else let S = blake2b_init_param (blake2b_param outlen keylen);
                        block = memcpy_at (zeros BLAKE2B_BLOCKBYTES) 0 (take (unat keylen) k)
                    in Some (blake2b_update S block))"

text \<open>The inner None is the return value -1 for a state that is already final.\<close>

definition blake2b_final :: "blake2b_state \<Rightarrow> u8 \<Rightarrow> bytes option option" where
  "blake2b_final S outlen =
     (if outlen = 0 \<or> unat outlen > BLAKE2B_OUTBYTES then None
      else if blake2b_is_lastblock S then Some None
      else
        let S = (if blake_buflen S > BLAKE2B_BLOCKBYTES then
                   let S = blake2b_increment_counter S 128;
                       S = blake2b_compress_ref S (blake_buf S);
                       S = S\<lparr>blake_buflen := blake_buflen S - BLAKE2B_BLOCKBYTES\<rparr>
                   in S\<lparr>blake_buf := memcpy_at (blake_buf S) 0 (slice BLAKE2B_BLOCKBYTES (blake_buflen S) (blake_buf S))\<rparr>
                 else S);
            S = blake2b_increment_counter S (word_of_nat (blake_buflen S));
            S = blake2b_set_lastblock S;
            S = S\<lparr>blake_buf := memcpy_at (blake_buf S) (blake_buflen S) (zeros (2 * BLAKE2B_BLOCKBYTES - blake_buflen S))\<rparr>;
            S = blake2b_compress_ref S (blake_buf S);
            buffer = concat (map (\<lambda>i. store64_le (blake_h S ! i)) [0..<8])
        in Some (Some (take (unat outlen) buffer)))"

text \<open>\<open>out\<close> is what the output buffer holds before the call.\<close>

definition blake2b :: "bytes \<Rightarrow> bytes option \<Rightarrow> nat \<Rightarrow> bytes option \<Rightarrow> u8 \<Rightarrow> u8 \<Rightarrow> bytes option" where
  "blake2b out inp inlen key outlen keylen =
     (if inp = None \<and> inlen > 0 then None
      else if outlen = 0 \<or> unat outlen > BLAKE2B_OUTBYTES then None
      else if key = None \<and> keylen > 0 then None
      else if unat keylen > BLAKE2B_KEYBYTES then None
      else
        (case (if keylen > 0 then blake2b_init_key outlen key keylen else blake2b_init outlen) of
           None \<Rightarrow> None
         | Some S \<Rightarrow>
             (case blake2b_final (blake2b_update S (case inp of None \<Rightarrow> [] | Some i \<Rightarrow> take inlen i)) outlen of
                None \<Rightarrow> None | Some r \<Rightarrow> Some (case r of None \<Rightarrow> out | Some digest \<Rightarrow> digest))))"

text \<open>The inner None is the return value -1.\<close>

definition crypto_generichash_blake2b ::
  "bytes \<Rightarrow> nat \<Rightarrow> bytes option \<Rightarrow> nat \<Rightarrow> bytes option \<Rightarrow> nat \<Rightarrow> bytes option option" where
  "crypto_generichash_blake2b out outlen inp inlen key keylen =
     (if outlen \<le> 0 \<or> outlen > BLAKE2B_OUTBYTES \<or> keylen > BLAKE2B_KEYBYTES \<or> inlen > 2 ^ 64 - 1 then Some None
      else case blake2b out inp inlen key (word_of_nat outlen) (word_of_nat keylen) of
             None \<Rightarrow> None | Some digest \<Rightarrow> Some (Some digest))"

definition crypto_generichash ::
  "bytes \<Rightarrow> nat \<Rightarrow> bytes option \<Rightarrow> nat \<Rightarrow> bytes option \<Rightarrow> nat \<Rightarrow> bytes option option" where
  "crypto_generichash out outlen inp inlen key keylen =
     crypto_generichash_blake2b out outlen inp inlen key keylen"

section \<open>The hash of RFC 7693\<close>

text \<open>
  All blocks but the last, then the last one padded with zeros and with the final flag; \<open>t\<close> counts the
  bytes hashed.
\<close>

function blake2b_hash :: "u64 list \<Rightarrow> u64 \<times> u64 \<Rightarrow> bytes \<Rightarrow> u64 list" where
  "blake2b_hash h t data =
     (if length data > 128
      then blake2b_hash (blake2b_compress_h h (counter_add t 128) (0, 0) (take 128 data)) (counter_add t 128) (drop 128 data)
      else blake2b_compress_h h (counter_add t (word_of_nat (length data))) (-1, 0) (data @ zeros (128 - length data)))"
  by pat_completeness auto
termination
  by (relation "measure (\<lambda>(h, t, data). length data)") auto

definition blake2b_spec :: "nat \<Rightarrow> bytes \<Rightarrow> bytes \<Rightarrow> bytes" where
  "blake2b_spec outlen key data =
     (let h0 = map (\<lambda>i. blake2b_IV ! i XOR le64_read (drop (8 * i)
                 ([word_of_nat outlen, word_of_nat (length key), 1, 1] @ zeros 60))) [0..<8];
          keyblock = (if key = [] then [] else key @ zeros (128 - length key))
      in take outlen (concat (map le64_write (blake2b_hash h0 (0, 0) (keyblock @ data)))))"


section \<open>Lemmas\<close>

declare blake2b_update.simps [simp del] blake2b_hash.simps [simp del]

lemma load64_le_drop_take:
  "i < 16 \<Longrightarrow> 128 \<le> length b \<Longrightarrow> load64_le (drop (i * 8) (take 128 b)) = load64_le (drop (i * 8) b)"
  by (simp add: sodium_le_eqs le64_read_def)

lemma blake2b_compress_take:
  assumes "128 \<le> length b"
  shows "blake2b_compress_h h t f (take 128 b) = blake2b_compress_h h t f b"
proof -
  have "map (\<lambda>i. load64_le (drop (i * 8) (take 128 b))) [0..<16] = map (\<lambda>i. load64_le (drop (i * 8) b)) [0..<16]"
    by (rule map_cong [OF refl]) (use assms in \<open>simp del: drop_take add: load64_le_drop_take\<close>)
  then show ?thesis by (simp only: blake2b_compress_h_def)
qed

lemma length_blake2b_compress_h [simp]: "length (blake2b_compress_h h t f b) = 8"
  by (simp add: blake2b_compress_h_def Let_def)

lemma length_blake2b_hash [simp]: "length (blake2b_hash h t data) = 8"
  by (induction h t data rule: blake2b_hash.induct) (subst blake2b_hash.simps, simp)

text \<open>The bytes that wait in the buffer.\<close>

definition blake2b_pending :: "blake2b_state \<Rightarrow> bytes" where
  "blake2b_pending S = take (blake_buflen S) (blake_buf S)"

definition blake2b_ok :: "blake2b_state \<Rightarrow> bool" where
  "blake2b_ok S \<longleftrightarrow> length (blake_buf S) = 256 \<and> blake_buflen S \<le> 256 \<and> blake_f S = (0, 0) \<and> blake_last_node S = 0"

lemma blake2b_hash_step:
  "128 < length data \<Longrightarrow> blake2b_hash h t data =
     blake2b_hash (blake2b_compress_h h (counter_add t 128) (0, 0) (take 128 data)) (counter_add t 128) (drop 128 data)"
  by (subst blake2b_hash.simps) simp

lemma blake2b_hash_last:
  "length data \<le> 128 \<Longrightarrow> blake2b_hash h t data =
     blake2b_compress_h h (counter_add t (word_of_nat (length data))) (-1, 0) (data @ zeros (128 - length data))"
  by (subst blake2b_hash.simps) simp

text \<open>One full buffer: compress its first half and shift.\<close>

lemma blake2b_full_buffer:
  assumes "blake2b_ok S" "256 - blake_buflen S < length inp"
  defines "fill \<equiv> 256 - blake_buflen S"
  defines "buf \<equiv> memcpy_at (blake_buf S) (blake_buflen S) (take fill inp)"
  shows "buf = blake2b_pending S @ take fill inp" "length buf = 256"
proof -
  have l: "length (take fill inp) = fill" "fill + blake_buflen S = 256"
    using assms by (auto simp: blake2b_ok_def)
  show "buf = blake2b_pending S @ take fill inp"
    using assms(1) l by (simp add: buf_def memcpy_at_def blake2b_pending_def blake2b_ok_def add.commute)
  then show "length buf = 256" using assms(1) l by (simp add: blake2b_pending_def blake2b_ok_def)
qed

lemma blake2b_update_hash:
  "blake2b_ok S \<Longrightarrow> blake2b_ok (blake2b_update S inp) \<and>
     blake2b_hash (blake_h (blake2b_update S inp)) (blake_t (blake2b_update S inp)) (blake2b_pending (blake2b_update S inp) @ x)
     = blake2b_hash (blake_h S) (blake_t S) (blake2b_pending S @ inp @ x)"
proof (induction S inp rule: blake2b_update.induct)
  case (1 S inp)
  let ?fill = "256 - blake_buflen S"
  consider "inp = []" | "inp \<noteq> []" "length inp \<le> ?fill" | "length inp > ?fill" by fastforce
  then show ?case
  proof cases
    case 1
    then show ?thesis using \<open>blake2b_ok S\<close> by (subst (1 2 3 4) blake2b_update.simps) simp
  next
    case 2
    let ?S = "S\<lparr>blake_buf := memcpy_at (blake_buf S) (blake_buflen S) inp, blake_buflen := blake_buflen S + length inp\<rparr>"
    have u: "blake2b_update S inp = ?S"
      using 2 by (subst blake2b_update.simps, subst blake2b_update.simps) (simp add: Let_def)
    show ?thesis unfolding u
      using 2 \<open>blake2b_ok S\<close> by (auto simp: blake2b_ok_def blake2b_pending_def memcpy_at_def)
  next
    case 3
    let ?buf = "memcpy_at (blake_buf S) (blake_buflen S) (take ?fill inp)"
    let ?t = "counter_add (blake_t S) 128"
    let ?S = "blake2b_fill_compress S (take ?fill inp)"
    have ok: "blake_buflen S \<le> 256" "blake_f S = (0, 0)" using \<open>blake2b_ok S\<close> by (simp_all add: blake2b_ok_def)
    note fb = blake2b_full_buffer [OF \<open>blake2b_ok S\<close> 3]
    have S': "?S = S\<lparr>blake_h := blake2b_compress_h (blake_h S) ?t (blake_f S) ?buf, blake_t := ?t,
      blake_buf := memcpy_at ?buf 0 (slice 128 128 ?buf), blake_buflen := 128\<rparr>"
      using ok 3 by (simp add: blake2b_fill_compress_def Let_def blake2b_increment_counter_def blake2b_compress_ref_def)
    have ne: "inp \<noteq> []" using 3 by auto
    have u: "blake2b_update S inp = blake2b_update ?S (drop ?fill inp)"
      using 3 ne by (subst blake2b_update.simps) (simp add: Let_def)
    have ok': "blake2b_ok ?S" using \<open>blake2b_ok S\<close> fb(2) by (simp add: S' blake2b_ok_def)
    have whole: "?buf @ drop ?fill inp @ x = blake2b_pending S @ inp @ x"
      unfolding fb(1) append_assoc append_assoc [symmetric, of "take _ _"] append_take_drop_id ..
    have pend: "blake2b_pending ?S @ drop ?fill inp @ x = drop 128 (blake2b_pending S @ inp @ x)"
    proof -
      have "blake2b_pending ?S = slice 128 128 ?buf" using fb(2) by (simp add: S' blake2b_pending_def) (simp add: memcpy_at_def)
      then have "blake2b_pending ?S @ drop ?fill inp @ x = drop 128 ?buf @ drop ?fill inp @ x" using fb(2) by (simp add: slice_def)
      also have "\<dots> = drop 128 (?buf @ drop ?fill inp @ x)" using fb(2) by simp
      finally show ?thesis unfolding whole .
    qed
    have t128: "take 128 (blake2b_pending S @ inp @ x) = take 128 ?buf"
    proof -
      have "take 128 (blake2b_pending S @ inp @ x) = take 128 (?buf @ drop ?fill inp @ x)" unfolding whole ..
      then show ?thesis using fb(2) by simp
    qed
    have "128 < length (blake2b_pending S @ inp @ x)"
      using 3 ok \<open>blake2b_ok S\<close> by (simp add: blake2b_pending_def blake2b_ok_def)
    from blake2b_hash_step [OF this, of "blake_h S" "blake_t S"]
    have "blake2b_hash (blake_h S) (blake_t S) (blake2b_pending S @ inp @ x)
        = blake2b_hash (blake_h ?S) (blake_t ?S) (blake2b_pending ?S @ drop ?fill inp @ x)"
      unfolding pend t128 using fb(2) ok by (simp add: S' blake2b_compress_take)
    moreover have "blake2b_ok (blake2b_update ?S (drop ?fill inp)) \<and>
      blake2b_hash (blake_h (blake2b_update ?S (drop ?fill inp))) (blake_t (blake2b_update ?S (drop ?fill inp)))
        (blake2b_pending (blake2b_update ?S (drop ?fill inp)) @ x) =
      blake2b_hash (blake_h ?S) (blake_t ?S) (blake2b_pending ?S @ drop ?fill inp @ x)"
      using "1.IH"(1) [OF _ refl] 3 ne ok' by simp
    ultimately show ?thesis unfolding u by simp
  qed
qed


lemma blake2b_final_hash:
  assumes "blake2b_ok S" "outlen \<noteq> 0" "unat outlen \<le> 64"
  shows "blake2b_final S outlen =
    Some (Some (take (unat outlen) (concat (map store64_le (blake2b_hash (blake_h S) (blake_t S) (blake2b_pending S))))))"
proof -
  have f: "blake_f S = (0, 0)" "blake_last_node S = 0" and len: "length (blake_buf S) = 256" and bl: "blake_buflen S \<le> 256"
    using assms(1) by (simp_all add: blake2b_ok_def)
  have words: "concat (map (\<lambda>i. store64_le (h ! i)) [0..<8]) = concat (map store64_le h)" if "length h = 8" for h
    using that by (metis map_map map_nth comp_apply list.map_cong)
  define S1 where "S1 = (if blake_buflen S > 128 then
      S\<lparr>blake_h := blake2b_compress_h (blake_h S) (counter_add (blake_t S) 128) (0, 0) (blake_buf S),
        blake_t := counter_add (blake_t S) 128, blake_buflen := blake_buflen S - 128,
        blake_buf := memcpy_at (blake_buf S) 0 (slice 128 (blake_buflen S - 128) (blake_buf S))\<rparr> else S)"
  have S1: "length (blake_buf S1) = 256" "blake_buflen S1 \<le> 128" "blake_f S1 = (0, 0)" "blake_last_node S1 = 0"
    using f len bl by (auto simp: S1_def)
  have h1: "blake2b_hash (blake_h S) (blake_t S) (blake2b_pending S) = blake2b_hash (blake_h S1) (blake_t S1) (blake2b_pending S1)"
  proof (cases "blake_buflen S > 128")
    case True
    have "blake2b_pending S1 = drop 128 (blake2b_pending S)"
      using True len bl by (simp add: S1_def blake2b_pending_def memcpy_at_def slice_def drop_take)
    moreover have "blake2b_compress_h h t g (take 128 (blake2b_pending S)) = blake2b_compress_h h t g (blake_buf S)" for h t g
      using True len by (simp add: blake2b_pending_def min_def blake2b_compress_take)
    ultimately show ?thesis
      using True len bl by (simp add: blake2b_hash_step blake2b_pending_def [of S] S1_def)
  qed (simp add: S1_def)
  let ?pad = "memcpy_at (blake_buf S1) (blake_buflen S1) (zeros (256 - blake_buflen S1))"
  have "take 128 ?pad = blake2b_pending S1 @ zeros (128 - length (blake2b_pending S1))"
    using S1 by (simp add: memcpy_at_def blake2b_pending_def zeros_def min_def)
  moreover have "128 \<le> length ?pad" "length (blake2b_pending S1) = blake_buflen S1" using S1 by (simp_all add: blake2b_pending_def)
  ultimately have h2: "blake2b_hash (blake_h S1) (blake_t S1) (blake2b_pending S1)
      = blake2b_compress_h (blake_h S1) (counter_add (blake_t S1) (word_of_nat (blake_buflen S1))) (-1, 0) ?pad"
    using S1(2) blake2b_compress_take [of ?pad] by (simp add: blake2b_hash_last)
  have "blake2b_final S outlen = Some (Some (take (unat outlen) (concat (map (\<lambda>i. store64_le
      (blake2b_compress_h (blake_h S1) (counter_add (blake_t S1) (word_of_nat (blake_buflen S1))) (-1, 0) ?pad ! i)) [0..<8]))))"
    using assms(2,3) f by (simp add: blake2b_final_def Let_def blake2b_is_lastblock_def S1_def blake2b_set_lastblock_def
        blake2b_increment_counter_def blake2b_compress_ref_def)
  then show ?thesis unfolding h1 h2 by (simp only: words length_blake2b_compress_h)
qed

lemma blake2b_init_h:
  "blake2b_init_param (blake2b_param ol kl) = blake2b_init0\<lparr>blake_h :=
     map (\<lambda>i. blake2b_IV ! i XOR le64_read (drop (8 * i) ([ol, kl, 1, 1] @ zeros 60))) [0..<8]\<rparr>"
proof -
  have "blake2b_param ol kl = [ol, kl, 1, 1] @ zeros 60"
    by (simp add: blake2b_param_def store32_le_def store64_le_def Let_def zeros_def numeral_eq_Suc)
  then show ?thesis by (simp add: blake2b_init_param_def Let_def blake2b_init0_def sodium_le_eqs)
qed

lemma blake2b_init0_ok: "blake2b_ok (blake2b_init0\<lparr>blake_h := h\<rparr>)" "blake2b_pending (blake2b_init0\<lparr>blake_h := h\<rparr>) = []"
  by (simp_all add: blake2b_ok_def blake2b_pending_def blake2b_init0_def)

lemma crypto_generichash_eq:
  assumes "0 < outlen" "outlen \<le> 64" "length key \<le> 64" "length inp < 2 ^ 64"
    and "kp = (if key = [] then None else Some key)"
  shows "crypto_generichash out outlen (Some inp) (length inp) kp (length key) = Some (Some (blake2b_spec outlen key inp))"
proof -
  have o: "unat (word_of_nat outlen :: u8) = outlen" "(word_of_nat outlen :: u8) \<noteq> 0"
    using assms by (simp_all add: unat_of_nat word_unat_eq_iff)
  have k: "unat (word_of_nat (length key) :: u8) = length key"
    using assms by (simp add: unat_of_nat)
  define h0 where "h0 = map (\<lambda>i. blake2b_IV ! i XOR le64_read (drop (8 * i)
      ([word_of_nat outlen, word_of_nat (length key), 1, 1] @ zeros 60))) [0..<8]"
  let ?S = "blake2b_init0\<lparr>blake_h := h0\<rparr>"
  have ih: "blake2b_init_param (blake2b_param (word_of_nat outlen) (word_of_nat (length key))) = ?S"
    unfolding blake2b_init_h h0_def ..
  let ?kb = "if key = [] then [] else key @ zeros (128 - length key)"
  define S where "S = blake2b_update ?S ?kb"
  have u: "blake2b_update ?S [] = ?S" by (subst blake2b_update.simps) simp
  have init: "(if (word_of_nat (length key) :: u8) > 0 then blake2b_init_key (word_of_nat outlen) kp (word_of_nat (length key))
      else blake2b_init (word_of_nat outlen)) = Some S"
  proof (cases "key = []")
    case True
    then show ?thesis using o assms(2) u ih by (simp add: S_def blake2b_init_def)
  next
    case False
    then have "(word_of_nat (length key) :: u8) > 0" "(word_of_nat (length key) :: u8) \<noteq> 0"
      using k by (auto simp: word_gt_0)
    moreover have "memcpy_at (zeros 128) 0 key = key @ zeros (128 - length key)" by (simp add: memcpy_at_def zeros_def)
    ultimately show ?thesis
      using False o k assms ih by (simp add: S_def blake2b_init_key_def Let_def)
  qed
  have S: "blake2b_ok (blake2b_update S inp)"
    and h: "blake2b_hash (blake_h (blake2b_update S inp)) (blake_t (blake2b_update S inp)) (blake2b_pending (blake2b_update S inp))
      = blake2b_hash (blake_h ?S) (0, 0) (?kb @ inp)"
  proof -
    have ok: "blake2b_ok S" using blake2b_update_hash [OF blake2b_init0_ok(1)] by (simp add: S_def)
    then show "blake2b_ok (blake2b_update S inp)" using blake2b_update_hash by blast
    show "blake2b_hash (blake_h (blake2b_update S inp)) (blake_t (blake2b_update S inp)) (blake2b_pending (blake2b_update S inp))
      = blake2b_hash (blake_h ?S) (0, 0) (?kb @ inp)"
    proof -
      have "blake2b_hash (blake_h S) (blake_t S) (blake2b_pending S @ inp)
          = blake2b_hash (blake_h ?S) (blake_t ?S) (blake2b_pending ?S @ ?kb @ inp)"
        unfolding S_def using blake2b_update_hash [OF blake2b_init0_ok(1)] by blast
      also have "\<dots> = blake2b_hash (blake_h ?S) (0, 0) (?kb @ inp)"
        unfolding blake2b_init0_ok(2) by (simp add: blake2b_init0_def)
      finally show ?thesis using blake2b_update_hash [OF ok, of inp "[]"] by (simp only: append_Nil2)
    qed
  qed
  have "blake2b_final (blake2b_update S inp) (word_of_nat outlen) = Some (Some (blake2b_spec outlen key inp))"
    using blake2b_final_hash [OF S o(2)] o(1) assms(2) unfolding h blake2b_spec_def Let_def
    by (simp add: sodium_le_eqs h0_def)
  moreover have "\<not> (kp = None \<and> (word_of_nat (length key) :: u8) > 0)"
    using assms(5) by (auto split: if_splits)
  ultimately have "blake2b out (Some inp) (length inp) kp (word_of_nat outlen) (word_of_nat (length key))
      = Some (blake2b_spec outlen key inp)"
    unfolding blake2b_def init using o k assms(2,3) by simp
  then show ?thesis
    using assms by (simp add: crypto_generichash_def crypto_generichash_blake2b_def)
qed

lemma length_blake2b_spec: "outlen \<le> 64 \<Longrightarrow> length (blake2b_spec outlen key data) = outlen"
  by (simp add: blake2b_spec_def Let_def length_concat_uniform [where c = 8])


section \<open>Properties\<close>



end
