(* ===== verification/Config.thy ===== *)
theory Config
  imports CLib
begin

text \<open>
  Constants of \<open>src/src/config.h\<close> and the hexadecimal form of keys of \<open>src/src/config.c\<close>.
\<close>

section \<open>Constants\<close>

definition VPN_DEFAULT_OUTER_MTU :: nat where "VPN_DEFAULT_OUTER_MTU = 1500"
definition VPN_WIRE_OVERHEAD :: nat where "VPN_WIRE_OVERHEAD = 60"
definition VPN_DEFAULT_INNER_MTU :: nat where
  "VPN_DEFAULT_INNER_MTU = VPN_DEFAULT_OUTER_MTU - VPN_WIRE_OVERHEAD"
definition VPN_MIN_IPV4_MTU :: nat where "VPN_MIN_IPV4_MTU = 576"
definition VPN_MAX_PACKET_SIZE :: nat where "VPN_MAX_PACKET_SIZE = 2048"
definition VPN_MAX_PEERS :: nat where "VPN_MAX_PEERS = 256"
definition VPN_MAX_CIDRS_PER_PEER :: nat where "VPN_MAX_CIDRS_PER_PEER = 64"
definition VPN_KEY_LEN :: nat where "VPN_KEY_LEN = 32"
definition VPN_PUBKEY_LEN :: nat where "VPN_PUBKEY_LEN = 32"
definition VPN_PRIVKEY_LEN :: nat where "VPN_PRIVKEY_LEN = 32"
definition VPN_NONCE_LEN :: nat where "VPN_NONCE_LEN = 12"
definition VPN_AUTH_TAG_LEN :: nat where "VPN_AUTH_TAG_LEN = 16"
definition VPN_DEFAULT_PORT :: u16 where "VPN_DEFAULT_PORT = 51820"
definition VPN_DEFAULT_TUN_NAME :: string where "VPN_DEFAULT_TUN_NAME = ''vpn0''"

lemmas config_consts [simp] =
  VPN_DEFAULT_OUTER_MTU_def VPN_WIRE_OVERHEAD_def VPN_DEFAULT_INNER_MTU_def VPN_MIN_IPV4_MTU_def
  VPN_MAX_PACKET_SIZE_def VPN_MAX_PEERS_def VPN_MAX_CIDRS_PER_PEER_def VPN_KEY_LEN_def
  VPN_PUBKEY_LEN_def VPN_PRIVKEY_LEN_def VPN_NONCE_LEN_def VPN_AUTH_TAG_LEN_def

section \<open>Keys in hexadecimal\<close>

text \<open>The loop over the 32 positions; it stops at the first position \<open>sscanf\<close> does not convert.\<close>

fun parse_key_loop :: "string \<Rightarrow> nat list \<Rightarrow> bytes result" where
  "parse_key_loop hex_str [] = Inr []"
| "parse_key_loop hex_str (i # is) =
     (case scan_02x (drop (i * 2) hex_str) of
        None \<Rightarrow> Inl EINVAL
      | Some byte_val \<Rightarrow>
          (case parse_key_loop hex_str is of
             Inl e \<Rightarrow> Inl e
           | Inr key \<Rightarrow> Inr (ucast byte_val # key)))"

definition config_parse_key_hex :: "string option \<Rightarrow> bytes result" where
  "config_parse_key_hex hex_str =
     (case hex_str of None \<Rightarrow> Inl EINVAL
      | Some s \<Rightarrow> if length s \<noteq> 64 then Inl EINVAL else parse_key_loop s [0..<32])"

text \<open>Each byte is printed by \<open>snprintf\<close> into three characters, the NUL included.\<close>

definition config_key_to_hex :: "bytes option \<Rightarrow> string result" where
  "config_key_to_hex key =
     (case key of None \<Rightarrow> Inl EINVAL
      | Some k \<Rightarrow> Inr (concat (map (\<lambda>i. snd (snprintf 3 (print_02x (k ! i)))) [0..<32])))"

section \<open>Lemmas\<close>

lemma length_print_02x [simp]: "length (print_02x b) = 2"
  by (simp add: print_02x_def)

lemma snprintf_print_02x [simp]: "snd (snprintf 3 (print_02x b)) = print_02x b"
  by (simp add: snprintf_def)

lemma config_key_to_hex_concat:
  assumes "length k = 32"
  shows "config_key_to_hex (Some k) = Inr (concat (map print_02x k))"
proof -
  have "map (\<lambda>i. print_02x (k ! i)) [0..<32] = map print_02x k"
    using assms by (intro nth_equalityI) auto
  then show ?thesis by (simp add: config_key_to_hex_def)
qed

lemma drop_concat_pairs:
  assumes "\<And>b. length (f b) = 2"
  shows "drop (i * 2) (concat (map f k)) = concat (map f (drop i k))"
proof (induction k arbitrary: i)
  case (Cons b k)
  then show ?case using assms by (cases i) simp_all
qed simp

lemma ucast_u8_u32 [simp]: "ucast (ucast b :: u32) = (b :: u8)"
  by (rule bit_word_eqI) (simp add: bit_simps)

lemma parse_key_loop_concat:
  assumes "\<And>b. length (f b) = 2" "\<And>b rest. b \<in> set k \<Longrightarrow> scan_02x (f b @ rest) = Some (ucast b)"
  shows "set is \<subseteq> {0..<length k} \<Longrightarrow> parse_key_loop (concat (map f k)) is = Inr (map ((!) k) is)"
proof (induction "is")
  case (Cons i "is")
  then have "i < length k" by simp
  then have "drop i k = k ! i # drop (Suc i) k" "k ! i \<in> set k" by (simp_all add: Cons_nth_drop_Suc)
  then have "scan_02x (drop (i * 2) (concat (map f k))) = Some (ucast (k ! i))"
    by (simp add: drop_concat_pairs assms)
  then show ?case using Cons by simp
qed simp

lemma config_parse_key_hex_pairs:
  assumes "\<And>b. length (f b) = 2" "\<And>b rest. b \<in> set k \<Longrightarrow> scan_02x (f b @ rest) = Some (ucast b)"
    and len: "length k = 32"
  shows "config_parse_key_hex (Some (concat (map f k))) = Inr k"
proof -
  have "parse_key_loop (concat (map f k)) [0..<32] = Inr (map ((!) k) [0..<32])"
    using assms by (intro parse_key_loop_concat) auto
  also have "map ((!) k) [0..<32] = k" using len by (metis map_nth)
  finally show ?thesis
    using assms by (simp add: config_parse_key_hex_def length_concat comp_def sum_list_triv)
qed

lemma strtoul_value_1: "strtoul_value False (Suc 0) = 1"
  by (simp add: strtoul_value_def)

lemma scan_02x_plus_1: "scan_02x (''+1'' @ rest) = Some 1"
  by (cases rest) (simp_all add: scan_02x_def scan_sign_def is_space_def is_xdigit_def is_digit_def hex_value_def
      xdigit_val_def strtoul_value_1 numeral_eq_Suc)

section \<open>Properties\<close>

text \<open>
  C39: printing a 32-byte key and parsing the text gives the key back, and the text has 64 characters.
\<close>

theorem config_key_hex_roundtrip:
  assumes "length key = VPN_KEY_LEN"
  shows "\<exists>s. config_key_to_hex (Some key) = Inr s \<and> length s = 64 \<and> config_parse_key_hex (Some s) = Inr key"
proof (intro exI conjI)
  show "config_key_to_hex (Some key) = Inr (concat (map print_02x key))"
    using assms by (simp add: config_key_to_hex_concat)
  show "length (concat (map print_02x key)) = 64"
    using assms by (simp add: length_concat comp_def sum_list_triv)
  show "config_parse_key_hex (Some (concat (map print_02x key))) = Inr key"
    using assms by (intro config_parse_key_hex_pairs) (simp_all add: scan_02x_print_02x)
qed

theorem config_key_hex_roundtrip_witness:
  "\<exists>s. config_key_to_hex (Some (replicate 32 0xA5)) = Inr s \<and> length s = 64
     \<and> config_parse_key_hex (Some s) = Inr (replicate 32 0xA5)"
  by (rule config_key_hex_roundtrip) simp

text \<open>
  The parser takes more than hexadecimal digits: a text of 64 characters in which every pair is
  a sign and a digit is accepted as a key.
\<close>

theorem config_parse_key_hex_accepts_signs:
  "config_parse_key_hex (Some (concat (replicate 32 ''+1''))) = Inr (replicate 32 1)
     \<and> \<not> is_xdigit CHR ''+''"
proof -
  have "concat (replicate 32 ''+1'') = concat (map (\<lambda>_. ''+1'') (replicate 32 (1 :: u8)))" by simp
  then show ?thesis
    using config_parse_key_hex_pairs [of "\<lambda>_. ''+1''" "replicate 32 1"] scan_02x_plus_1
    by (simp add: is_xdigit_def is_digit_def)
qed

end
