(* ===== verification/Crypto.thy ===== *)
theory Crypto
  imports Aead Blake2b Config
begin

text \<open>
  The wrappers of \<open>src/src/crypto.c\<close>.  Randomness is an argument: the bytes that \<open>randombytes_buf\<close>
  delivers.  The X25519 functions of libsodium are a parameter, the record \<open>x25519\<close>.  A call that ends
  in \<open>sodium_misuse\<close> has the error \<open>SODIUM_MISUSE\<close>.
\<close>

unbundle bit_operations_syntax

section \<open>Model\<close>

text \<open>The result of \<open>sodium_init\<close> is an argument.\<close>

definition vpn_crypto_init :: "int \<Rightarrow> unit result" where
  "vpn_crypto_init sodium_init_rc = (if sodium_init_rc < 0 then Inl EFAULT else Inr ())"

definition vpn_crypto_random_bytes :: "bytes option \<Rightarrow> nat \<Rightarrow> bytes \<Rightarrow> bytes option" where
  "vpn_crypto_random_bytes buf len rnd =
     (case buf of None \<Rightarrow> None
      | Some b \<Rightarrow> if len > 0 then Some (memcpy_at b 0 (take len rnd)) else Some b)"

definition vpn_crypto_memzero :: "bytes option \<Rightarrow> nat \<Rightarrow> bytes option" where
  "vpn_crypto_memzero p len =
     (case p of None \<Rightarrow> None
      | Some b \<Rightarrow> if len > 0 then Some (memcpy_at b 0 (sodium_memzero (take len b))) else Some b)"

definition vpn_crypto_memcmp :: "bytes option \<Rightarrow> bytes option \<Rightarrow> nat \<Rightarrow> int" where
  "vpn_crypto_memcmp b1 b2 len =
     (case (b1, b2) of (Some x, Some y) \<Rightarrow> sodium_memcmp x y len | _ \<Rightarrow> -1)"

definition vpn_crypto_format_nonce :: "u64 \<Rightarrow> bytes" where
  "vpn_crypto_format_nonce counter =
     (let nonce = memcpy_at (zeros VPN_NONCE_LEN) 0 (zeros 4) in memcpy_at nonce 4 (le64_write counter))"

definition vpn_crypto_aead_encrypt ::
  "bytes option \<Rightarrow> bytes option \<Rightarrow> nat \<Rightarrow> bytes \<Rightarrow> u64 \<Rightarrow> bytes option \<Rightarrow> (bytes option \<times> bytes) result" where
  "vpn_crypto_aead_encrypt ciphertext plaintext plaintext_len ad counter key =
     (case key of None \<Rightarrow> Inl EINVAL
      | Some k \<Rightarrow>
          if plaintext_len > 0 \<and> (ciphertext = None \<or> plaintext = None) then Inl EINVAL
          else
            let nonce = vpn_crypto_format_nonce counter;
                p_in = (if plaintext_len > 0 then take plaintext_len (the plaintext) else [])
            in case crypto_aead_chacha20poly1305_ietf_encrypt_detached p_in ad nonce k of
                 None \<Rightarrow> Inl SODIUM_MISUSE
               | Some (c, mac) \<Rightarrow>
                   Inr (if plaintext_len > 0 then Some (memcpy_at (the ciphertext) 0 c) else ciphertext, mac))"

text \<open>The result is the return code and the output buffer after the call.\<close>

definition vpn_crypto_aead_decrypt ::
  "bytes option \<Rightarrow> bytes option \<Rightarrow> nat \<Rightarrow> bytes option \<Rightarrow> bytes \<Rightarrow> u64 \<Rightarrow> bytes option
   \<Rightarrow> unit result \<times> bytes option" where
  "vpn_crypto_aead_decrypt plaintext ciphertext ciphertext_len mac ad counter key =
     (case (mac, key) of
        (Some t, Some k) \<Rightarrow>
          if ciphertext_len > 0 \<and> (ciphertext = None \<or> plaintext = None) then (Inl EINVAL, plaintext)
          else
            let nonce = vpn_crypto_format_nonce counter;
                p_out = (if ciphertext_len > 0 then the plaintext else []);
                c_in = (if ciphertext_len > 0 then take ciphertext_len (the ciphertext) else [])
            in (case crypto_aead_chacha20poly1305_ietf_decrypt_detached (Some p_out) c_in t ad nonce k of
                  None \<Rightarrow> (Inl SODIUM_MISUSE, plaintext)
                | Some (rc, m) \<Rightarrow>
                    (if rc \<noteq> 0 then Inl EBADMSG else Inr (), if ciphertext_len > 0 then m else plaintext))
      | _ \<Rightarrow> (Inl EINVAL, plaintext))"

text \<open>
  X25519: \<open>mult\<close> fails on points of small order; \<open>mult_base\<close> gives the public key and always returns 0.
\<close>

record x25519 =
  x_mult :: "bytes \<Rightarrow> bytes \<Rightarrow> bytes option"
  x_mult_base :: "bytes \<Rightarrow> bytes"

definition crypto_scalarmult :: "x25519 \<Rightarrow> bytes \<Rightarrow> bytes \<Rightarrow> int \<times> bytes" where
  "crypto_scalarmult X n p =
     (case x_mult X n p of None \<Rightarrow> (-1, [])
      | Some q \<Rightarrow>
          let d = fold (\<lambda>i d. d OR q ! i) [0..<32] (0 :: u8)
          in (- (1 AND drop_bit 8 (uint d - 1)), q))"

definition crypto_box_keypair :: "x25519 \<Rightarrow> bytes \<Rightarrow> int \<times> bytes \<times> bytes" where
  "crypto_box_keypair X rnd = (let sk = take 32 rnd in (0, x_mult_base X sk, sk))"

definition vpn_crypto_generate_keypair :: "x25519 \<Rightarrow> bytes \<Rightarrow> (bytes \<times> bytes) result" where
  "vpn_crypto_generate_keypair X rnd =
     (case crypto_box_keypair X rnd of (rc, pk, sk) \<Rightarrow> if rc \<noteq> 0 then Inl EFAULT else Inr (pk, sk))"

definition vpn_crypto_dh :: "x25519 \<Rightarrow> bytes option \<Rightarrow> bytes option \<Rightarrow> bytes result" where
  "vpn_crypto_dh X their_public_key my_private_key =
     (case (their_public_key, my_private_key) of
        (Some p, Some n) \<Rightarrow>
          (case crypto_scalarmult X n p of (rc, q) \<Rightarrow> if rc \<noteq> 0 then Inl EBADMSG else Inr q)
      | _ \<Rightarrow> Inl EINVAL)"

text \<open>A digest written into an array that held \<open>out\<close> before.\<close>

definition generichash_rc :: "bytes \<Rightarrow> nat \<Rightarrow> bytes option \<Rightarrow> nat \<Rightarrow> bytes option \<Rightarrow> nat \<Rightarrow> bytes result" where
  "generichash_rc out outlen inp inlen key keylen =
     (case crypto_generichash out outlen inp inlen key keylen of
        None \<Rightarrow> Inl SODIUM_MISUSE | Some None \<Rightarrow> Inl EFAULT | Some (Some digest) \<Rightarrow> Inr digest)"

definition vpn_crypto_hash :: "bytes option \<Rightarrow> nat \<Rightarrow> bytes result" where
  "vpn_crypto_hash inp in_len =
     (if inp = None \<and> in_len > 0 then Inl EINVAL
      else let p_in = (if in_len > 0 then inp else Some [0])
           in generichash_rc (zeros 32) 32 p_in in_len None 0)"

definition vpn_crypto_mac16 :: "bytes option \<Rightarrow> nat \<Rightarrow> bytes option \<Rightarrow> nat \<Rightarrow> bytes result" where
  "vpn_crypto_mac16 key key_len inp in_len =
     (if key = None \<or> key_len = 0 \<or> inp = None \<and> in_len > 0 then Inl EINVAL
      else let p_in = (if in_len > 0 then inp else Some [0])
           in generichash_rc (zeros 16) 16 p_in in_len key key_len)"

section \<open>The interface of authenticated encryption\<close>

text \<open>
  What the other components rely on.  \<open>seal\<close> returns the ciphertext and the tag, \<open>opn\<close> the plaintext
  if the tag is right.
\<close>

locale aead_scheme =
  fixes seal :: "bytes \<Rightarrow> u64 \<Rightarrow> bytes \<Rightarrow> bytes \<Rightarrow> bytes \<times> bytes"
    and opn :: "bytes \<Rightarrow> u64 \<Rightarrow> bytes \<Rightarrow> bytes \<Rightarrow> bytes \<Rightarrow> bytes option"
    and limit :: nat
  assumes open_seal: "length p \<le> limit \<Longrightarrow> seal k n ad p = (c, t) \<Longrightarrow> opn k n ad c t = Some p"
    and open_is_seal: "length c \<le> limit \<Longrightarrow> length t = 16 \<Longrightarrow> opn k n ad c t = Some p \<Longrightarrow> seal k n ad p = (c, t)"
    and one_tag: "length c \<le> limit \<Longrightarrow> length t = 16 \<Longrightarrow> length t' = 16 \<Longrightarrow>
      opn k n ad c t = Some p \<Longrightarrow> opn k n ad c t' = Some p' \<Longrightarrow> t = t'"
    and seal_length: "length p \<le> limit \<Longrightarrow> seal k n ad p = (c, t) \<Longrightarrow> length c = length p \<and> length t = 16"
begin

lemma seal_inj: "length p \<le> limit \<Longrightarrow> length p' \<le> limit \<Longrightarrow> seal k n ad p = seal k n ad p' \<Longrightarrow> p = p'"
  by (metis open_seal option.inject surj_pair)

lemma open_inj:
  assumes "length c \<le> limit" "length c' \<le> limit" "length t = 16" "length t' = 16"
    and "opn k n ad c t = Some p" "opn k n ad c' t' = Some p"
  shows "c = c' \<and> t = t'"
  using open_is_seal [OF assms(1,3,5)] open_is_seal [OF assms(2,4,6)] by simp

text \<open>A change of the tag alone is always detected.\<close>

lemma other_tag_rejected:
  assumes "length c \<le> limit" "length t = 16" "length t' = 16" "opn k n ad c t = Some p" "t' \<noteq> t"
  shows "opn k n ad c t' = None"
proof (rule ccontr)
  assume "opn k n ad c t' \<noteq> None"
  then obtain p' where "opn k n ad c t' = Some p'" by blast
  then show False using one_tag [OF assms(1-4)] assms(5) by blast
qed

end

section \<open>Lemmas\<close>

definition aead_limit :: nat where
  "aead_limit = 64 * (2 ^ 32 - 1)"

definition vpn_seal :: "bytes \<Rightarrow> u64 \<Rightarrow> bytes \<Rightarrow> bytes \<Rightarrow> bytes \<times> bytes" where
  "vpn_seal key counter ad p =
     (case vpn_crypto_aead_encrypt (Some (zeros (length p))) (Some p) (length p) ad counter (Some key) of
        Inr (Some c, t) \<Rightarrow> (c, t) | _ \<Rightarrow> ([], []))"

definition vpn_open :: "bytes \<Rightarrow> u64 \<Rightarrow> bytes \<Rightarrow> bytes \<Rightarrow> bytes \<Rightarrow> bytes option" where
  "vpn_open key counter ad c t =
     (case vpn_crypto_aead_decrypt (Some (zeros (length c))) (Some c) (length c) (Some t) ad counter (Some key) of
        (Inr _, Some p) \<Rightarrow> Some p | _ \<Rightarrow> None)"

abbreviation vpn_stream :: "bytes \<Rightarrow> u64 \<Rightarrow> bytes \<Rightarrow> bytes" where
  "vpn_stream key counter p \<equiv> stream_ietf_ext_ref_xor_ic p (vpn_crypto_format_nonce counter) 1 key"

abbreviation vpn_tag :: "bytes \<Rightarrow> u64 \<Rightarrow> bytes \<Rightarrow> bytes \<Rightarrow> bytes" where
  "vpn_tag key counter ad c \<equiv> aead_tag (vpn_crypto_format_nonce counter) key ad c"

lemma vpn_encrypt_eq:
  assumes "length p \<le> aead_limit"
  shows "vpn_crypto_aead_encrypt (Some buf) (Some p) (length p) ad counter (Some key) =
    Inr (Some (memcpy_at buf 0 (vpn_stream key counter p)), vpn_tag key counter ad (vpn_stream key counter p))"
  using aead_encrypt_eq [of p] assms
  by (auto simp: vpn_crypto_aead_encrypt_def Let_def aead_limit_def memcpy_at_def stream_ietf_ext_ref_xor_ic_def)

lemma vpn_decrypt_eq:
  assumes "length c \<le> aead_limit" "length t = 16"
  shows "vpn_crypto_aead_decrypt (Some buf) (Some c) (length c) (Some t) ad counter (Some key) =
    (if t = vpn_tag key counter ad c then (Inr (), Some (memcpy_at buf 0 (vpn_stream key counter c)))
     else (Inl EBADMSG, Some (memcpy_at buf 0 (zeros (length c)))))"
  using aead_decrypt_eq [of c t] assms
  by (auto simp: vpn_crypto_aead_decrypt_def Let_def aead_limit_def memcpy_at_def stream_ietf_ext_ref_xor_ic_def zeros_def)

lemma vpn_seal_eq:
  "length p \<le> aead_limit \<Longrightarrow> vpn_seal key n ad p = (vpn_stream key n p, vpn_tag key n ad (vpn_stream key n p))"
  by (simp add: vpn_seal_def vpn_encrypt_eq memcpy_at_def)

lemma vpn_open_eq:
  "length c \<le> aead_limit \<Longrightarrow> length t = 16 \<Longrightarrow>
   vpn_open key n ad c t = (if t = vpn_tag key n ad c then Some (vpn_stream key n c) else None)"
  by (simp add: vpn_open_def vpn_decrypt_eq memcpy_at_def)

interpretation vpn_aead: aead_scheme vpn_seal vpn_open aead_limit
proof unfold_locales
  fix k n ad p c t assume "length p \<le> aead_limit" "vpn_seal k n ad p = (c, t)"
  then show "vpn_open k n ad c t = Some p" "length c = length p \<and> length t = 16"
    by (auto simp: vpn_seal_eq vpn_open_eq stream_ietf_involution)
next
  fix k n ad p c t assume "length c \<le> aead_limit" "length t = 16" "vpn_open k n ad c t = Some p"
  then show "vpn_seal k n ad p = (c, t)"
    by (auto simp: vpn_seal_eq vpn_open_eq stream_ietf_involution split: if_splits)
next
  fix k n ad c t t' p p'
  assume "length c \<le> aead_limit" "length t = 16" "length t' = 16"
    "vpn_open k n ad c t = Some p" "vpn_open k n ad c t' = Some p'"
  then show "t = t'" by (simp add: vpn_open_eq split: if_splits)
qed

lemma vpn_crypto_format_nonce_eq: "vpn_crypto_format_nonce counter = zeros 4 @ le64_write counter"
  by (simp add: vpn_crypto_format_nonce_def memcpy_at_def Let_def zeros_def)

lemma crypto_generichash_take:
  "crypto_generichash out outlen (Some inp) n key keylen = crypto_generichash out outlen (Some (take n inp)) n key keylen"
  by (simp add: crypto_generichash_def crypto_generichash_blake2b_def blake2b_def cong: option.case_cong)

lemma generichash_rc_eq:
  assumes "0 < outlen" "outlen \<le> 64" "length key \<le> 64" "n < 2 ^ 64" "n \<le> length inp"
    "kp = (if key = [] then None else Some key)" "kl = length key"
  shows "generichash_rc out outlen (Some inp) n kp kl = Inr (blake2b_spec outlen key (take n inp))"
  using crypto_generichash_eq [of outlen key "take n inp" kp out] assms crypto_generichash_take [of out outlen inp n kp kl]
  by (simp add: generichash_rc_def)

lemma vpn_crypto_hash_eq:
  assumes "n < 2 ^ 64" "n \<le> length inp"
  shows "vpn_crypto_hash (Some inp) n = Inr (blake2b_spec 32 [] (take n inp))"
  using assms generichash_rc_eq [of 32 "[]" n inp None 0] generichash_rc_eq [of 32 "[]" 0 "[0]" None 0]
  by (cases "n = 0") (simp_all add: vpn_crypto_hash_def Let_def)

lemma vpn_crypto_mac16_eq:
  assumes "n < 2 ^ 64" "n \<le> length inp" "0 < length key" "length key \<le> 64"
  shows "vpn_crypto_mac16 (Some key) (length key) (Some inp) n = Inr (blake2b_spec 16 key (take n inp))"
  using assms generichash_rc_eq [of 16 key n inp "Some key" "length key"]
    generichash_rc_eq [of 16 key 0 "[0]" "Some key" "length key"]
  by (cases "n = 0") (auto simp: vpn_crypto_mac16_def Let_def)

lemma crypto_scalarmult_zero:
  assumes "x_mult X n p = Some q" "length q = 32"
  shows "crypto_scalarmult X n p = (if q = zeros 32 then -1 else 0, q)"
proof -
  define d where "d = fold (\<lambda>i d. d OR q ! i) [0..<32] (0 :: u8)"
  have "d = 0 \<longleftrightarrow> q = zeros 32"
    unfolding d_def fold_or_eq_0 using assms(2) by (auto simp: list_eq_iff_nth_eq zeros_def)
  then show ?thesis
    using assms(1) by (simp add: crypto_scalarmult_def Let_def d_def [symmetric] zero_mask)
qed

section \<open>Properties\<close>

text \<open>
  C13: what \<open>vpn_crypto_aead_encrypt\<close> produces, \<open>vpn_crypto_aead_decrypt\<close> takes back: with the same key,
  counter and additional data it succeeds and the plaintext is in the output buffer, whose other bytes
  are untouched.
\<close>

theorem vpn_aead_roundtrip:
  assumes "length p \<le> aead_limit" "length p \<le> length cbuf" "length p \<le> length pbuf"
  shows "\<exists>cbuf' t. vpn_crypto_aead_encrypt (Some cbuf) (Some p) (length p) ad counter (Some key) = Inr (Some cbuf', t)
    \<and> length t = VPN_AUTH_TAG_LEN \<and> drop (length p) cbuf' = drop (length p) cbuf
    \<and> vpn_crypto_aead_decrypt (Some pbuf) (Some (take (length p) cbuf')) (length p) (Some t) ad counter (Some key)
        = (Inr (), Some (p @ drop (length p) pbuf))"
  using assms vpn_decrypt_eq [of "vpn_stream key counter p" _ pbuf ad counter key]
  by (simp add: vpn_encrypt_eq memcpy_at_def stream_ietf_involution)

theorem vpn_aead_roundtrip_witness:
  "\<exists>cbuf' t. vpn_crypto_aead_encrypt (Some (replicate 100 9)) (Some (replicate 60 5)) (length (replicate 60 (5 :: u8)))
        [1, 2] 7 (Some (replicate 32 3)) = Inr (Some cbuf', t)
    \<and> vpn_crypto_aead_decrypt (Some (replicate 80 0)) (Some (take 60 cbuf')) 60 (Some t) [1, 2] 7 (Some (replicate 32 3))
        = (Inr (), Some (replicate 60 5 @ replicate 20 0))"
  using vpn_aead_roundtrip [of "replicate 60 5" "replicate 100 9" "replicate 80 0" "[1, 2]" 7 "replicate 32 3"]
  by (auto simp: aead_limit_def)



text \<open>
  The nonce is 12 bytes and determines the counter, so distinct counters have distinct nonces.
\<close>

theorem vpn_crypto_format_nonce_inj:
  "length (vpn_crypto_format_nonce a) = VPN_NONCE_LEN
   \<and> (vpn_crypto_format_nonce a = vpn_crypto_format_nonce b \<longleftrightarrow> a = b)"
  using le64_write_inj [of a b] by (auto simp: vpn_crypto_format_nonce_eq)

end
