(* ===== verification/Kdf.thy ===== *)
theory Kdf
  imports Crypto
begin

text \<open>
  The key derivation functions of \<open>src/src/kdf.c\<close>.  They ignore the return code of
  \<open>crypto_generichash\<close>; if it is -1, the output array keeps its contents.
\<close>

section \<open>Model\<close>

definition generichash_into :: "bytes \<Rightarrow> nat \<Rightarrow> bytes option \<Rightarrow> nat \<Rightarrow> bytes option \<Rightarrow> nat \<Rightarrow> bytes result" where
  "generichash_into out outlen inp inlen key keylen =
     (case crypto_generichash out outlen inp inlen key keylen of
        None \<Rightarrow> Inl SODIUM_MISUSE | Some None \<Rightarrow> Inr out | Some (Some digest) \<Rightarrow> Inr digest)"

definition vpn_kdf1 :: "bytes \<Rightarrow> bytes option \<Rightarrow> nat \<Rightarrow> bytes result" where
  "vpn_kdf1 key inp inp_len =
     rbind (generichash_into (zeros VPN_KEY_LEN) VPN_KEY_LEN inp inp_len (Some key) VPN_KEY_LEN) (\<lambda>prk.
     generichash_into (zeros VPN_KEY_LEN) VPN_KEY_LEN (Some [0x01]) 1 (Some prk) VPN_KEY_LEN)"

definition vpn_kdf2 :: "bytes \<Rightarrow> bytes option \<Rightarrow> nat \<Rightarrow> (bytes \<times> bytes) result" where
  "vpn_kdf2 key inp inp_len =
     rbind (generichash_into (zeros VPN_KEY_LEN) VPN_KEY_LEN inp inp_len (Some key) VPN_KEY_LEN) (\<lambda>prk.
     rbind (generichash_into (zeros VPN_KEY_LEN) VPN_KEY_LEN (Some [0x01]) 1 (Some prk) VPN_KEY_LEN) (\<lambda>out1.
     let buf = memcpy_at (zeros (VPN_KEY_LEN + 1)) 0 (take VPN_KEY_LEN out1);
         buf = buf[VPN_KEY_LEN := 0x02]
     in rbind (generichash_into (zeros VPN_KEY_LEN) VPN_KEY_LEN (Some buf) (VPN_KEY_LEN + 1) (Some prk) VPN_KEY_LEN) (\<lambda>out2.
     Inr (out1, out2))))"

definition vpn_kdf3 :: "bytes \<Rightarrow> bytes option \<Rightarrow> nat \<Rightarrow> (bytes \<times> bytes \<times> bytes) result" where
  "vpn_kdf3 key inp inp_len =
     rbind (generichash_into (zeros VPN_KEY_LEN) VPN_KEY_LEN inp inp_len (Some key) VPN_KEY_LEN) (\<lambda>prk.
     rbind (generichash_into (zeros VPN_KEY_LEN) VPN_KEY_LEN (Some [0x01]) 1 (Some prk) VPN_KEY_LEN) (\<lambda>out1.
     let buf = memcpy_at (zeros (VPN_KEY_LEN + 1)) 0 (take VPN_KEY_LEN out1);
         buf = buf[VPN_KEY_LEN := 0x02]
     in rbind (generichash_into (zeros VPN_KEY_LEN) VPN_KEY_LEN (Some buf) (VPN_KEY_LEN + 1) (Some prk) VPN_KEY_LEN) (\<lambda>out2.
     let buf = memcpy_at buf 0 (take VPN_KEY_LEN out2);
         buf = buf[VPN_KEY_LEN := 0x03]
     in rbind (generichash_into (zeros VPN_KEY_LEN) VPN_KEY_LEN (Some buf) (VPN_KEY_LEN + 1) (Some prk) VPN_KEY_LEN) (\<lambda>out3.
     Inr (out1, out2, out3)))))"

section \<open>The expansion as a function\<close>

definition kdf_prk :: "bytes \<Rightarrow> bytes \<Rightarrow> bytes" where
  "kdf_prk key inp = blake2b_spec 32 key inp"

definition kdf_T1 :: "bytes \<Rightarrow> bytes \<Rightarrow> bytes" where
  "kdf_T1 key inp = blake2b_spec 32 (kdf_prk key inp) [1]"

definition kdf_T2 :: "bytes \<Rightarrow> bytes \<Rightarrow> bytes" where
  "kdf_T2 key inp = blake2b_spec 32 (kdf_prk key inp) (kdf_T1 key inp @ [2])"

definition kdf_T3 :: "bytes \<Rightarrow> bytes \<Rightarrow> bytes" where
  "kdf_T3 key inp = blake2b_spec 32 (kdf_prk key inp) (kdf_T2 key inp @ [3])"

section \<open>Lemmas\<close>

lemma length_kdf [simp]:
  "length (kdf_prk key inp) = 32" "length (kdf_T1 key inp) = 32"
  "length (kdf_T2 key inp) = 32" "length (kdf_T3 key inp) = 32"
  by (simp_all add: kdf_prk_def kdf_T1_def kdf_T2_def kdf_T3_def length_blake2b_spec)

lemma generichash_into_eq:
  assumes "length key = 32" "n < 2 ^ 64" "n = length inp"
  shows "generichash_into out 32 (Some inp) n (Some key) 32 = Inr (blake2b_spec 32 key inp)"
proof -
  have "key \<noteq> []" using assms(1) by auto
  then show ?thesis
    using crypto_generichash_eq [of 32 key inp "Some key" out] assms by (simp add: generichash_into_def)
qed

lemma generichash_into_None:
  "generichash_into out outlen None 0 key keylen = generichash_into out outlen (Some []) 0 key keylen"
  by (simp add: generichash_into_def crypto_generichash_def crypto_generichash_blake2b_def blake2b_def
      cong: option.case_cong)

lemma kdf_buf:
  "length x = 32 \<Longrightarrow> (memcpy_at (zeros 33) 0 x)[32 := b] = x @ [b]"
  "length x = 32 \<Longrightarrow> length y = 32 \<Longrightarrow> (memcpy_at (y @ [c]) 0 x)[32 := b] = x @ [b]"
  by (simp_all add: memcpy_at_def list_update_append zeros_def)

lemma kdf_eqs:
  assumes "length key = 32" "length inp < 2 ^ 64"
  shows "vpn_kdf1 key (Some inp) (length inp) = Inr (kdf_T1 key inp)"
    and "vpn_kdf2 key (Some inp) (length inp) = Inr (kdf_T1 key inp, kdf_T2 key inp)"
    and "vpn_kdf3 key (Some inp) (length inp) = Inr (kdf_T1 key inp, kdf_T2 key inp, kdf_T3 key inp)"
proof -
  note g = generichash_into_eq [OF assms refl, folded kdf_prk_def]
  have t: "generichash_into out 32 (Some [1]) (Suc 0) (Some (kdf_prk key inp)) 32 = Inr (kdf_T1 key inp)" for out
    unfolding kdf_T1_def by (rule generichash_into_eq) simp_all
  have u: "generichash_into out 32 (Some (kdf_T1 key inp @ [2])) 33 (Some (kdf_prk key inp)) 32 = Inr (kdf_T2 key inp)" for out
    unfolding kdf_T2_def by (rule generichash_into_eq) simp_all
  have v: "generichash_into out 32 (Some (kdf_T2 key inp @ [3])) 33 (Some (kdf_prk key inp)) 32 = Inr (kdf_T3 key inp)" for out
    unfolding kdf_T3_def by (rule generichash_into_eq) simp_all
  show "vpn_kdf1 key (Some inp) (length inp) = Inr (kdf_T1 key inp)"
    by (simp add: vpn_kdf1_def g t)
  show "vpn_kdf2 key (Some inp) (length inp) = Inr (kdf_T1 key inp, kdf_T2 key inp)"
    by (simp add: vpn_kdf2_def g t u kdf_buf)
  show "vpn_kdf3 key (Some inp) (length inp) = Inr (kdf_T1 key inp, kdf_T2 key inp, kdf_T3 key inp)"
    by (simp add: vpn_kdf3_def g t u v kdf_buf)
qed

lemma vpn_kdf2_None: "vpn_kdf2 key None 0 = vpn_kdf2 key (Some []) 0"
  by (simp add: vpn_kdf2_def generichash_into_None)

section \<open>Properties\<close>

text \<open>
  C21: with a chaining key of 32 bytes the three functions compute the extract-and-expand chain PRK, T1,
  T2, T3 over keyed BLAKE2b, each output 32 bytes, so that they agree on the outputs they share.
\<close>

theorem vpn_kdf_extract_expand:
  assumes "length key = VPN_KEY_LEN" "length inp < 2 ^ 64"
  shows "vpn_kdf1 key (Some inp) (length inp) = Inr (kdf_T1 key inp)
    \<and> vpn_kdf2 key (Some inp) (length inp) = Inr (kdf_T1 key inp, kdf_T2 key inp)
    \<and> vpn_kdf3 key (Some inp) (length inp) = Inr (kdf_T1 key inp, kdf_T2 key inp, kdf_T3 key inp)
    \<and> length (kdf_T1 key inp) = VPN_KEY_LEN \<and> length (kdf_T2 key inp) = VPN_KEY_LEN \<and> length (kdf_T3 key inp) = VPN_KEY_LEN"
  using kdf_eqs [of key inp] assms by simp

theorem vpn_kdf_extract_expand_witness:
  "vpn_kdf2 (replicate 32 5) (Some [1, 2, 3]) (length [1, 2, 3 :: u8])
     = Inr (kdf_T1 (replicate 32 5) [1, 2, 3], kdf_T2 (replicate 32 5) [1, 2, 3])"
  using vpn_kdf_extract_expand [of "replicate 32 5" "[1, 2, 3]"] by simp

end
