(* ===== verification/Packet.thy ===== *)
theory Packet
  imports Endian Config
begin

text \<open>
  The wire format of \<open>src/src/packet.h\<close> and \<open>src/src/packet.c\<close>: the packet types, the three message
  structures, and their parsers and serialisers.  A buffer with its length is one list.  The
  serialisers take the buffer they write into and return the number of bytes written and the buffer.
  The pointers of a parsed data packet into the receive buffer are the bytes they point at.
\<close>

section \<open>Types and sizes\<close>

datatype packet_type_t = PACKET_TYPE_INVALID | PACKET_TYPE_HANDSHAKE_INIT
  | PACKET_TYPE_HANDSHAKE_RESP | PACKET_TYPE_DATA | PACKET_TYPE_KEEPALIVE

fun packet_type_code :: "packet_type_t \<Rightarrow> u8" where
  "packet_type_code PACKET_TYPE_INVALID = 0x00"
| "packet_type_code PACKET_TYPE_HANDSHAKE_INIT = 0x01"
| "packet_type_code PACKET_TYPE_HANDSHAKE_RESP = 0x02"
| "packet_type_code PACKET_TYPE_DATA = 0x03"
| "packet_type_code PACKET_TYPE_KEEPALIVE = 0x04"

definition PACKET_HANDSHAKE_INIT_LEN :: nat where "PACKET_HANDSHAKE_INIT_LEN = 148"
definition PACKET_HANDSHAKE_RESP_LEN :: nat where "PACKET_HANDSHAKE_RESP_LEN = 92"
definition PACKET_DATA_HEADER_LEN :: nat where "PACKET_DATA_HEADER_LEN = 16"
definition PACKET_DATA_MIN_LEN :: nat where "PACKET_DATA_MIN_LEN = PACKET_DATA_HEADER_LEN + VPN_AUTH_TAG_LEN"
definition PACKET_DATA_MAX_PAYLOAD :: nat where "PACKET_DATA_MAX_PAYLOAD = VPN_DEFAULT_INNER_MTU"
definition PACKET_DATA_MAX_LEN :: nat where
  "PACKET_DATA_MAX_LEN = PACKET_DATA_MIN_LEN + PACKET_DATA_MAX_PAYLOAD"

lemmas packet_consts [simp] = PACKET_HANDSHAKE_INIT_LEN_def PACKET_HANDSHAKE_RESP_LEN_def
  PACKET_DATA_HEADER_LEN_def PACKET_DATA_MIN_LEN_def PACKET_DATA_MAX_PAYLOAD_def PACKET_DATA_MAX_LEN_def

record packet_handshake_init_t =
  hi_sender_index :: u32
  hi_unencrypted_ephemeral :: bytes
  hi_encrypted_static :: bytes
  hi_encrypted_timestamp :: bytes
  hi_mac1 :: bytes
  hi_mac2 :: bytes

record packet_handshake_resp_t =
  hr_sender_index :: u32
  hr_receiver_index :: u32
  hr_unencrypted_ephemeral :: bytes
  hr_encrypted_nothing :: bytes
  hr_mac1 :: bytes
  hr_mac2 :: bytes

record packet_data_t =
  pd_receiver_index :: u32
  pd_counter :: u64
  pd_ciphertext :: "bytes option"
  pd_ciphertext_len :: nat
  pd_auth_tag :: bytes

text \<open>The array sizes of the structures.\<close>

definition init_wf :: "packet_handshake_init_t \<Rightarrow> bool" where
  "init_wf m \<longleftrightarrow> length (hi_unencrypted_ephemeral m) = 32 \<and> length (hi_encrypted_static m) = 48
     \<and> length (hi_encrypted_timestamp m) = 28 \<and> length (hi_mac1 m) = 16 \<and> length (hi_mac2 m) = 16"

definition resp_wf :: "packet_handshake_resp_t \<Rightarrow> bool" where
  "resp_wf m \<longleftrightarrow> length (hr_unencrypted_ephemeral m) = 32 \<and> length (hr_encrypted_nothing m) = 16
     \<and> length (hr_mac1 m) = 16 \<and> length (hr_mac2 m) = 16"

definition data_wf :: "packet_data_t \<Rightarrow> bool" where
  "data_wf m \<longleftrightarrow> pd_ciphertext_len m \<le> PACKET_DATA_MAX_PAYLOAD \<and> length (pd_auth_tag m) = VPN_AUTH_TAG_LEN
     \<and> (case pd_ciphertext m of None \<Rightarrow> pd_ciphertext_len m = 0
        | Some c \<Rightarrow> 0 < pd_ciphertext_len m \<and> length c = pd_ciphertext_len m)"

section \<open>Parsers and serialisers\<close>

definition packet_peek_type :: "bytes option \<Rightarrow> packet_type_t" where
  "packet_peek_type buf =
     (case buf of None \<Rightarrow> PACKET_TYPE_INVALID
      | Some b \<Rightarrow>
          if length b < 1 then PACKET_TYPE_INVALID
          else if b ! 0 = packet_type_code PACKET_TYPE_HANDSHAKE_INIT then PACKET_TYPE_HANDSHAKE_INIT
          else if b ! 0 = packet_type_code PACKET_TYPE_HANDSHAKE_RESP then PACKET_TYPE_HANDSHAKE_RESP
          else if b ! 0 = packet_type_code PACKET_TYPE_DATA then PACKET_TYPE_DATA
          else if b ! 0 = packet_type_code PACKET_TYPE_KEEPALIVE then PACKET_TYPE_KEEPALIVE
          else PACKET_TYPE_INVALID)"

definition packet_parse_handshake_init :: "bytes option \<Rightarrow> packet_handshake_init_t result" where
  "packet_parse_handshake_init buf =
     (case buf of None \<Rightarrow> Inl EINVAL
      | Some b \<Rightarrow>
          if length b \<noteq> PACKET_HANDSHAKE_INIT_LEN then Inl EBADMSG
          else if b ! 0 \<noteq> packet_type_code PACKET_TYPE_HANDSHAKE_INIT then Inl EBADMSG
          else Inr \<lparr>hi_sender_index = le32_read (drop 4 b),
                    hi_unencrypted_ephemeral = slice 8 32 b,
                    hi_encrypted_static = slice 40 48 b,
                    hi_encrypted_timestamp = slice 88 28 b,
                    hi_mac1 = slice 116 16 b,
                    hi_mac2 = slice 132 16 b\<rparr>)"

definition packet_serialize_handshake_init ::
  "bytes option \<Rightarrow> packet_handshake_init_t option \<Rightarrow> (nat \<times> bytes) result" where
  "packet_serialize_handshake_init buf msg =
     (case (buf, msg) of
        (Some b, Some m) \<Rightarrow>
          if length b < PACKET_HANDSHAKE_INIT_LEN then Inl EINVAL
          else
            let b = memcpy_at b 0 (zeros PACKET_HANDSHAKE_INIT_LEN);
                b = b[0 := packet_type_code PACKET_TYPE_HANDSHAKE_INIT];
                b = memcpy_at b 4 (le32_write (hi_sender_index m));
                b = memcpy_at b 8 (hi_unencrypted_ephemeral m);
                b = memcpy_at b 40 (hi_encrypted_static m);
                b = memcpy_at b 88 (hi_encrypted_timestamp m);
                b = memcpy_at b 116 (hi_mac1 m);
                b = memcpy_at b 132 (hi_mac2 m)
            in Inr (PACKET_HANDSHAKE_INIT_LEN, b)
      | _ \<Rightarrow> Inl EINVAL)"

definition packet_parse_handshake_resp :: "bytes option \<Rightarrow> packet_handshake_resp_t result" where
  "packet_parse_handshake_resp buf =
     (case buf of None \<Rightarrow> Inl EINVAL
      | Some b \<Rightarrow>
          if length b \<noteq> PACKET_HANDSHAKE_RESP_LEN then Inl EBADMSG
          else if b ! 0 \<noteq> packet_type_code PACKET_TYPE_HANDSHAKE_RESP then Inl EBADMSG
          else Inr \<lparr>hr_sender_index = le32_read (drop 4 b),
                    hr_receiver_index = le32_read (drop 8 b),
                    hr_unencrypted_ephemeral = slice 12 32 b,
                    hr_encrypted_nothing = slice 44 16 b,
                    hr_mac1 = slice 60 16 b,
                    hr_mac2 = slice 76 16 b\<rparr>)"

definition packet_serialize_handshake_resp ::
  "bytes option \<Rightarrow> packet_handshake_resp_t option \<Rightarrow> (nat \<times> bytes) result" where
  "packet_serialize_handshake_resp buf msg =
     (case (buf, msg) of
        (Some b, Some m) \<Rightarrow>
          if length b < PACKET_HANDSHAKE_RESP_LEN then Inl EINVAL
          else
            let b = memcpy_at b 0 (zeros PACKET_HANDSHAKE_RESP_LEN);
                b = b[0 := packet_type_code PACKET_TYPE_HANDSHAKE_RESP];
                b = memcpy_at b 4 (le32_write (hr_sender_index m));
                b = memcpy_at b 8 (le32_write (hr_receiver_index m));
                b = memcpy_at b 12 (hr_unencrypted_ephemeral m);
                b = memcpy_at b 44 (hr_encrypted_nothing m);
                b = memcpy_at b 60 (hr_mac1 m);
                b = memcpy_at b 76 (hr_mac2 m)
            in Inr (PACKET_HANDSHAKE_RESP_LEN, b)
      | _ \<Rightarrow> Inl EINVAL)"

definition packet_parse_data :: "bytes option \<Rightarrow> packet_data_t result" where
  "packet_parse_data buf =
     (case buf of None \<Rightarrow> Inl EINVAL
      | Some b \<Rightarrow>
          if length b < PACKET_DATA_MIN_LEN then Inl EBADMSG
          else if length b > PACKET_DATA_MAX_LEN then Inl EMSGSIZE
          else if b ! 0 \<noteq> packet_type_code PACKET_TYPE_DATA
                \<and> b ! 0 \<noteq> packet_type_code PACKET_TYPE_KEEPALIVE then Inl EBADMSG
          else
            let ciphertext_len = length b - PACKET_DATA_MIN_LEN
            in Inr \<lparr>pd_receiver_index = le32_read (drop 4 b),
                    pd_counter = le64_read (drop 8 b),
                    pd_ciphertext =
                      (if ciphertext_len > 0 then Some (slice PACKET_DATA_HEADER_LEN ciphertext_len b) else None),
                    pd_ciphertext_len = ciphertext_len,
                    pd_auth_tag = slice (PACKET_DATA_HEADER_LEN + ciphertext_len) VPN_AUTH_TAG_LEN b\<rparr>)"

definition packet_serialize_data ::
  "bytes option \<Rightarrow> u32 \<Rightarrow> u64 \<Rightarrow> bytes option \<Rightarrow> nat \<Rightarrow> bytes option \<Rightarrow> (nat \<times> bytes) result" where
  "packet_serialize_data buf receiver_index counter ciphertext ciphertext_len auth_tag =
     (case (buf, auth_tag) of
        (Some b, Some tag) \<Rightarrow>
          if ciphertext_len > 0 \<and> ciphertext = None then Inl EINVAL
          else
            let total_len = PACKET_DATA_HEADER_LEN + ciphertext_len + VPN_AUTH_TAG_LEN
            in if length b < total_len then Inl ENOSPC
               else
                 let b = memcpy_at b 0 (zeros PACKET_DATA_HEADER_LEN);
                     b = b[0 := (if ciphertext_len = 0 then packet_type_code PACKET_TYPE_KEEPALIVE
                                 else packet_type_code PACKET_TYPE_DATA)];
                     b = memcpy_at b 4 (le32_write receiver_index);
                     b = memcpy_at b 8 (le64_write counter);
                     b = (if ciphertext_len > 0
                          then memcpy_at b PACKET_DATA_HEADER_LEN (take ciphertext_len (the ciphertext)) else b);
                     b = memcpy_at b (PACKET_DATA_HEADER_LEN + ciphertext_len) (take VPN_AUTH_TAG_LEN tag)
                 in Inr (total_len, b)
      | _ \<Rightarrow> Inl EINVAL)"

section \<open>The layout as a specification\<close>

definition init_wire :: "packet_handshake_init_t \<Rightarrow> bytes" where
  "init_wire m = [1, 0, 0, 0] @ le32_write (hi_sender_index m) @ hi_unencrypted_ephemeral m
     @ hi_encrypted_static m @ hi_encrypted_timestamp m @ hi_mac1 m @ hi_mac2 m"

definition resp_wire :: "packet_handshake_resp_t \<Rightarrow> bytes" where
  "resp_wire m = [2, 0, 0, 0] @ le32_write (hr_sender_index m) @ le32_write (hr_receiver_index m)
     @ hr_unencrypted_ephemeral m @ hr_encrypted_nothing m @ hr_mac1 m @ hr_mac2 m"

definition data_wire :: "packet_data_t \<Rightarrow> bytes" where
  "data_wire m = [if pd_ciphertext_len m = 0 then 4 else 3, 0, 0, 0] @ le32_write (pd_receiver_index m)
     @ le64_write (pd_counter m) @ (case pd_ciphertext m of None \<Rightarrow> [] | Some c \<Rightarrow> c) @ pd_auth_tag m"

text \<open>
  What a message format promises its users.  From these laws follow that distinct messages have
  distinct encodings and that re-encoding a parsed message loses nothing.
\<close>

locale wire_codec =
  fixes wf :: "'m \<Rightarrow> bool" and wire :: "'m \<Rightarrow> bytes" and parse :: "bytes option \<Rightarrow> 'm result"
    and accepts :: "bytes \<Rightarrow> bool" and code :: "u8 set"
  assumes parse_wire: "wf m \<Longrightarrow> parse (Some (wire m)) = Inr m"
    and parse_wf: "parse (Some b) = Inr m \<Longrightarrow> wf m"
    and parse_accepts: "(\<exists>m. parse (Some b) = Inr m) \<longleftrightarrow> accepts b"
    and accepts_code: "accepts b \<Longrightarrow> b \<noteq> [] \<and> b ! 0 \<in> code"
begin

lemma wire_inj: "wf m \<Longrightarrow> wf m' \<Longrightarrow> wire m = wire m' \<Longrightarrow> m = m'"
  by (metis parse_wire sum.inject(2))

lemma wire_accepted: "wf m \<Longrightarrow> accepts (wire m)"
  using parse_wire parse_accepts by blast

lemma reparse: "parse (Some b) = Inr m \<Longrightarrow> parse (Some (wire m)) = Inr m"
  by (simp add: parse_wf parse_wire)

lemma not_code_rejected: "b \<noteq> [] \<Longrightarrow> b ! 0 \<notin> code \<Longrightarrow> \<exists>e. parse (Some b) = Inl e"
  using parse_accepts [of b] accepts_code [of b] by (cases "parse (Some b)") auto

end

section \<open>Lemmas\<close>

lemma zeros_header: "4 \<le> n \<Longrightarrow> (zeros n @ rest)[0 := x] = [x, 0, 0, 0] @ zeros (n - 4) @ rest"
proof -
  assume "4 \<le> n"
  then obtain k where n: "n = 4 + k" using le_Suc_ex by blast
  show ?thesis by (simp add: n zeros_def numeral_eq_Suc)
qed

lemma zeros_0 [simp]: "zeros 0 = []" by (simp add: zeros_def)

lemma serialize_init_wire:
  assumes "init_wf m" "148 \<le> length b"
  shows "packet_serialize_handshake_init (Some b) (Some m) = Inr (148, init_wire m @ drop 148 b)"
proof -
  have "packet_serialize_handshake_init (Some b) (Some m) =
    Inr (148, (((((([1, 0, 0, 0] @ le32_write (hi_sender_index m)) @ hi_unencrypted_ephemeral m)
      @ hi_encrypted_static m) @ hi_encrypted_timestamp m) @ hi_mac1 m) @ hi_mac2 m) @ zeros 0 @ drop 148 b)"
    using assms
    by (simp add: packet_serialize_handshake_init_def init_wf_def Let_def memcpy_zeros zeros_header
      memcpy_fill length_le_write del: append_assoc append.simps)
  then show ?thesis by (simp add: init_wire_def)
qed

lemma serialize_resp_wire:
  assumes "resp_wf m" "92 \<le> length b"
  shows "packet_serialize_handshake_resp (Some b) (Some m) = Inr (92, resp_wire m @ drop 92 b)"
proof -
  have "packet_serialize_handshake_resp (Some b) (Some m) =
    Inr (92, (((((([2, 0, 0, 0] @ le32_write (hr_sender_index m)) @ le32_write (hr_receiver_index m))
      @ hr_unencrypted_ephemeral m) @ hr_encrypted_nothing m) @ hr_mac1 m) @ hr_mac2 m) @ zeros 0 @ drop 92 b)"
    using assms
    by (simp add: packet_serialize_handshake_resp_def resp_wf_def Let_def memcpy_zeros zeros_header
      memcpy_fill length_le_write del: append_assoc append.simps)
  then show ?thesis by (simp add: resp_wire_def)
qed

lemma serialize_data_wire:
  assumes "ct = None \<longrightarrow> n = 0" "length (case ct of None \<Rightarrow> [] | Some c \<Rightarrow> c) = n" "length tag = 16" "32 + n \<le> length b"
  shows "packet_serialize_data (Some b) ri ctr ct n (Some tag) =
    Inr (32 + n, data_wire \<lparr>pd_receiver_index = ri, pd_counter = ctr, pd_ciphertext = ct, pd_ciphertext_len = n,
      pd_auth_tag = tag\<rparr> @ drop (32 + n) b)"
proof -
  let ?h = "(([if n = 0 then 4 else 3, 0, 0, 0] @ le32_write ri) @ le64_write ctr)"
  have hdr: "memcpy_at (memcpy_at ((memcpy_at b 0 (zeros 16))[0 := (if n = 0 then 4 else 3)]) 4 (le32_write ri)) 8 (le64_write ctr)
    = ?h @ zeros 0 @ drop 16 b" (is "?b1 = _")
    using assms by (simp add: memcpy_zeros zeros_header memcpy_fill length_le_write del: append_assoc append.simps)
  have body: "(if n > 0 then memcpy_at ?b1 16 (take n (the ct)) else ?b1)
     = (?h @ (case ct of None \<Rightarrow> [] | Some c \<Rightarrow> c)) @ drop (16 + n) b" (is "?b2 = ?r2")
  proof (cases ct)
    case None
    then show ?thesis using assms hdr by simp
  next
    case (Some c)
    have "memcpy_at (?h @ drop 16 b) 16 c = (?h @ c) @ drop (length c) (drop 16 b)"
      by (rule memcpy_over) (simp add: length_le_write)
    then show ?thesis using assms hdr Some by (cases "n = 0") (simp_all add: add.commute)
  qed
  have "memcpy_at ?r2 (16 + n) tag = ((?h @ (case ct of None \<Rightarrow> [] | Some c \<Rightarrow> c)) @ tag) @ drop (length tag) (drop (16 + n) b)"
    by (rule memcpy_over) (use assms in \<open>simp add: length_le_write\<close>)
  then have tag: "memcpy_at ?b2 (16 + n) tag = ((?h @ (case ct of None \<Rightarrow> [] | Some c \<Rightarrow> c)) @ tag) @ drop (32 + n) b"
    unfolding body using assms(3) by (simp add: add.commute add.left_commute)
  have "packet_serialize_data (Some b) ri ctr ct n (Some tag) = Inr (32 + n, memcpy_at ?b2 (16 + n) tag)"
    using assms by (auto simp add: packet_serialize_data_def Let_def)
  then show ?thesis unfolding tag by (simp add: data_wire_def)
qed

lemmas wire_slice_simps = slice_def length_le_write le32_read_write le64_read_write

lemma parse_init_wire: "init_wf m \<Longrightarrow> packet_parse_handshake_init (Some (init_wire m)) = Inr m"
  by (simp add: packet_parse_handshake_init_def init_wf_def init_wire_def wire_slice_simps)

lemma parse_resp_wire: "resp_wf m \<Longrightarrow> packet_parse_handshake_resp (Some (resp_wire m)) = Inr m"
  by (simp add: packet_parse_handshake_resp_def resp_wf_def resp_wire_def wire_slice_simps)

lemma drop_data_header:
  "length a = n \<Longrightarrow> drop (16 + n) (x # y # z # w # le32_write r @ le64_write c @ a @ t) = t"
  using drop_append_exact [of "x # y # z # w # le32_write r @ le64_write c @ a" "16 + n" t]
  by (simp add: length_le_write)

lemma parse_data_wire: "data_wf m \<Longrightarrow> packet_parse_data (Some (data_wire m)) = Inr m"
  by (cases "pd_ciphertext m")
    (simp_all add: packet_parse_data_def data_wf_def data_wire_def wire_slice_simps drop_data_header Let_def)

text \<open>The buffers each parser accepts.\<close>

definition init_accepts :: "bytes \<Rightarrow> bool" where
  "init_accepts b \<longleftrightarrow> length b = 148 \<and> b ! 0 = 1"

definition resp_accepts :: "bytes \<Rightarrow> bool" where
  "resp_accepts b \<longleftrightarrow> length b = 92 \<and> b ! 0 = 2"

definition data_accepts :: "bytes \<Rightarrow> bool" where
  "data_accepts b \<longleftrightarrow> 32 \<le> length b \<and> length b \<le> 1472 \<and> (b ! 0 = 3 \<or> b ! 0 = 4)"

interpretation init_codec: wire_codec init_wf init_wire packet_parse_handshake_init init_accepts "{1}"
proof unfold_locales
qed (simp_all add: parse_init_wire, auto simp: packet_parse_handshake_init_def init_wf_def init_accepts_def Let_def split: if_splits)

interpretation resp_codec: wire_codec resp_wf resp_wire packet_parse_handshake_resp resp_accepts "{2}"
proof unfold_locales
qed (simp_all add: parse_resp_wire, auto simp: packet_parse_handshake_resp_def resp_wf_def resp_accepts_def Let_def split: if_splits)

interpretation data_codec: wire_codec data_wf data_wire packet_parse_data data_accepts "{3, 4}"
proof unfold_locales
qed (simp_all add: parse_data_wire, auto simp: packet_parse_data_def data_wf_def data_accepts_def Let_def split: if_splits)


lemma peek_type_dispatch:
  "init_accepts b \<Longrightarrow> packet_peek_type (Some b) = PACKET_TYPE_HANDSHAKE_INIT"
  "resp_accepts b \<Longrightarrow> packet_peek_type (Some b) = PACKET_TYPE_HANDSHAKE_RESP"
  "data_accepts b \<Longrightarrow> packet_peek_type (Some b) \<in> {PACKET_TYPE_DATA, PACKET_TYPE_KEEPALIVE}"
  by (auto simp: init_accepts_def resp_accepts_def data_accepts_def packet_peek_type_def)

lemma wire_lengths:
  "init_wf m \<Longrightarrow> length (init_wire m) = 148"
  "resp_wf r \<Longrightarrow> length (resp_wire r) = 92"
  "data_wf d \<Longrightarrow> length (data_wire d) = 32 + pd_ciphertext_len d"
  by (auto simp: init_wf_def init_wire_def resp_wf_def resp_wire_def data_wf_def data_wire_def
      length_le_write split: option.splits)

section \<open>Properties\<close>

text \<open>
  C27: serialising a handshake message into a buffer that is long enough writes exactly 148 bytes (initiation) or
  92 bytes (response) in the documented layout, leaves the bytes behind them alone, and the parser reads the
  message back.
\<close>

theorem packet_handshake_roundtrip:
  assumes "init_wf m" "PACKET_HANDSHAKE_INIT_LEN \<le> length buf" "resp_wf r" "PACKET_HANDSHAKE_RESP_LEN \<le> length obuf"
  shows "(\<exists>buf'. packet_serialize_handshake_init (Some buf) (Some m) = Inr (PACKET_HANDSHAKE_INIT_LEN, buf')
      \<and> take PACKET_HANDSHAKE_INIT_LEN buf' = init_wire m
      \<and> drop PACKET_HANDSHAKE_INIT_LEN buf' = drop PACKET_HANDSHAKE_INIT_LEN buf
      \<and> packet_parse_handshake_init (Some (take PACKET_HANDSHAKE_INIT_LEN buf')) = Inr m)
    \<and> (\<exists>buf'. packet_serialize_handshake_resp (Some obuf) (Some r) = Inr (PACKET_HANDSHAKE_RESP_LEN, buf')
      \<and> take PACKET_HANDSHAKE_RESP_LEN buf' = resp_wire r
      \<and> drop PACKET_HANDSHAKE_RESP_LEN buf' = drop PACKET_HANDSHAKE_RESP_LEN obuf
      \<and> packet_parse_handshake_resp (Some (take PACKET_HANDSHAKE_RESP_LEN buf')) = Inr r)"
  using assms wire_lengths(1) [OF assms(1)] wire_lengths(2) [OF assms(3)]
  by (simp add: serialize_init_wire init_codec.parse_wire serialize_resp_wire resp_codec.parse_wire)

theorem packet_handshake_roundtrip_witness:
  "\<exists>m buf buf' r obuf obuf'. packet_serialize_handshake_init (Some buf) (Some m) = Inr (PACKET_HANDSHAKE_INIT_LEN, buf')
    \<and> packet_parse_handshake_init (Some (take PACKET_HANDSHAKE_INIT_LEN buf')) = Inr m
    \<and> packet_serialize_handshake_resp (Some obuf) (Some r) = Inr (PACKET_HANDSHAKE_RESP_LEN, obuf')
    \<and> packet_parse_handshake_resp (Some (take PACKET_HANDSHAKE_RESP_LEN obuf')) = Inr r"
proof -
  define m where "m = \<lparr>hi_sender_index = 7, hi_unencrypted_ephemeral = replicate 32 1, hi_encrypted_static = replicate 48 2,
    hi_encrypted_timestamp = replicate 28 3, hi_mac1 = replicate 16 4, hi_mac2 = replicate 16 5\<rparr>"
  define r where "r = \<lparr>hr_sender_index = 7, hr_receiver_index = 8, hr_unencrypted_ephemeral = replicate 32 1,
    hr_encrypted_nothing = replicate 16 3, hr_mac1 = replicate 16 4, hr_mac2 = replicate 16 5\<rparr>"
  have "init_wf m" "PACKET_HANDSHAKE_INIT_LEN \<le> length (replicate 200 (9 :: u8))" "resp_wf r"
      "PACKET_HANDSHAKE_RESP_LEN \<le> length (replicate 92 (9 :: u8))"
    by (simp_all add: m_def r_def init_wf_def resp_wf_def)
  from packet_handshake_roundtrip [OF this] show ?thesis by blast
qed

text \<open>
  C28: serialising a ciphertext of at most 1440 bytes with its tag gives a packet that the data parser
  splits into the same index, counter, ciphertext and tag; an empty ciphertext gives a keepalive packet.
\<close>

theorem packet_data_roundtrip:
  assumes "length ct \<le> PACKET_DATA_MAX_PAYLOAD" "length tag = VPN_AUTH_TAG_LEN" "32 + length ct \<le> length buf"
  shows "\<exists>buf'. packet_serialize_data (Some buf) ri ctr (if ct = [] then None else Some ct) (length ct) (Some tag)
        = Inr (32 + length ct, buf')
    \<and> packet_peek_type (Some buf') = (if ct = [] then PACKET_TYPE_KEEPALIVE else PACKET_TYPE_DATA)
    \<and> drop (32 + length ct) buf' = drop (32 + length ct) buf
    \<and> packet_parse_data (Some (take (32 + length ct) buf')) =
        Inr \<lparr>pd_receiver_index = ri, pd_counter = ctr, pd_ciphertext = (if ct = [] then None else Some ct),
             pd_ciphertext_len = length ct, pd_auth_tag = tag\<rparr>"
proof -
  let ?m = "\<lparr>pd_receiver_index = ri, pd_counter = ctr, pd_ciphertext = (if ct = [] then None else Some ct),
             pd_ciphertext_len = length ct, pd_auth_tag = tag\<rparr>"
  have wf: "data_wf ?m" using assms by (simp add: data_wf_def)
  have "packet_serialize_data (Some buf) ri ctr (if ct = [] then None else Some ct) (length ct) (Some tag)
      = Inr (32 + length ct, data_wire ?m @ drop (32 + length ct) buf)"
    using assms by (intro serialize_data_wire) auto
  moreover have "packet_peek_type (Some (data_wire ?m @ drop (32 + length ct) buf))
      = (if ct = [] then PACKET_TYPE_KEEPALIVE else PACKET_TYPE_DATA)"
    by (simp add: packet_peek_type_def data_wire_def)
  ultimately show ?thesis
    using wire_lengths(3) [OF wf] data_codec.parse_wire [OF wf] by (intro exI [of _ "data_wire ?m @ drop (32 + length ct) buf"] conjI) simp_all
qed

theorem packet_data_roundtrip_witness:
  "\<exists>buf'. packet_serialize_data (Some (replicate 64 9)) 5 77 (Some (replicate 9 1)) 9 (Some (replicate 16 6))
        = Inr (41, buf')
    \<and> packet_parse_data (Some (take 41 buf')) =
        Inr \<lparr>pd_receiver_index = 5, pd_counter = 77, pd_ciphertext = Some (replicate 9 1),
             pd_ciphertext_len = 9, pd_auth_tag = replicate 16 6\<rparr>"
  using packet_data_roundtrip [of "replicate 9 1" "replicate 16 6" "replicate 64 9" 5 77] by auto


text \<open>
  C26: a parsed data packet partitions the buffer: a header of 16 bytes, then the ciphertext, then a tag
  of 16 bytes, with nothing left over, and the ciphertext is at most 1440 bytes.
\<close>

theorem packet_parse_data_partition:
  assumes "packet_parse_data (Some b) = Inr m"
  shows "b = take 16 b @ (case pd_ciphertext m of None \<Rightarrow> [] | Some c \<Rightarrow> c) @ pd_auth_tag m
    \<and> length (pd_auth_tag m) = VPN_AUTH_TAG_LEN \<and> pd_ciphertext_len m \<le> PACKET_DATA_MAX_PAYLOAD
    \<and> length (case pd_ciphertext m of None \<Rightarrow> [] | Some c \<Rightarrow> c) = pd_ciphertext_len m"
proof -
  have "b = take 16 b @ take (length b - 32) (drop 16 b) @ drop (16 + (length b - 32)) b"
    by (metis append_take_drop_id drop_drop add.commute)
  then show ?thesis
    using assms data_codec.parse_wf [OF assms]
    by (auto simp: packet_parse_data_def data_wf_def slice_def Let_def split: if_splits option.splits)
qed

theorem packet_parse_data_partition_witness:
  "\<exists>m. packet_parse_data (Some (3 # replicate 40 7)) = Inr m
    \<and> length (case pd_ciphertext m of None \<Rightarrow> [] | Some c \<Rightarrow> c) = pd_ciphertext_len m \<and> pd_ciphertext_len m = 9"
proof -
  have "\<exists>m. packet_parse_data (Some (3 # replicate 40 7)) = Inr m \<and> pd_ciphertext_len m = 9"
    by (simp add: packet_parse_data_def Let_def)
  then show ?thesis using packet_parse_data_partition by blast
qed

end
