(* ===== verification/Inet.thy ===== *)
theory Inet
  imports Routing
begin

text \<open>
  The address conversions \<open>inet_pton\<close> and \<open>inet_ntop\<close> of the GNU C library, which the transport and
  the TUN device call. An IPv4 address is a 32-bit word with the first octet on top, an IPv6 address
  the list of its 16 bytes.
\<close>

unbundle bit_operations_syntax

section \<open>IPv4\<close>

text \<open>
  The scan of \<open>inet_pton (AF_INET, ...)\<close>: the octets finished, the one being read, whether a digit of
  it was seen, and the number of octets begun.
\<close>

fun pton4_loop :: "string \<Rightarrow> nat list \<Rightarrow> nat \<Rightarrow> bool \<Rightarrow> nat \<Rightarrow> nat list option" where
  "pton4_loop [] tmp cur saw octets = (if octets < 4 then None else Some (tmp @ [cur]))"
| "pton4_loop (ch # src) tmp cur saw octets =
     (if is_digit ch then
        if saw \<and> cur = 0 then None
        else if cur * 10 + digit_val ch > 255 then None
        else if \<not> saw \<and> octets + 1 > 4 then None
        else pton4_loop src tmp (cur * 10 + digit_val ch) True (if saw then octets else octets + 1)
      else if ch = CHR ''.'' \<and> saw then
        if octets = 4 then None else pton4_loop src (tmp @ [cur]) 0 False octets
      else None)"

definition quad_word :: "nat list \<Rightarrow> u32" where
  "quad_word q = push_bit 24 (word_of_nat (q ! 0)) OR push_bit 16 (word_of_nat (q ! 1)) OR
     push_bit 8 (word_of_nat (q ! 2)) OR word_of_nat (q ! 3)"

definition inet_pton4 :: "string \<Rightarrow> u32 option" where
  "inet_pton4 src = map_option quad_word (pton4_loop src [] 0 False 0)"

text \<open>\<open>inet_ntop\<close> fails with \<open>ENOSPC\<close> if the text and its NUL do not fit.\<close>

definition inet_ntop4 :: "u32 \<Rightarrow> nat \<Rightarrow> string result" where
  "inet_ntop4 ip sz = (if length (ip_quad ip) + 1 > sz then Inl ENOSPC else Inr (ip_quad ip))"

section \<open>IPv6\<close>

definition word_bytes :: "nat \<Rightarrow> bytes" where
  "word_bytes v = [word_of_nat (v div 256), word_of_nat v]"

definition u32_be :: "u32 \<Rightarrow> bytes" where
  "u32_be w = [ucast (drop_bit 24 w), ucast (drop_bit 16 w), ucast (drop_bit 8 w), ucast w]"

text \<open>
  The scan of \<open>inet_pton (AF_INET6, ...)\<close>: the text from the last colon on, the bytes stored, the
  position of the double colon, and the value and number of the hexadecimal digits since the colon.
\<close>

fun pton6_loop :: "string \<Rightarrow> string \<Rightarrow> bytes \<Rightarrow> nat option \<Rightarrow> nat \<Rightarrow> nat \<Rightarrow> (bytes \<times> nat option \<times> nat \<times> nat) option" where
  "pton6_loop [] curtok tp colonp val xdigits = Some (tp, colonp, val, xdigits)"
| "pton6_loop (ch # src) curtok tp colonp val xdigits =
     (if is_xdigit ch then
        if xdigits = 4 then None
        else if val * 16 + xdigit_val ch > 0xffff then None
        else pton6_loop src curtok tp colonp (val * 16 + xdigit_val ch) (xdigits + 1)
      else if ch = CHR '':'' then
        if xdigits = 0 then
          if colonp \<noteq> None then None else pton6_loop src src tp (Some (length tp)) val xdigits
        else if src = [] then None
        else if length tp + 2 > 16 then None
        else pton6_loop src src (tp @ word_bytes val) colonp 0 0
      else if ch = CHR ''.'' \<and> length tp + 4 \<le> 16 then
        (case inet_pton4 curtok of None \<Rightarrow> None | Some ip \<Rightarrow> Some (tp @ u32_be ip, colonp, val, 0))
      else None)"

definition pton6_finish :: "bytes \<Rightarrow> nat option \<Rightarrow> bytes option" where
  "pton6_finish tp colonp =
     (case colonp of
        None \<Rightarrow> if length tp = 16 then Some tp else None
      | Some p \<Rightarrow> if length tp = 16 then None
                  else Some (take p tp @ zeros (16 - length tp) @ drop p tp))"

definition pton6_scan :: "string \<Rightarrow> bytes option" where
  "pton6_scan src =
     (case pton6_loop src src [] None 0 0 of None \<Rightarrow> None
      | Some (tp, colonp, val, xdigits) \<Rightarrow>
          if xdigits > 0 then
            if length tp + 2 > 16 then None else pton6_finish (tp @ word_bytes val) colonp
          else pton6_finish tp colonp)"

definition inet_pton6 :: "string \<Rightarrow> bytes option" where
  "inet_pton6 src =
     (case src of [] \<Rightarrow> None
      | ch # t \<Rightarrow>
          if ch = CHR '':'' then if t = [] \<or> hd t \<noteq> CHR '':'' then None else pton6_scan t
          else pton6_scan src)"

text \<open>\<open>%x\<close> of \<open>snprintf\<close>.\<close>

fun hex_string :: "nat \<Rightarrow> string" where
  "hex_string n = (if n < 16 then [xdigit_char n] else hex_string (n div 16) @ [xdigit_char (n mod 16)])"

declare hex_string.simps [simp del]

text \<open>The longest run of at least two zero words, the first of them if there are several.\<close>

definition better_run :: "(nat \<times> nat) option \<Rightarrow> nat \<times> nat \<Rightarrow> (nat \<times> nat) option" where
  "better_run best cur = (case best of None \<Rightarrow> Some cur | Some b \<Rightarrow> if snd cur > snd b then Some cur else best)"

fun best_run_loop :: "nat \<Rightarrow> nat list \<Rightarrow> (nat \<times> nat) option \<Rightarrow> (nat \<times> nat) option \<Rightarrow> (nat \<times> nat) option" where
  "best_run_loop i [] best cur = (case cur of None \<Rightarrow> best | Some c \<Rightarrow> better_run best c)"
| "best_run_loop i (w # ws) best cur =
     (if w = 0 then best_run_loop (Suc i) ws best (Some (case cur of None \<Rightarrow> (i, 1) | Some (b, l) \<Rightarrow> (b, Suc l)))
      else best_run_loop (Suc i) ws (case cur of None \<Rightarrow> best | Some c \<Rightarrow> better_run best c) None)"

definition best_run :: "nat list \<Rightarrow> (nat \<times> nat) option" where
  "best_run ws = (case best_run_loop 0 ws None None of None \<Rightarrow> None
     | Some (b, l) \<Rightarrow> if l < 2 then None else Some (b, l))"

definition in_run :: "(nat \<times> nat) option \<Rightarrow> nat \<Rightarrow> bool" where
  "in_run best i = (case best of None \<Rightarrow> False | Some (b, l) \<Rightarrow> b \<le> i \<and> i < b + l)"

definition embeds_ipv4 :: "(nat \<times> nat) option \<Rightarrow> nat list \<Rightarrow> bool" where
  "embeds_ipv4 best ws = (case best of None \<Rightarrow> False
     | Some (b, l) \<Rightarrow> b = 0 \<and> (l = 6 \<or> l = 5 \<and> ws ! 5 = 0xffff))"

fun ntop6_loop :: "nat list \<Rightarrow> (nat \<times> nat) option \<Rightarrow> nat list \<Rightarrow> string" where
  "ntop6_loop ws best [] = []"
| "ntop6_loop ws best (i # is) =
     (if in_run best i then (if i = fst (the best) then '':'' else []) @ ntop6_loop ws best is
      else (if i \<noteq> 0 then '':'' else []) @
        (if i = 6 \<and> embeds_ipv4 best ws then ip_quad (word_of_nat (ws ! 6 * 65536 + ws ! 7))
         else hex_string (ws ! i) @ ntop6_loop ws best is))"

definition words_of :: "bytes \<Rightarrow> nat list" where
  "words_of a = map (\<lambda>i. unat (a ! (2 * i)) * 256 + unat (a ! (2 * i + 1))) [0..<8]"

definition ntop6_text :: "bytes \<Rightarrow> string" where
  "ntop6_text a =
     (let ws = words_of a; best = best_run ws
      in ntop6_loop ws best [0..<8] @
         (case best of None \<Rightarrow> [] | Some (b, l) \<Rightarrow> if b + l = 8 then '':'' else []))"

definition inet_ntop6 :: "bytes \<Rightarrow> nat \<Rightarrow> string result" where
  "inet_ntop6 a sz = (if length (ntop6_text a) + 1 > sz then Inl ENOSPC else Inr (ntop6_text a))"

section \<open>Lemmas\<close>

lemma pton4_octet:
  assumes "n < 256" "octets < 4"
  shows "pton4_loop (dec_string n @ rest) tmp 0 False octets = pton4_loop rest tmp n True (Suc octets)"
  using assms
proof (induction n arbitrary: rest rule: dec_string.induct)
  case (1 n)
  show ?case
  proof (cases "n < 10")
    case True
    then show ?thesis using 1 by (simp add: dec_string.simps [of n])
  next
    case False
    then have "n div 10 * 10 + n mod 10 = n" "n div 10 \<noteq> 0" by simp_all
    then show ?thesis using False 1 by (simp add: dec_string.simps [of n])
  qed
qed

lemma pton4_dot: "octets < 4 \<Longrightarrow> pton4_loop (CHR ''.'' # rest) tmp cur True octets = pton4_loop rest (tmp @ [cur]) 0 False octets"
  by (simp add: is_digit_def)

lemma pton4_last: "pton4_loop [] tmp cur True 4 = Some (tmp @ [cur])"
  by simp

lemma inet_pton4_ip_quad [simp]: "inet_pton4 (ip_quad ip) = Some ip"
proof -
  have "pton4_loop (ip_quad ip) [] 0 False 0 =
    Some [unat (drop_bit 24 ip AND 0xFF), unat (drop_bit 16 ip AND 0xFF), unat (drop_bit 8 ip AND 0xFF), unat (ip AND 0xFF)]"
    using pton4_octet [of "unat (ip AND 0xFF)" "Suc (Suc (Suc 0))" "[]"]
    by (simp add: ip_quad_def pton4_octet pton4_dot unat_octet_less del: pton4_loop.simps(2))
  then show ?thesis
    by (simp add: inet_pton4_def quad_word_def octets_recombine del: push_bit_and)
qed

lemma inet_ntop4_fits [simp]: "inet_ntop4 ip 16 = Inr (ip_quad ip)"
  using length_ip_quad [of ip] by (simp add: inet_ntop4_def)

text \<open>Hexadecimal groups.\<close>

lemma length_hex_string: "n < 16 ^ k \<Longrightarrow> 0 < k \<Longrightarrow> length (hex_string n) \<le> k"
proof (induction k arbitrary: n)
  case (Suc k)
  show ?case
  proof (cases "n < 16")
    case True
    then show ?thesis by (simp add: hex_string.simps [of n])
  next
    case False
    then have "0 < k" using Suc.prems(1) by (cases k) auto
    moreover have "n div 16 < 16 ^ k" using Suc.prems(1) by (simp add: less_mult_imp_div_less mult.commute)
    ultimately show ?thesis using False Suc.IH [of "n div 16"] by (simp add: hex_string.simps [of n])
  qed
qed simp

lemma hex_string_not_Nil [simp]: "hex_string n \<noteq> []"
  by (simp add: hex_string.simps [of n])

lemma hex_string_xdigits: "c \<in> set (hex_string n) \<Longrightarrow> is_xdigit c"
proof (induction n rule: hex_string.induct)
  case (1 n)
  then show ?case using xdigit_cases [of n] xdigit_cases [of "n mod 16"]
    by (auto simp: hex_string.simps [of n] split: if_splits)
qed

lemma pton6_group:
  assumes "n < 65536"
  shows "pton6_loop (hex_string n @ rest) curtok tp colonp 0 0 = pton6_loop rest curtok tp colonp n (length (hex_string n))"
  using assms
proof (induction n arbitrary: rest rule: hex_string.induct)
  case (1 n)
  show ?case
  proof (cases "n < 16")
    case True
    then show ?thesis using 1 xdigit_cases [of n] by (simp add: hex_string.simps [of n])
  next
    case False
    have "n div 16 * 16 + n mod 16 = n" by simp
    moreover have "length (hex_string (n div 16)) \<le> 3"
      using 1 by (intro length_hex_string) (simp_all add: less_mult_imp_div_less)
    ultimately show ?thesis using False 1 xdigit_cases [of "n mod 16"] by (simp add: hex_string.simps [of n])
  qed
qed

lemma not_xdigit_colon [simp]: "\<not> is_xdigit CHR '':''" "\<not> is_xdigit CHR ''.''"
  by (simp_all add: is_xdigit_def is_digit_def)

lemma pton6_steps:
  "n < 65536 \<Longrightarrow> length tp \<le> 14 \<Longrightarrow> rest \<noteq> [] \<Longrightarrow>
     pton6_loop (hex_string n @ CHR '':'' # rest) curtok tp colonp 0 0 = pton6_loop rest rest (tp @ word_bytes n) colonp 0 0"
  "pton6_loop (CHR '':'' # rest) curtok tp None 0 0 = pton6_loop rest rest tp (Some (length tp)) 0 0"
  "n < 65536 \<Longrightarrow> pton6_loop (hex_string n) curtok tp colonp 0 0 = Some (tp, colonp, n, length (hex_string n))"
  using pton6_group [of n "[]"] by (simp_all add: pton6_group)


lemma pton6_hex_start: "inet_pton6 (hex_string n @ rest) = pton6_scan (hex_string n @ rest)"
proof -
  obtain c cs where c: "hex_string n = c # cs" by (cases "hex_string n") auto
  then have "c \<noteq> CHR '':''" using hex_string_xdigits [of c n] by auto
  then show ?thesis by (simp add: c inet_pton6_def)
qed

text \<open>The run that is abbreviated is a run of zeros.\<close>

definition run_ok :: "nat list \<Rightarrow> nat \<Rightarrow> (nat \<times> nat) option \<Rightarrow> bool" where
  "run_ok us n r = (case r of None \<Rightarrow> True
     | Some (b, l) \<Rightarrow> b + l \<le> n \<and> (\<forall>j. b \<le> j \<and> j < b + l \<longrightarrow> us ! j = 0))"

lemma best_run_loop_ok:
  "run_ok us i best \<Longrightarrow> run_ok us i cur \<Longrightarrow> (\<And>b l. cur = Some (b, l) \<Longrightarrow> b + l = i) \<Longrightarrow>
   ws = drop i us \<Longrightarrow> i \<le> length us \<Longrightarrow> run_ok us (length us) (best_run_loop i ws best cur)"
proof (induction i ws best cur rule: best_run_loop.induct)
  case (1 i best cur)
  then show ?case by (auto simp: run_ok_def better_run_def split: option.splits)
next
  case (2 i w ws best cur)
  have w: "us ! i = w" "ws = drop (Suc i) us" "i < length us"
    using 2(6,7) by (metis nth_via_drop, metis list.sel(3) drop_Suc tl_drop, metis drop_all linorder_not_le list.distinct(1) 2(6))
  have best: "run_ok us (Suc i) best" using 2(3) by (auto simp: run_ok_def split: option.splits)
  show ?case
  proof (cases "w = 0")
    case True
    have "run_ok us (Suc i) (Some (case cur of None \<Rightarrow> (i, 1) | Some (b, l) \<Rightarrow> (b, Suc l)))"
      using 2(4,5) w True by (auto simp: run_ok_def less_Suc_eq split: option.splits)
    then have "run_ok us (length us) (best_run_loop (Suc i) ws best (Some (case cur of None \<Rightarrow> (i, 1) | Some (b, l) \<Rightarrow> (b, Suc l))))"
      using 2(5) w(2,3) best by (intro 2(1) [OF True]) (auto split: option.splits)
    then show ?thesis using True by simp
  next
    case False
    have "run_ok us (Suc i) (case cur of None \<Rightarrow> best | Some c \<Rightarrow> better_run best c)"
      using 2(3,4) by (auto simp: run_ok_def better_run_def split: option.splits)
    then have "run_ok us (length us) (best_run_loop (Suc i) ws (case cur of None \<Rightarrow> best | Some c \<Rightarrow> better_run best c) None)"
      using w(2,3) by (intro 2(2) [OF False]) (auto simp: run_ok_def)
    then show ?thesis using False by simp
  qed
qed

lemma best_run_ok:
  assumes "best_run ws = Some (b, l)"
  shows "2 \<le> l" "b + l \<le> length ws" "\<And>j. b \<le> j \<Longrightarrow> j < b + l \<Longrightarrow> ws ! j = 0"
  using assms best_run_loop_ok [of ws 0 None None ws]
  by (auto simp: best_run_def run_ok_def split: option.splits if_splits prod.splits)

text \<open>The dotted tail of an address that embeds an IPv4 address.\<close>

lemma digit_xdigit: "is_digit c \<Longrightarrow> is_xdigit c \<and> xdigit_val c < 16"
  by (auto simp: is_digit_def is_xdigit_def xdigit_val_def)

lemma pton6_dotted:
  assumes "\<And>c. c \<in> set ds \<Longrightarrow> is_digit c" "k + length ds \<le> 4" "v < 16 ^ k" "length tp \<le> 12"
    "inet_pton4 curtok = Some ip"
  shows "\<exists>v'. pton6_loop (ds @ CHR ''.'' # rest) curtok tp colonp v k = Some (tp @ u32_be ip, colonp, v', 0)"
  using assms
proof (induction ds arbitrary: v k)
  case (Cons d ds)
  then have d: "is_xdigit d" "xdigit_val d < 16" using digit_xdigit [of d] by auto
  have "v * 16 + xdigit_val d < 16 ^ Suc k" using Cons.prems(3) d(2) by simp
  moreover have "(16 :: nat) ^ Suc k \<le> 16 ^ 4" using Cons.prems(2) by (intro power_increasing) auto
  ultimately have "\<not> v * 16 + xdigit_val d > 0xffff" by simp
  then show ?case using Cons.prems d \<open>v * 16 + xdigit_val d < 16 ^ Suc k\<close> by (auto intro!: Cons.IH)
qed simp

lemma pton6_ip_quad:
  assumes "length tp \<le> 12"
  shows "\<exists>v'. pton6_loop (ip_quad ip) (ip_quad ip) tp colonp 0 0 = Some (tp @ u32_be ip, colonp, v', 0)"
proof -
  have "length (dec_string (unat (drop_bit 24 ip AND 0xFF))) \<le> 3" by (rule length_octet)
  moreover obtain rest where "ip_quad ip = dec_string (unat (drop_bit 24 ip AND 0xFF)) @ CHR ''.'' # rest"
    by (simp add: ip_quad_def)
  ultimately show ?thesis
    using pton6_dotted [of "dec_string (unat (drop_bit 24 ip AND 0xFF))" 0 0 tp "ip_quad ip" ip rest colonp,
      OF dec_string_digits _ _ assms inet_pton4_ip_quad] by simp
qed

lemma u32_be_words:
  assumes "a < 65536" "b < 65536"
  shows "u32_be (word_of_nat (a * 65536 + b)) = word_bytes a @ word_bytes b"
proof -
  define n where "n = a * 65536 + b"
  have n: "n < 2 ^ 32" using assms by (simp add: n_def)
  have d: "ucast (drop_bit k (word_of_nat n :: u32)) = (word_of_nat (n div 2 ^ k) :: u8)" for k
    by (rule word_unat_eq_iff [THEN iffD2])
       (use n in \<open>simp add: unat_drop_bit_eq unsigned_ucast_eq unat_of_nat drop_bit_eq_div [where ?'a = nat] take_bit_eq_mod [where ?'a = nat]\<close>)
  have wn: "x mod 256 = y mod 256 \<Longrightarrow> (word_of_nat x :: u8) = word_of_nat y" for x y
    by (simp add: word_unat_eq_iff unat_of_nat)
  have "n div 2 ^ 24 = a div 256" "n div 2 ^ 16 = a"
    using assms by (simp_all add: n_def)
  moreover have "word_of_nat (n div 2 ^ 8) = (word_of_nat (b div 256) :: u8)" "(word_of_nat n :: u8) = word_of_nat b"
  proof -
    have "a * 65536 + b = b + 256 * (256 * a)" by simp
    then show "(word_of_nat n :: u8) = word_of_nat b" unfolding n_def by (intro wn) (simp only: mod_mult_self2)
    have "n div 256 = b div 256 + 256 * a" by (simp add: n_def)
    then show "word_of_nat (n div 2 ^ 8) = (word_of_nat (b div 256) :: u8)" by (intro wn) simp
  qed
  moreover have "ucast (word_of_nat n :: u32) = (word_of_nat n :: u8)" using d [of 0] by simp
  ultimately show ?thesis by (simp add: u32_be_def word_bytes_def d n_def [symmetric])
qed

text \<open>Every address text reads back.\<close>

lemma upt_8: "[0..<8] = [0, 1, 2, 3, 4, 5, 6, 7 :: nat]"
  by (simp add: upt_rec)

lemma list_8: "length ws = 8 \<Longrightarrow> ws = [ws ! 0, ws ! 1, ws ! 2, ws ! 3, ws ! 4, ws ! 5, ws ! 6, ws ! 7]"
  by (rule nth_equalityI) (auto simp: less_Suc_eq numeral_eq_Suc)

lemma word_bytes_0 [simp]: "word_bytes 0 = [0, 0]" "length (word_bytes v) = 2"
  by (simp_all add: word_bytes_def)

lemma run_pairs:
  assumes "2 \<le> l" "b + l \<le> (8 :: nat)"
  shows "b = 0 \<and> l = 2 \<or> b = 0 \<and> l = 3 \<or> b = 0 \<and> l = 4 \<or> b = 0 \<and> l = 5 \<or> b = 0 \<and> l = 6 \<or> b = 0 \<and> l = 7 \<or> b = 0 \<and> l = 8 \<or>
     b = 1 \<and> l = 2 \<or> b = 1 \<and> l = 3 \<or> b = 1 \<and> l = 4 \<or> b = 1 \<and> l = 5 \<or> b = 1 \<and> l = 6 \<or> b = 1 \<and> l = 7 \<or>
     b = 2 \<and> l = 2 \<or> b = 2 \<and> l = 3 \<or> b = 2 \<and> l = 4 \<or> b = 2 \<and> l = 5 \<or> b = 2 \<and> l = 6 \<or>
     b = 3 \<and> l = 2 \<or> b = 3 \<and> l = 3 \<or> b = 3 \<and> l = 4 \<or> b = 3 \<and> l = 5 \<or>
     b = 4 \<and> l = 2 \<or> b = 4 \<and> l = 3 \<or> b = 4 \<and> l = 4 \<or>
     b = 5 \<and> l = 2 \<or> b = 5 \<and> l = 3 \<or>
     b = 6 \<and> l = 2"
proof -
  have "b = 0 \<or> b = 1 \<or> b = 2 \<or> b = 3 \<or> b = 4 \<or> b = 5 \<or> b = 6" using assms by linarith
  moreover have "l = 2 \<or> l = 3 \<or> l = 4 \<or> l = 5 \<or> l = 6 \<or> l = 7 \<or> l = 8" using assms by linarith
  ultimately show ?thesis using assms by (elim disjE) simp_all
qed

lemma concat_words:
  "length ws = 8 \<Longrightarrow> concat (map word_bytes ws) = word_bytes (ws ! 0) @ word_bytes (ws ! 1) @ word_bytes (ws ! 2) @
     word_bytes (ws ! 3) @ word_bytes (ws ! 4) @ word_bytes (ws ! 5) @ word_bytes (ws ! 6) @ word_bytes (ws ! 7)"
  by (subst list_8) simp_all

lemma replicate_even:
  "replicate 2 x = [x, x]"
  "replicate 4 x = [x, x, x, x]"
  "replicate 6 x = [x, x, x, x, x, x]"
  "replicate 8 x = [x, x, x, x, x, x, x, x]"
  "replicate 10 x = [x, x, x, x, x, x, x, x, x, x]"
  "replicate 12 x = [x, x, x, x, x, x, x, x, x, x, x, x]"
  "replicate 14 x = [x, x, x, x, x, x, x, x, x, x, x, x, x, x]"
  "replicate 16 x = [x, x, x, x, x, x, x, x, x, x, x, x, x, x, x, x]"
  by (simp_all add: numeral_eq_Suc)

lemma pton6_colons: "inet_pton6 (CHR '':'' # CHR '':'' # rest) = pton6_scan (CHR '':'' # rest)"
  by (simp add: inet_pton6_def)

lemmas ntop6_eval = upt_8 in_run_def pton6_hex_start pton6_scan_def pton6_steps pton6_finish_def zeros_def
  replicate_even pton6_colons

lemma inet_pton6_ntop6_None:
  assumes "length ws = 8" "\<And>w. w \<in> set ws \<Longrightarrow> w < 65536"
  shows "inet_pton6 (ntop6_loop ws None [0..<8]) = Some (concat (map word_bytes ws))"
proof -
  have "ws ! i < 65536" if "i < 8" for i using assms that by simp
  then show ?thesis unfolding concat_words [OF assms(1)] by (simp add: ntop6_eval embeds_ipv4_def)
qed

lemma inet_pton6_ntop6_Some:
  assumes "length ws = 8" "\<And>w. w \<in> set ws \<Longrightarrow> w < 65536"
    and "2 \<le> l" "b + l \<le> 8" "\<And>j. b \<le> j \<Longrightarrow> j < b + l \<Longrightarrow> ws ! j = 0"
    and "\<not> embeds_ipv4 (Some (b, l)) ws"
  shows "inet_pton6 (ntop6_loop ws (Some (b, l)) [0..<8] @ (if b + l = 8 then '':'' else [])) = Some (concat (map word_bytes ws))"
proof -
  have lt: "ws ! i < 65536" if "i < 8" for i using assms that by simp
  show ?thesis
    unfolding concat_words [OF assms(1)]
    using run_pairs [OF assms(3,4)] assms(5,6)
    by (elim disjE conjE; hypsubst) (simp_all add: ntop6_eval lt)
qed

lemma inet_pton6_ntop6_embedded:
  assumes "length ws = 8" "\<And>w. w \<in> set ws \<Longrightarrow> w < 65536"
    and "\<And>j. j < l \<Longrightarrow> ws ! j = 0" "embeds_ipv4 (Some (0, l)) ws"
  shows "inet_pton6 (ntop6_loop ws (Some (0, l)) [0..<8]) = Some (concat (map word_bytes ws))"
proof -
  define ip :: u32 where "ip = word_of_nat (ws ! 6 * 65536 + ws ! 7)"
  have ip: "word_of_nat (ws ! 6) * 65536 + word_of_nat (ws ! 7) = ip" by (simp add: ip_def)
  have lt: "ws ! 6 < 65536" "ws ! 7 < 65536" using assms(1,2) by simp_all
  have be: "u32_be ip = word_bytes (ws ! 6) @ word_bytes (ws ! 7)"
    unfolding ip_def by (rule u32_be_words [OF lt])
  have q: "\<exists>v'. pton6_loop (ip_quad ip) (ip_quad ip) tp colonp 0 0 = Some (tp @ u32_be ip, colonp, v', 0)"
    if "length tp \<le> 12" for tp colonp using pton6_ip_quad that .
  consider "l = 6" | "l = 5" "ws ! 5 = 0xffff" using assms(4) by (auto simp: embeds_ipv4_def)
  then show ?thesis
  proof cases
    case 1
    with q [of "[]" "Some 0"] show ?thesis using assms(3,4) unfolding concat_words [OF assms(1)]
      by (auto simp: ntop6_eval be ip)
  next
    case 2
    with q [of "word_bytes 0xffff" "Some 0"] ip_quad_not_Nil [of ip] show ?thesis
      using assms(3,4) unfolding concat_words [OF assms(1)]
      by (auto simp: ntop6_eval be ip)
  qed
qed

lemma byte_pair_lt: "unat (x :: u8) * 256 + unat (y :: u8) < 65536"
  using unat_u8_less [of x] unat_u8_less [of y] by linarith

lemma words_of_lt: "w \<in> set (words_of a) \<Longrightarrow> w < 65536"
  by (auto simp: words_of_def byte_pair_lt)

lemma length_words_of [simp]: "length (words_of a) = 8"
  by (simp add: words_of_def)

lemma words_of_bytes:
  assumes "length a = 16"
  shows "concat (map word_bytes (words_of a)) = a"
proof -
  have "word_of_nat (unat x * 256 + unat y) = y" for x y :: u8
    by (rule word_unat_eq_iff [THEN iffD2]) (subst unat_of_nat, simp)
  then have p: "word_bytes (unat x * 256 + unat y) = [x, y]" for x y :: u8
    by (simp add: word_bytes_def del: of_nat_add of_nat_mult)
  have "a = [a!0, a!1, a!2, a!3, a!4, a!5, a!6, a!7, a!8, a!9, a!10, a!11, a!12, a!13, a!14, a!15]"
    using assms by (intro nth_equalityI) (auto simp: less_Suc_eq numeral_eq_Suc)
  then show ?thesis by (simp add: words_of_def upt_8 p)
qed

lemma inet_pton6_ntop6 [simp]:
  assumes "length a = 16"
  shows "inet_pton6 (ntop6_text a) = Some a"
proof (cases "best_run (words_of a)")
  case None
  then show ?thesis using inet_pton6_ntop6_None [of "words_of a", OF length_words_of words_of_lt]
    by (simp add: ntop6_text_def words_of_bytes [OF assms])
next
  case (Some r)
  obtain b l where r: "r = (b, l)" by (cases r)
  note run = best_run_ok [OF Some [unfolded r]]
  show ?thesis
  proof (cases "embeds_ipv4 (Some (b, l)) (words_of a)")
    case True
    then have "b = 0" "b + l \<noteq> 8" by (auto simp: embeds_ipv4_def)
    then show ?thesis using inet_pton6_ntop6_embedded [of "words_of a" l, OF length_words_of words_of_lt] run(3) True Some r
      by (simp add: ntop6_text_def words_of_bytes [OF assms])
  next
    case False
    then show ?thesis using inet_pton6_ntop6_Some [of "words_of a" l b, OF length_words_of words_of_lt run(1) _ run(3)] run(2) Some r
      by (simp add: ntop6_text_def words_of_bytes [OF assms])
  qed
qed

text \<open>The texts fit the buffers of the callers and hold no closing bracket.\<close>

lemma length_ntop6_loop:
  "\<not> embeds_ipv4 best ws \<Longrightarrow> (\<And>i. i \<in> set is \<Longrightarrow> ws ! i < 65536) \<Longrightarrow> length (ntop6_loop ws best is) \<le> 5 * length is"
proof (induction "is")
  case (Cons i "is")
  have "length (hex_string (ws ! i)) \<le> 4" using Cons.prems(2) [of i] by (intro length_hex_string) simp_all
  then show ?case using Cons by fastforce
qed simp

lemma length_ntop6_embedded:
  assumes "embeds_ipv4 (Some (b, l)) ws" "ws ! 5 < 65536"
  shows "length (ntop6_loop ws (Some (b, l)) [0..<8]) \<le> 22"
proof -
  have "length (hex_string (ws ! 5)) \<le> 4" using assms(2) by (intro length_hex_string) simp_all
  moreover have "length (ip_quad (word_of_nat (ws ! 6) * 65536 + word_of_nat (ws ! 7))) \<le> 15" by (rule length_ip_quad)
  moreover have "b = 0 \<and> (l = 5 \<or> l = 6)" using assms(1) by (auto simp: embeds_ipv4_def)
  ultimately show ?thesis using assms(1) by (auto simp: upt_8 in_run_def)
qed

lemma length_ntop6_text: "length (ntop6_text a) \<le> 45"
proof (cases "embeds_ipv4 (best_run (words_of a)) (words_of a)")
  case True
  then obtain b l where r: "best_run (words_of a) = Some (b, l)" by (auto simp: embeds_ipv4_def split: option.splits)
  show ?thesis using length_ntop6_embedded [OF True [unfolded r] words_of_lt [of _ a]] r
    by (simp add: ntop6_text_def)
next
  case False
  then have "length (ntop6_loop (words_of a) (best_run (words_of a)) [0..<8]) \<le> 40"
    using length_ntop6_loop [OF False, of "[0..<8]"] words_of_lt [OF nth_mem] by simp
  then show ?thesis by (auto simp: ntop6_text_def Let_def split: option.split)
qed

lemma inet_ntop6_fits [simp]: "inet_ntop6 a 46 = Inr (ntop6_text a)"
  using length_ntop6_text [of a] by (simp add: inet_ntop6_def)

lemma ip_quad_chars: "c \<in> set (ip_quad ip) \<Longrightarrow> is_digit c \<or> c = CHR ''.''"
  by (auto simp: ip_quad_def dest: dec_string_digits)

lemma ntop6_loop_chars: "c \<in> set (ntop6_loop ws best is) \<Longrightarrow> is_xdigit c \<or> c = CHR '':'' \<or> c = CHR ''.''"
  by (induction "is") (auto dest: hex_string_xdigits ip_quad_chars digit_xdigit split: if_splits)

lemma ntop6_text_chars: "c \<in> set (ntop6_text a) \<Longrightarrow> is_xdigit c \<or> c = CHR '':'' \<or> c = CHR ''.''"
  by (auto simp: ntop6_text_def Let_def dest: ntop6_loop_chars split: option.splits if_splits)

end
