(* ===== verification/Posix.thy ===== *)
theory Posix
  imports Inet
begin

text \<open>
  What the sources use of the operating system. The outcome of a system call is an argument of the
  model: the record \<open>os\<close> holds the outcomes of the calls that open and configure descriptors. The
  calls a function makes are returned as a list of events, from which the set of open descriptors
  follows. A socket address holds port and address in host order.
\<close>

datatype sockaddr_storage =
    Sockaddr_zero
  | Sockaddr_in u16 u32
  | Sockaddr_in6 u16 bytes u32 u32
  | Sockaddr_other nat bytes

text \<open>Events: a successful open, and every call that changes a descriptor, an interface or the network.\<close>

datatype sys_event =
    Ev_socket nat bool bool
  | Ev_open nat string
  | Ev_close nat
  | Ev_setfl nat u32
  | Ev_setfd nat u32
  | Ev_reuseaddr nat
  | Ev_bind nat sockaddr_storage nat
  | Ev_sendto nat bytes sockaddr_storage nat
  | Ev_write nat bytes
  | Ev_tunsetiff nat string
  | Ev_sifmtu nat string int
  | Ev_sifaddr nat string u32
  | Ev_sifnetmask nat string u32
  | Ev_sifflags nat string u16

text \<open>
  Outcomes: \<open>socket\<close> for a family (the flag says IPv6) with or without the flags for a non-blocking
  descriptor, \<open>fcntl\<close> with \<open>F_GETFL\<close> and \<open>F_GETFD\<close>, \<open>bind\<close>, \<open>open\<close> of the TUN device, and the
  \<open>ioctl\<close>s on network interfaces; \<open>TUNSETIFF\<close> returns the name that the kernel chose.
\<close>

record os =
  os_socket :: "bool \<Rightarrow> bool \<Rightarrow> nat result"
  os_getfl :: "nat \<Rightarrow> u32 result"
  os_getfd :: "nat \<Rightarrow> u32 result"
  os_bind :: "nat \<Rightarrow> sockaddr_storage \<Rightarrow> nat \<Rightarrow> unit result"
  os_open_tun :: "nat result"
  os_tunsetiff :: "nat \<Rightarrow> string \<Rightarrow> string result"
  os_sifmtu :: "string \<Rightarrow> int \<Rightarrow> unit result"
  os_sifaddr :: "string \<Rightarrow> u32 \<Rightarrow> unit result"
  os_sifnetmask :: "string \<Rightarrow> u32 \<Rightarrow> unit result"
  os_gifflags :: "string \<Rightarrow> u16 result"
  os_sifflags :: "string \<Rightarrow> u16 \<Rightarrow> unit result"

text \<open>A system on which every call succeeds: the sockets get one descriptor, the TUN device another.\<close>

definition os_ready :: "nat \<Rightarrow> nat \<Rightarrow> os" where
  "os_ready sock tun =
     \<lparr>os_socket = (\<lambda>_ _. Inr sock), os_getfl = (\<lambda>_. Inr 0), os_getfd = (\<lambda>_. Inr 0), os_bind = (\<lambda>_ _ _. Inr ()),
      os_open_tun = Inr tun, os_tunsetiff = (\<lambda>_ name. Inr name), os_sifmtu = (\<lambda>_ _. Inr ()),
      os_sifaddr = (\<lambda>_ _. Inr ()), os_sifnetmask = (\<lambda>_ _. Inr ()), os_gifflags = (\<lambda>_. Inr 0),
      os_sifflags = (\<lambda>_ _. Inr ())\<rparr>"

section \<open>Open descriptors\<close>

fun fd_effect :: "sys_event \<Rightarrow> nat set \<Rightarrow> nat set" where
  "fd_effect (Ev_socket fd _ _) S = insert fd S"
| "fd_effect (Ev_open fd _) S = insert fd S"
| "fd_effect (Ev_close fd) S = S - {fd}"
| "fd_effect _ S = S"

definition fds_after :: "sys_event list \<Rightarrow> nat set \<Rightarrow> nat set" where
  "fds_after evs S = fold fd_effect evs S"

lemma fds_after_simps [simp]:
  "fds_after [] S = S" "fds_after (e # evs) S = fds_after evs (fd_effect e S)"
  "fds_after (evs @ evs') S = fds_after evs' (fds_after evs S)"
  by (simp_all add: fds_after_def)

text \<open>The errors that mean "try again": a non-blocking call reports them as zero bytes.\<close>

definition transient :: "errno \<Rightarrow> bool" where
  "transient e \<longleftrightarrow> e = EAGAIN \<or> e = EWOULDBLOCK \<or> e = EINTR"

text \<open>
  The interface of a component that owns a descriptor: it is acquired by an operation that may fail
  after having opened it, and given back by another. A failed acquisition leaves nothing open.
\<close>

locale fd_owner =
  fixes fresh :: "nat set \<Rightarrow> 'a \<Rightarrow> bool"
    and acquire :: "'a \<Rightarrow> 'r result \<times> sys_event list"
    and owned :: "'r \<Rightarrow> nat"
    and release :: "'r \<Rightarrow> sys_event list"
  assumes acquire_ok: "fresh S a \<Longrightarrow> acquire a = (Inr r, evs) \<Longrightarrow> fds_after evs S = insert (owned r) S \<and> owned r \<notin> S"
    and acquire_fails: "fresh S a \<Longrightarrow> acquire a = (Inl e, evs) \<Longrightarrow> fds_after evs S = S"
    and release_closes: "acquire a = (Inr r, evs) \<Longrightarrow> fds_after (release r) T = T - {owned r}"
begin

lemma acquire_release:
  assumes "fresh S a" "acquire a = (r, evs)"
  shows "fds_after (evs @ (case r of Inl _ \<Rightarrow> [] | Inr h \<Rightarrow> release h)) S = S"
  using acquire_ok [of S a _ evs] acquire_fails [of S a _ evs] assms release_closes [of a] by (cases r) auto

text \<open>Any number of sessions that follow one another leave the descriptors as they were.\<close>

fun sessions :: "'a list \<Rightarrow> sys_event list" where
  "sessions [] = []"
| "sessions (a # as) = (case acquire a of (r, evs) \<Rightarrow>
     (evs @ (case r of Inl _ \<Rightarrow> [] | Inr h \<Rightarrow> release h)) @ sessions as)"

lemma sessions_closed: "(\<And>a. a \<in> set as \<Longrightarrow> fresh S a) \<Longrightarrow> fds_after (sessions as) S = S"
proof (induction as)
  case (Cons a as)
  obtain r evs where r: "acquire a = (r, evs)" by (cases "acquire a")
  have "fds_after (evs @ (case r of Inl _ \<Rightarrow> [] | Inr h \<Rightarrow> release h)) S = S"
    using Cons.prems by (intro acquire_release [OF _ r]) simp
  then show ?case using Cons.IH Cons.prems r by (simp del: fds_after_simps(2) add: fds_after_simps(3))
qed simp

end

end
