(* ===== verification/Transport.thy ===== *)
theory Transport
  imports Posix Config
begin

text \<open>
  The UDP transport, \<open>src/src/transport.c\<close> and \<open>transport.h\<close>: endpoints and their texts, and the
  socket operations.
\<close>

unbundle bit_operations_syntax

section \<open>Endpoints\<close>

record vpn_endpoint_t =
  ep_addr :: sockaddr_storage
  ep_addr_len :: nat

definition endpoint_zero :: vpn_endpoint_t where
  "endpoint_zero = \<lparr>ep_addr = Sockaddr_zero, ep_addr_len = 0\<rparr>"

text \<open>The sizes of \<open>struct sockaddr_in\<close> and \<open>struct sockaddr_in6\<close>.\<close>

abbreviation (input) sockaddr_in_len :: nat where
  "sockaddr_in_len \<equiv> 16"

abbreviation (input) sockaddr_in6_len :: nat where
  "sockaddr_in6_len \<equiv> 28"

text \<open>
  \<open>endpoint_parse\<close> returns the code and the endpoint, which it clears first; on a bad address the
  family and the port are already stored.
\<close>

definition endpoint_parse6 :: "string \<Rightarrow> unit result \<times> vpn_endpoint_t" where
  "endpoint_parse6 str =
     (case strchr str CHR '']'' of
        None \<Rightarrow> (Inl EINVAL, endpoint_zero)
      | Some closing \<Rightarrow>
          if length closing < 2 \<or> closing ! 1 \<noteq> CHR '':'' then (Inl EINVAL, endpoint_zero)
          else let ip_len = (length str - length closing) - 1
          in if ip_len \<ge> 46 then (Inl EINVAL, endpoint_zero)
          else let ip_buf = take ip_len (tl str); port = atoi (drop 2 closing)
          in if port \<le> 0 \<or> port > 65535 then (Inl EINVAL, endpoint_zero)
          else (case inet_pton6 ip_buf of
                  None \<Rightarrow> (Inl EINVAL, endpoint_zero\<lparr>ep_addr := Sockaddr_in6 (word_of_int port) (zeros 16) 0 0\<rparr>)
                | Some a \<Rightarrow> (Inr (), \<lparr>ep_addr = Sockaddr_in6 (word_of_int port) a 0 0, ep_addr_len = sockaddr_in6_len\<rparr>)))"

definition endpoint_parse4 :: "string \<Rightarrow> unit result \<times> vpn_endpoint_t" where
  "endpoint_parse4 str =
     (case strrchr str CHR '':'' of
        None \<Rightarrow> (Inl EINVAL, endpoint_zero)
      | Some colon \<Rightarrow>
          let ip_len = length str - length colon
          in if ip_len = 0 \<or> ip_len \<ge> 16 then (Inl EINVAL, endpoint_zero)
          else let ip_buf = take ip_len str; port = atoi (tl colon)
          in if port \<le> 0 \<or> port > 65535 then (Inl EINVAL, endpoint_zero)
          else (case inet_pton4 ip_buf of
                  None \<Rightarrow> (Inl EINVAL, endpoint_zero\<lparr>ep_addr := Sockaddr_in (word_of_int port) 0\<rparr>)
                | Some a \<Rightarrow> (Inr (), \<lparr>ep_addr = Sockaddr_in (word_of_int port) a, ep_addr_len = sockaddr_in_len\<rparr>)))"

definition endpoint_parse :: "string option \<Rightarrow> vpn_endpoint_t option \<Rightarrow> unit result \<times> vpn_endpoint_t option" where
  "endpoint_parse str endpoint =
     (case (str, endpoint) of
        (Some s, Some _) \<Rightarrow>
          let (rc, ep) = (if s \<noteq> [] \<and> hd s = CHR ''['' then endpoint_parse6 s else endpoint_parse4 s)
          in (rc, Some ep)
      | _ \<Rightarrow> (Inl EINVAL, endpoint))"

text \<open>\<open>endpoint_to_string\<close> returns the code and the text in the buffer, which is cut off on \<open>ENOSPC\<close>.\<close>

definition print_endpoint :: "string \<Rightarrow> nat \<Rightarrow> unit result \<times> string" where
  "print_endpoint out buf_len =
     (let (written, buf) = snprintf buf_len out
      in if written \<ge> buf_len then (Inl ENOSPC, buf) else (Inr (), buf))"

definition endpoint_to_string :: "vpn_endpoint_t option \<Rightarrow> string option \<Rightarrow> nat \<Rightarrow> unit result \<times> string option" where
  "endpoint_to_string endpoint buf buf_len =
     (case (endpoint, buf) of
        (Some ep, Some b) \<Rightarrow>
          if buf_len = 0 then (Inl EINVAL, buf)
          else (case ep_addr ep of
                  Sockaddr_in port ip \<Rightarrow>
                    (case inet_ntop4 ip 16 of Inl e \<Rightarrow> (Inl e, buf)
                     | Inr ip_buf \<Rightarrow> map_prod id Some (print_endpoint (ip_buf @ '':'' @ dec_string (unat port)) buf_len))
                | Sockaddr_in6 port ip _ _ \<Rightarrow>
                    (case inet_ntop6 ip 46 of Inl e \<Rightarrow> (Inl e, buf)
                     | Inr ip_buf \<Rightarrow> map_prod id Some
                         (print_endpoint (''['' @ ip_buf @ '']:'' @ dec_string (unat port)) buf_len))
                | _ \<Rightarrow> (Inl EAFNOSUPPORT, buf))
      | _ \<Rightarrow> (Inl EINVAL, buf))"

definition endpoint_equal :: "vpn_endpoint_t option \<Rightarrow> vpn_endpoint_t option \<Rightarrow> bool" where
  "endpoint_equal a b =
     (case (a, b) of
        (Some x, Some y) \<Rightarrow>
          (case (ep_addr x, ep_addr y) of
             (Sockaddr_in p i, Sockaddr_in q j) \<Rightarrow> p = q \<and> i = j
           | (Sockaddr_in6 p i _ _, Sockaddr_in6 q j _ _) \<Rightarrow> p = q \<and> i = j
           | _ \<Rightarrow> False)
      | _ \<Rightarrow> False)"

section \<open>Sockets\<close>

text \<open>The address to bind to: the family, the address and its length.\<close>

definition bind_address :: "string option \<Rightarrow> u16 \<Rightarrow> (bool \<times> sockaddr_storage \<times> nat) result" where
  "bind_address bind_ip port =
     (case bind_ip of
        None \<Rightarrow> Inr (False, Sockaddr_in port 0, sockaddr_in_len)
      | Some s \<Rightarrow>
          if strchr s CHR '':'' \<noteq> None then
            if s \<noteq> [] \<and> s \<noteq> ''::'' then
              (case inet_pton6 s of None \<Rightarrow> Inl EINVAL
               | Some a \<Rightarrow> Inr (True, Sockaddr_in6 port a 0 0, sockaddr_in6_len))
            else Inr (True, Sockaddr_in6 port (zeros 16) 0 0, sockaddr_in6_len)
          else if s \<noteq> [] \<and> s \<noteq> ''0.0.0.0'' then
            (case inet_pton4 s of None \<Rightarrow> Inl EINVAL
             | Some a \<Rightarrow> Inr (False, Sockaddr_in port a, sockaddr_in_len))
          else Inr (False, Sockaddr_in port 0, sockaddr_in_len))"

abbreviation (input) O_NONBLOCK :: u32 where
  "O_NONBLOCK \<equiv> 0x800"

abbreviation (input) FD_CLOEXEC :: u32 where
  "FD_CLOEXEC \<equiv> 1"

definition open_socket :: "os \<Rightarrow> bool \<Rightarrow> nat result \<times> sys_event list" where
  "open_socket os domain =
     (case os_socket os domain True of
        Inr fd \<Rightarrow> (Inr fd, [Ev_socket fd domain True])
      | Inl _ \<Rightarrow>
          (case os_socket os domain False of
             Inl e \<Rightarrow> (Inl e, [])
           | Inr fd \<Rightarrow>
               let e1 = (case os_getfl os fd of Inl _ \<Rightarrow> [] | Inr flags \<Rightarrow> [Ev_setfl fd (flags OR O_NONBLOCK)]);
                   e2 = (case os_getfd os fd of Inl _ \<Rightarrow> [] | Inr flags \<Rightarrow> [Ev_setfd fd (flags OR FD_CLOEXEC)])
               in (Inr fd, Ev_socket fd domain False # e1 @ e2)))"

definition transport_open :: "os \<Rightarrow> string option \<Rightarrow> u16 \<Rightarrow> nat result \<times> sys_event list" where
  "transport_open os bind_ip port =
     (case bind_address bind_ip port of
        Inl e \<Rightarrow> (Inl e, [])
      | Inr (domain, addr, addr_len) \<Rightarrow>
          (case open_socket os domain of
             (Inl e, evs) \<Rightarrow> (Inl e, evs)
           | (Inr fd, evs) \<Rightarrow>
               let evs = evs @ [Ev_reuseaddr fd, Ev_bind fd addr addr_len]
               in (case os_bind os fd addr addr_len of
                     Inl e \<Rightarrow> (Inl e, evs @ [Ev_close fd])
                   | Inr _ \<Rightarrow> (Inr fd, evs))))"

text \<open>The result of \<open>sendto\<close> is the argument \<open>sent\<close>.\<close>

definition transport_send :: "nat result \<Rightarrow> int \<Rightarrow> vpn_endpoint_t option \<Rightarrow> bytes option \<Rightarrow> nat \<Rightarrow> nat result \<times> sys_event list" where
  "transport_send sent fd dest buf len =
     (case (dest, buf) of
        (Some d, Some b) \<Rightarrow>
          if fd < 0 \<or> len = 0 then (Inl EINVAL, [])
          else if len > VPN_MAX_PACKET_SIZE then (Inl EMSGSIZE, [])
          else (case sent of
                  Inl e \<Rightarrow> (if transient e then Inr 0 else Inl e,
                            [Ev_sendto (nat fd) (take len b) (ep_addr d) (ep_addr_len d)])
                | Inr n \<Rightarrow> (Inr n, [Ev_sendto (nat fd) (take len b) (ep_addr d) (ep_addr_len d)]))
      | _ \<Rightarrow> (Inl EINVAL, []))"

text \<open>
  The result of \<open>recvfrom\<close> is the argument: a datagram with its source address, of which at most
  \<open>max_len\<close> bytes are stored. The function returns the code, the source and the buffer.
\<close>

definition transport_recv ::
  "(bytes \<times> sockaddr_storage \<times> nat) result \<Rightarrow> int \<Rightarrow> vpn_endpoint_t option \<Rightarrow> bytes option \<Rightarrow> nat \<Rightarrow>
   nat result \<times> vpn_endpoint_t option \<times> bytes option" where
  "transport_recv got fd src buf max_len =
     (case buf of
        None \<Rightarrow> (Inl EINVAL, src, buf)
      | Some b \<Rightarrow>
          if fd < 0 \<or> max_len = 0 then (Inl EINVAL, src, buf)
          else (case got of
                  Inl e \<Rightarrow> (if transient e then Inr 0 else Inl e, src, buf)
                | Inr (datagram, addr, addr_len) \<Rightarrow>
                    (Inr (min (length datagram) max_len),
                     map_option (\<lambda>_. \<lparr>ep_addr = addr, ep_addr_len = addr_len\<rparr>) src,
                     Some (memcpy_at b 0 (take max_len datagram)))))"

definition transport_close :: "int option \<Rightarrow> int option \<times> sys_event list" where
  "transport_close fd =
     (case fd of None \<Rightarrow> (fd, [])
      | Some n \<Rightarrow> if n \<ge> 0 then (Some (-1), [Ev_close (nat n)]) else (fd, []))"

section \<open>Lemmas\<close>

lemma strrchr_notin: "c \<notin> set ds \<Longrightarrow> strrchr ds c = None"
  by (induction ds) auto

lemma strrchr_split: "c \<notin> set ds \<Longrightarrow> strrchr (xs @ c # ds) c = Some (c # ds)"
  by (induction xs) (simp_all add: strrchr_notin)

lemma strchr_split: "c \<notin> set xs \<Longrightarrow> strchr (xs @ c # ds) c = Some (c # ds)"
  by (induction xs) (auto simp: strchr_def)

definition endpoint_wf :: "vpn_endpoint_t \<Rightarrow> bool" where
  "endpoint_wf ep =
     (case ep_addr ep of
        Sockaddr_in port _ \<Rightarrow> port \<noteq> 0 \<and> ep_addr_len ep = sockaddr_in_len
      | Sockaddr_in6 port a flow scope \<Rightarrow>
          port \<noteq> 0 \<and> length a = 16 \<and> flow = 0 \<and> scope = 0 \<and> ep_addr_len ep = sockaddr_in6_len
      | _ \<Rightarrow> False)"

definition endpoint_text :: "vpn_endpoint_t \<Rightarrow> string" where
  "endpoint_text ep =
     (case ep_addr ep of
        Sockaddr_in port ip \<Rightarrow> ip_quad ip @ '':'' @ dec_string (unat port)
      | Sockaddr_in6 port a _ _ \<Rightarrow> ''['' @ ntop6_text a @ '']:'' @ dec_string (unat port)
      | _ \<Rightarrow> [])"

lemma length_dec_string_5: "n < 100000 \<Longrightarrow> length (dec_string n) \<le> 5"
proof -
  assume "n < 100000"
  then have "n div 100 < 1000" by simp
  then show ?thesis
    using length_dec_string_Suc [of n] length_dec_string_Suc [of "n div 10"] length_dec_string_3 [of "n div 100"]
    by (simp add: div_mult2_eq [symmetric] split: if_splits)
qed

lemma length_port: "length (dec_string (unat (port :: u16))) \<le> 5"
  by (rule length_dec_string_5, rule less_trans [OF unat_u16_less]) simp

lemma length_endpoint_text: "length (endpoint_text ep) \<le> 53"
proof (cases "ep_addr ep")
  case (Sockaddr_in port ip)
  then show ?thesis using length_ip_quad [of ip] length_port [of port] by (simp add: endpoint_text_def)
next
  case (Sockaddr_in6 port a flow scope)
  then show ?thesis using length_ntop6_text [of a] length_port [of port] by (simp add: endpoint_text_def)
qed (simp_all add: endpoint_text_def)

lemma endpoint_to_string_eq:
  assumes "endpoint_wf ep" "n \<ge> 54"
  shows "endpoint_to_string (Some ep) (Some b) n = (Inr (), Some (endpoint_text ep))"
  using assms length_endpoint_text [of ep]
  by (auto simp: endpoint_to_string_def print_endpoint_def snprintf_def endpoint_wf_def endpoint_text_def
      split: sockaddr_storage.splits)

lemma atoi_port: "atoi (dec_string (unat (port :: u16))) = uint port"
  using atoi_dec_string [of "[]" "unat port", OF _ less_trans [OF unat_u16_less]] by simp

lemma port_range:
  assumes "(port :: u16) \<noteq> 0"
  shows "0 < uint port" "uint port \<le> 65535"
proof -
  have "uint port \<noteq> 0" using assms by (simp add: unsigned_eq_0_iff)
  then show "0 < uint port" using uint_nonnegative [of port] by linarith
  show "uint port \<le> 65535" using uint_bounded [of port] by simp
qed

lemma colon_notin_port: "CHR '':'' \<notin> set (dec_string n)"
  by (auto dest: dec_string_digits simp: is_digit_def)

lemma bracket_notin: "CHR '']'' \<notin> set (ntop6_text a)" "hd (ip_quad ip) \<noteq> CHR ''[''"
proof -
  show "CHR '']'' \<notin> set (ntop6_text a)"
    using ntop6_text_chars [of "CHR '']''" a] by (auto simp: is_xdigit_def is_digit_def)
  show "hd (ip_quad ip) \<noteq> CHR ''[''"
    using ip_quad_chars [OF hd_in_set [OF ip_quad_not_Nil [of ip]]] by (auto simp: is_digit_def)
qed

lemma endpoint_parse_text:
  assumes "endpoint_wf ep"
  shows "endpoint_parse (Some (endpoint_text ep)) (Some x) = (Inr (), Some ep)"
proof (cases "ep_addr ep")
  case (Sockaddr_in port ip)
  have p: "port \<noteq> 0" "ep = \<lparr>ep_addr = Sockaddr_in port ip, ep_addr_len = 16\<rparr>"
    using assms Sockaddr_in by (simp_all add: endpoint_wf_def)
  show ?thesis
    using port_range [OF p(1)] length_ip_quad [of ip] ip_quad_not_Nil [of ip] bracket_notin(2) [of ip]
    by (simp add: endpoint_parse_def endpoint_parse4_def endpoint_text_def Sockaddr_in strrchr_split
        colon_notin_port atoi_port p(2) hd_append)
next
  case (Sockaddr_in6 port a flow scope)
  have p: "port \<noteq> 0" "length a = 16" "ep = \<lparr>ep_addr = Sockaddr_in6 port a 0 0, ep_addr_len = 28\<rparr>"
    using assms Sockaddr_in6 by (simp_all add: endpoint_wf_def)
  have s: "strchr (CHR ''['' # ntop6_text a @ CHR '']'' # ds) CHR '']'' = Some (CHR '']'' # ds)" for ds
    using strchr_split [of "CHR '']''" "CHR ''['' # ntop6_text a" ds] bracket_notin(1) by simp
  show ?thesis
    using port_range [OF p(1)] length_ntop6_text [of a]
    by (simp add: endpoint_parse_def endpoint_parse6_def endpoint_text_def Sockaddr_in6 s atoi_port p(2,3))
qed (use assms in \<open>simp_all add: endpoint_wf_def\<close>)

text \<open>Descriptors.\<close>

definition socket_fresh :: "nat set \<Rightarrow> os \<times> string option \<times> u16 \<Rightarrow> bool" where
  "socket_fresh S a = (case a of (os, _, _) \<Rightarrow> \<forall>v6 flags fd. os_socket os v6 flags = Inr fd \<longrightarrow> fd \<notin> S)"

lemma open_socket_cases:
  assumes "open_socket os domain = (r, evs)" "\<And>v6 flags fd. os_socket os v6 flags = Inr fd \<Longrightarrow> fd \<notin> S"
  shows "(\<exists>fd. r = Inr fd \<and> fd \<notin> S \<and> fds_after evs S = insert fd S) \<or> (\<exists>e. r = Inl e \<and> evs = [])"
proof (cases "os_socket os domain True")
  case t: (Inl e)
  show ?thesis
  proof (cases "os_socket os domain False")
    case f: (Inl e')
    have "r = Inl e'" "evs = []" using assms(1) t f by (simp_all add: open_socket_def)
    then show ?thesis by blast
  next
    case f: (Inr fd)
    have "r = Inr fd \<and> fds_after evs S = insert fd S" using assms(1) t f
      by (cases "os_getfl os fd"; cases "os_getfd os fd") (simp_all add: open_socket_def, auto)
    then show ?thesis using assms(2) [OF f] by blast
  qed
next
  case t: (Inr fd)
  then have "r = Inr fd \<and> fds_after evs S = insert fd S" using assms(1) by (auto simp: open_socket_def)
  then show ?thesis using assms(2) [OF t] by blast
qed

interpretation udp: fd_owner socket_fresh "\<lambda>(os, bind_ip, port). transport_open os bind_ip port" id
  "\<lambda>fd. snd (transport_close (Some (int fd)))"
proof unfold_locales
  fix S and a :: "os \<times> string option \<times> u16" and r evs
  assume fresh: "socket_fresh S a" and res: "(case a of (os, bind_ip, port) \<Rightarrow> transport_open os bind_ip port) = (Inr r, evs)"
  obtain os bind_ip port where a: "a = (os, bind_ip, port)" by (cases a)
  show "fds_after evs S = insert (id r) S \<and> id r \<notin> S"
    using res fresh open_socket_cases [of os _ _ _ S]
    by (fastforce simp: a transport_open_def socket_fresh_def Let_def split: sum.splits prod.splits)
next
  fix S and a :: "os \<times> string option \<times> u16" and e evs
  assume fresh: "socket_fresh S a" and res: "(case a of (os, bind_ip, port) \<Rightarrow> transport_open os bind_ip port) = (Inl e, evs)"
  obtain os bind_ip port where a: "a = (os, bind_ip, port)" by (cases a)
  show "fds_after evs S = S"
    using res fresh open_socket_cases [of os _ _ _ S]
    by (fastforce simp: a transport_open_def socket_fresh_def Let_def split: sum.splits prod.splits)
qed (simp add: transport_close_def)

section \<open>Properties\<close>

text \<open>
  C38: \<open>endpoint_parse\<close> reads back what \<open>endpoint_to_string\<close> prints, for IPv4 and for IPv6 endpoints with
  a port, whatever the endpoint held before; a buffer of 54 characters is enough for every endpoint.
\<close>

theorem endpoint_text_roundtrip:
  assumes "endpoint_wf ep" "n \<ge> 54"
  shows "\<exists>str. endpoint_to_string (Some ep) (Some buf) n = (Inr (), Some str)
    \<and> length str < n \<and> endpoint_parse (Some str) (Some old) = (Inr (), Some ep)"
  using endpoint_to_string_eq [OF assms] endpoint_parse_text [OF assms(1)] length_endpoint_text [of ep] assms(2)
  by auto

theorem endpoint_text_roundtrip_witness:
  "\<exists>str. endpoint_to_string
      (Some \<lparr>ep_addr = Sockaddr_in6 51820 (0x20 # 1 # replicate 13 0 @ [1]) 0 0, ep_addr_len = 28\<rparr>) (Some []) 64
      = (Inr (), Some str)
    \<and> length str < 64 \<and> endpoint_parse (Some str) (Some endpoint_zero)
      = (Inr (), Some \<lparr>ep_addr = Sockaddr_in6 51820 (0x20 # 1 # replicate 13 0 @ [1]) 0 0, ep_addr_len = 28\<rparr>)"
  by (rule endpoint_text_roundtrip) (simp_all add: endpoint_wf_def)

text \<open>
  C30: \<open>transport_open\<close> leaks no descriptor. On a system that hands out descriptors that are not in use,
  a failure (bad address, no socket, no bind) leaves the open descriptors as they were, and a success
  adds exactly the one returned, bound to the requested port, which \<open>transport_close\<close> gives back.
\<close>

theorem transport_open_no_leak:
  assumes "\<And>v6 flags fd. os_socket os v6 flags = Inr fd \<Longrightarrow> fd \<notin> S"
  shows "case transport_open os bind_ip port of
      (Inl e, evs) \<Rightarrow> fds_after evs S = S
    | (Inr fd, evs) \<Rightarrow> fd \<notin> S \<and> fds_after evs S = insert fd S
        \<and> (\<exists>v6 addr addr_len. bind_address bind_ip port = Inr (v6, addr, addr_len)
             \<and> Ev_bind fd addr addr_len \<in> set evs \<and> os_bind os fd addr addr_len = Inr ())
        \<and> fds_after (evs @ snd (transport_close (Some (int fd)))) S = S"
proof -
  have fresh: "socket_fresh S (os, bind_ip, port)" using assms by (auto simp: socket_fresh_def)
  obtain r evs where r: "transport_open os bind_ip port = (r, evs)" by (cases "transport_open os bind_ip port")
  show ?thesis
  proof (cases r)
    case (Inl e)
    then show ?thesis using udp.acquire_fails [OF fresh] r by simp
  next
    case (Inr fd)
    then have "\<exists>v6 addr addr_len. bind_address bind_ip port = Inr (v6, addr, addr_len)
        \<and> Ev_bind fd addr addr_len \<in> set evs \<and> os_bind os fd addr addr_len = Inr ()"
      using r by (auto simp: transport_open_def Let_def split: sum.splits prod.splits)
    then show ?thesis using udp.acquire_ok [OF fresh] udp.acquire_release [OF fresh] r Inr by simp
  qed
qed

theorem transport_open_no_leak_witness:
  "\<not> (3 :: nat) \<in> {0, 1, 2}
    \<and> (case transport_open ((os_ready 3 4)\<lparr>os_bind := \<lambda>_ _ _. Inl EACCES\<rparr>) (Some ''0.0.0.0'') 80 of
         (Inl e, evs) \<Rightarrow> e = EACCES \<and> fds_after evs {0, 1, 2} = {0, 1, 2} | (Inr fd, evs) \<Rightarrow> False)"
  using transport_open_no_leak [of "(os_ready 3 4)\<lparr>os_bind := \<lambda>_ _ _. Inl EACCES\<rparr>" "{0, 1, 2}" "Some ''0.0.0.0''" 80]
  by (auto simp: os_ready_def transport_open_def bind_address_def open_socket_def strchr_def)

text \<open>
  The non-blocking sockets never report a transient condition as an error: \<open>transport_send\<close> and
  \<open>transport_recv\<close> return 0 for it. A received datagram is stored within the buffer: the count is at
  most the buffer's size and the bytes counted are the start of the datagram.
\<close>

theorem transport_transient_is_zero:
  assumes "transient e" "fd \<ge> 0" "0 < len" "len \<le> VPN_MAX_PACKET_SIZE"
  shows "fst (transport_send (Inl e) fd (Some dest) (Some b) len) = Inr 0
    \<and> fst (transport_recv (Inl e) fd src (Some b) len) = Inr 0
    \<and> (length b = len \<longrightarrow> transport_recv (Inr (d, addr, addr_len)) fd (Some dest) (Some b) len =
         (Inr (min (length d) len), Some \<lparr>ep_addr = addr, ep_addr_len = addr_len\<rparr>, Some (take len d @ drop (length d) b)))"
  using assms by (auto simp: transport_send_def transport_recv_def memcpy_at_def min_def)

theorem transport_transient_is_zero_witness:
  "transport_recv (Inr ([1, 2, 3], Sockaddr_in 9 7, 16)) 5 (Some endpoint_zero) (Some [0, 0]) 2
     = (Inr 2, Some \<lparr>ep_addr = Sockaddr_in 9 7, ep_addr_len = 16\<rparr>, Some [1, 2])
   \<and> fst (transport_send (Inl EINTR) 5 (Some endpoint_zero) (Some [0, 0]) 2) = Inr 0"
  using transport_transient_is_zero [of EINTR 5 2 endpoint_zero "[0, 0]" None "[1, 2, 3]" "Sockaddr_in 9 7" 16]
  by (simp add: transient_def)

end
