(* ===== verification/Peer.thy ===== *)
theory Peer
  imports Transport Replay Crypto
begin

text \<open>
  Sessions, peers and the peer table, \<open>src/src/peer.c\<close> and \<open>peer.h\<close>. The arrays are the lists of their
  entries in use, a pointer into the table is the position of the peer, and a pointer to a session is
  a peer with a slot. The results of \<open>time(NULL)\<close> are arguments.
\<close>

section \<open>Model\<close>

datatype session_state_t = SESSION_STATE_NONE | SESSION_STATE_HANDSHAKING | SESSION_STATE_ESTABLISHED
  | SESSION_STATE_REKEYING

record vpn_session_t =
  local_index :: u32
  peer_index :: u32
  sess_state :: session_state_t
  send_key :: bytes
  recv_key :: bytes
  sending_counter :: u64
  replay_filter :: replay_filter_t
  established_time :: int
  last_packet_sent :: int
  last_packet_recv :: int

record vpn_peer_t =
  peer_name :: string
  public_key :: bytes
  endpoint :: vpn_endpoint_t
  allowed_ips :: "vpn_cidr_t list"
  current_session :: vpn_session_t
  previous_session :: vpn_session_t
  last_handshake_time :: int

record vpn_peer_table_t =
  peers :: "vpn_peer_t list"
  next_local_index :: u32

datatype session_slot = Current | Previous

fun slot_session :: "session_slot \<Rightarrow> vpn_peer_t \<Rightarrow> vpn_session_t" where
  "slot_session Current p = current_session p"
| "slot_session Previous p = previous_session p"

fun slot_update :: "session_slot \<Rightarrow> (vpn_session_t \<Rightarrow> vpn_session_t) \<Rightarrow> vpn_peer_t \<Rightarrow> vpn_peer_t" where
  "slot_update Current f p = p\<lparr>current_session := f (current_session p)\<rparr>"
| "slot_update Previous f p = p\<lparr>previous_session := f (previous_session p)\<rparr>"

text \<open>The all-zero values that \<open>memset\<close> leaves.\<close>

definition session_zero :: vpn_session_t where
  "session_zero = \<lparr>local_index = 0, peer_index = 0, sess_state = SESSION_STATE_NONE, send_key = zeros VPN_KEY_LEN,
     recv_key = zeros VPN_KEY_LEN, sending_counter = 0, replay_filter = replay_filter_zero,
     established_time = 0, last_packet_sent = 0, last_packet_recv = 0\<rparr>"

definition peer_zero :: vpn_peer_t where
  "peer_zero = \<lparr>peer_name = [], public_key = zeros VPN_PUBKEY_LEN, endpoint = endpoint_zero, allowed_ips = [],
     current_session = session_zero, previous_session = session_zero, last_handshake_time = 0\<rparr>"

definition peer_table_init :: "vpn_peer_table_t option \<Rightarrow> vpn_peer_table_t option" where
  "peer_table_init table = map_option (\<lambda>_. \<lparr>peers = [], next_local_index = 1\<rparr>) table"

definition has_pubkey :: "bytes \<Rightarrow> vpn_peer_t \<Rightarrow> bool" where
  "has_pubkey pk p \<longleftrightarrow> vpn_crypto_memcmp (Some (public_key p)) (Some pk) VPN_PUBKEY_LEN = 0"

text \<open>The loops over the table return the first position that passes the test.\<close>

fun first_pos :: "('a \<Rightarrow> bool) \<Rightarrow> 'a list \<Rightarrow> nat option" where
  "first_pos P [] = None"
| "first_pos P (x # xs) = (if P x then Some 0 else map_option Suc (first_pos P xs))"

definition peer_add :: "vpn_peer_table_t option \<Rightarrow> string option \<Rightarrow> bytes option \<Rightarrow> vpn_endpoint_t option
  \<Rightarrow> nat option \<times> vpn_peer_table_t option" where
  "peer_add table name pubkey initial_endpoint =
     (case (table, name, pubkey) of
        (Some t, Some n, Some pk) \<Rightarrow>
          if length (peers t) \<ge> VPN_MAX_PEERS then (None, table)
          else if first_pos (has_pubkey pk) (peers t) \<noteq> None then (None, table)
          else
            let peer = peer_zero\<lparr>peer_name := snd (snprintf 64 n), public_key := take VPN_PUBKEY_LEN pk\<rparr>;
                peer = (case initial_endpoint of None \<Rightarrow> peer | Some ep \<Rightarrow> peer\<lparr>endpoint := ep\<rparr>)
            in (Some (length (peers t)), Some (t\<lparr>peers := peers t @ [peer]\<rparr>))
      | _ \<Rightarrow> (None, table))"

definition peer_add_allowed_ip :: "vpn_peer_t option \<Rightarrow> string option \<Rightarrow> unit result \<times> vpn_peer_t option" where
  "peer_add_allowed_ip peer cidr_str =
     (case (peer, cidr_str) of
        (Some p, Some s) \<Rightarrow>
          if length (allowed_ips p) \<ge> VPN_MAX_CIDRS_PER_PEER then (Inl ENOSPC, peer)
          else (case vpn_cidr_parse (Some s) of
                  Inl e \<Rightarrow> (Inl e, peer)
                | Inr cidr \<Rightarrow> (Inr (), Some (p\<lparr>allowed_ips := allowed_ips p @ [cidr]\<rparr>)))
      | _ \<Rightarrow> (Inl EINVAL, peer))"

definition peer_allows_source_ip :: "vpn_peer_t option \<Rightarrow> u32 \<Rightarrow> bool" where
  "peer_allows_source_ip peer src_ip =
     (case peer of None \<Rightarrow> False
      | Some p \<Rightarrow> list_ex (\<lambda>c. vpn_cidr_match (Some c) src_ip) (allowed_ips p))"

definition peer_find_by_pubkey :: "vpn_peer_table_t option \<Rightarrow> bytes option \<Rightarrow> nat option" where
  "peer_find_by_pubkey table pubkey =
     (case (table, pubkey) of
        (Some t, Some pk) \<Rightarrow> first_pos (has_pubkey pk) (peers t)
      | _ \<Rightarrow> None)"

definition session_answers :: "u32 \<Rightarrow> vpn_session_t \<Rightarrow> bool" where
  "session_answers receiver_index s \<longleftrightarrow> sess_state s = SESSION_STATE_ESTABLISHED \<and> local_index s = receiver_index"

fun find_session :: "u32 \<Rightarrow> vpn_peer_t list \<Rightarrow> (nat \<times> session_slot) option" where
  "find_session receiver_index [] = None"
| "find_session receiver_index (p # ps) =
     (if session_answers receiver_index (current_session p) then Some (0, Current)
      else if session_answers receiver_index (previous_session p) then Some (0, Previous)
      else map_option (\<lambda>(i, slot). (Suc i, slot)) (find_session receiver_index ps))"

definition peer_find_by_index :: "vpn_peer_table_t option \<Rightarrow> u32 \<Rightarrow> (nat \<times> session_slot) option" where
  "peer_find_by_index table receiver_index =
     (case table of None \<Rightarrow> None
      | Some t \<Rightarrow> if receiver_index = 0 then None else find_session receiver_index (peers t))"

definition peer_find_by_dest_ip :: "vpn_peer_table_t option \<Rightarrow> u32 \<Rightarrow> nat option" where
  "peer_find_by_dest_ip table dest_ip =
     (case table of None \<Rightarrow> None
      | Some t \<Rightarrow> first_pos (\<lambda>p. peer_allows_source_ip (Some p) dest_ip) (peers t))"

definition peer_update_endpoint :: "vpn_peer_t option \<Rightarrow> vpn_endpoint_t option \<Rightarrow> nat result \<times> vpn_peer_t option" where
  "peer_update_endpoint peer new_ep =
     (case (peer, new_ep) of
        (Some p, Some ep) \<Rightarrow>
          if \<not> endpoint_equal (Some (endpoint p)) (Some ep) then (Inr 1, Some (p\<lparr>endpoint := ep\<rparr>))
          else (Inr 0, peer)
      | _ \<Rightarrow> (Inl EINVAL, peer))"

definition peer_destroy_session :: "vpn_session_t option \<Rightarrow> vpn_session_t option" where
  "peer_destroy_session session =
     (case session of None \<Rightarrow> None
      | Some s \<Rightarrow> if sess_state s \<noteq> SESSION_STATE_NONE then Some session_zero else session)"

definition peer_init_session :: "int \<Rightarrow> int \<Rightarrow> vpn_peer_t option \<Rightarrow> u32 \<Rightarrow> u32 \<Rightarrow> bytes option \<Rightarrow> bytes option
  \<Rightarrow> vpn_peer_t option" where
  "peer_init_session now now' peer local_idx peer_idx sk rk =
     (case (peer, sk, rk) of
        (Some p, Some s, Some r) \<Rightarrow>
          let p = (if sess_state (current_session p) = SESSION_STATE_ESTABLISHED
                   then p\<lparr>previous_session := the (peer_destroy_session (Some (previous_session p)))\<rparr>
                         \<lparr>previous_session := current_session p\<rparr>
                   else p);
              sess = session_zero\<lparr>local_index := local_idx, peer_index := peer_idx,
                       sess_state := SESSION_STATE_ESTABLISHED, send_key := take VPN_KEY_LEN s,
                       recv_key := take VPN_KEY_LEN r, sending_counter := 0\<rparr>;
              sess = sess\<lparr>replay_filter := the (replay_init (Some (replay_filter sess)))\<rparr>;
              sess = sess\<lparr>established_time := now\<rparr>
          in Some (p\<lparr>current_session := sess, last_handshake_time := now'\<rparr>)
      | _ \<Rightarrow> peer)"

text \<open>The loop that wipes the sessions, then the \<open>memset\<close> of the table.\<close>

definition wipe_sessions :: "vpn_peer_t list \<Rightarrow> vpn_peer_t list" where
  "wipe_sessions ps =
     map (\<lambda>p. p\<lparr>current_session := the (peer_destroy_session (Some (current_session p))),
                previous_session := the (peer_destroy_session (Some (previous_session p)))\<rparr>) ps"

definition peer_table_destroy :: "vpn_peer_table_t option \<Rightarrow> vpn_peer_table_t option" where
  "peer_table_destroy table =
     map_option (\<lambda>t. let t = t\<lparr>peers := wipe_sessions (peers t)\<rparr> in t\<lparr>peers := [], next_local_index := 0\<rparr>) table"

section \<open>Invariant\<close>

definition session_wf :: "vpn_session_t \<Rightarrow> bool" where
  "session_wf s \<longleftrightarrow> length (send_key s) = VPN_KEY_LEN \<and> length (recv_key s) = VPN_KEY_LEN
     \<and> (sess_state s = SESSION_STATE_NONE \<or> sess_state s = SESSION_STATE_ESTABLISHED)"

definition peer_wf :: "vpn_peer_t \<Rightarrow> bool" where
  "peer_wf p \<longleftrightarrow> length (peer_name p) < 64 \<and> length (public_key p) = VPN_PUBKEY_LEN
     \<and> length (allowed_ips p) \<le> VPN_MAX_CIDRS_PER_PEER \<and> list_all cidr_wf (allowed_ips p)
     \<and> session_wf (current_session p) \<and> session_wf (previous_session p)"

definition table_wf :: "vpn_peer_table_t \<Rightarrow> bool" where
  "table_wf t \<longleftrightarrow> length (peers t) \<le> VPN_MAX_PEERS \<and> list_all peer_wf (peers t) \<and> distinct (map public_key (peers t))"

section \<open>Lemmas\<close>

lemma first_pos_Some: "first_pos P xs = Some i \<Longrightarrow> i < length xs \<and> P (xs ! i) \<and> (\<forall>j < i. \<not> P (xs ! j))"
proof (induction xs arbitrary: i)
  case (Cons x xs)
  then show ?case by (cases i) (auto simp: less_Suc_eq_0_disj split: if_splits)
qed simp

lemma first_pos_None: "first_pos P xs = None \<longleftrightarrow> (\<forall>x \<in> set xs. \<not> P x)"
  by (induction xs) auto

lemma first_pos_unique:
  assumes "i < length xs" "P (xs ! i)" "\<And>j. j < length xs \<Longrightarrow> P (xs ! j) \<Longrightarrow> j = i"
  shows "first_pos P xs = Some i"
proof (cases "first_pos P xs")
  case None
  then show ?thesis using assms(1,2) first_pos_None [of P xs] by auto
next
  case (Some k)
  then show ?thesis using first_pos_Some [OF Some] assms(3) by auto
qed

lemma has_pubkey_eq: "length (public_key p) = 32 \<Longrightarrow> length pk = 32 \<Longrightarrow> has_pubkey pk p \<longleftrightarrow> public_key p = pk"
  by (simp add: has_pubkey_def vpn_crypto_memcmp_def sodium_memcmp_eq)

lemma find_session_Some:
  "find_session ri ps = Some (i, slot) \<Longrightarrow> i < length ps \<and> session_answers ri (slot_session slot (ps ! i))"
proof (induction ps arbitrary: i)
  case (Cons p ps)
  then show ?case by (auto split: if_splits)
qed simp

lemma find_session_None:
  "find_session ri ps = None \<longleftrightarrow>
     (\<forall>p \<in> set ps. \<not> session_answers ri (current_session p) \<and> \<not> session_answers ri (previous_session p))"
  by (induction ps) (auto split: if_splits)

lemma session_wf_zero [simp]: "session_wf session_zero"
  by (simp add: session_wf_def session_zero_def)

lemma peer_wf_zero [simp]: "peer_wf peer_zero"
  by (simp add: peer_wf_def peer_zero_def)

lemma table_wf_nth: "table_wf t \<Longrightarrow> i < length (peers t) \<Longrightarrow> peer_wf (peers t ! i)"
  by (simp add: table_wf_def list_all_length)

lemma table_wf_pubkey: "table_wf t \<Longrightarrow> p \<in> set (peers t) \<Longrightarrow> length (public_key p) = 32"
  by (auto simp: table_wf_def list_all_iff peer_wf_def)

text \<open>A peer of a well-formed table is found by its key, and only it.\<close>

lemma find_by_pubkey_iff:
  assumes "table_wf t" "length pk = 32"
  shows "peer_find_by_pubkey (Some t) (Some pk) = Some i \<longleftrightarrow> i < length (peers t) \<and> public_key (peers t ! i) = pk"
proof
  assume "peer_find_by_pubkey (Some t) (Some pk) = Some i"
  then show "i < length (peers t) \<and> public_key (peers t ! i) = pk"
    using first_pos_Some [of "has_pubkey pk" "peers t" i] assms
    by (auto simp: peer_find_by_pubkey_def has_pubkey_eq table_wf_pubkey)
next
  assume i: "i < length (peers t) \<and> public_key (peers t ! i) = pk"
  have d: "distinct (map public_key (peers t))" using assms(1) by (simp add: table_wf_def)
  have "first_pos (has_pubkey pk) (peers t) = Some i"
  proof (rule first_pos_unique)
    fix j assume j: "j < length (peers t)" "has_pubkey pk (peers t ! j)"
    then have "map public_key (peers t) ! j = map public_key (peers t) ! i"
      using i assms by (simp add: has_pubkey_eq table_wf_pubkey)
    then show "j = i" using d i j by (simp only: nth_eq_iff_index_eq length_map)
  qed (use i assms in \<open>simp_all add: has_pubkey_eq table_wf_pubkey\<close>)
  then show "peer_find_by_pubkey (Some t) (Some pk) = Some i" by (simp add: peer_find_by_pubkey_def)
qed

text \<open>Every operation keeps the invariant.\<close>

lemma table_wf_init [simp]: "table_wf \<lparr>peers = [], next_local_index = n\<rparr>"
  by (simp add: table_wf_def)

lemma peer_add_new:
  assumes "table_wf t" "length pk = 32" "length (peers t) < VPN_MAX_PEERS" "\<forall>p \<in> set (peers t). public_key p \<noteq> pk"
  shows "\<exists>p. peer_add (Some t) (Some n) (Some pk) ep = (Some (length (peers t)), Some (t\<lparr>peers := peers t @ [p]\<rparr>))
    \<and> peer_wf p \<and> public_key p = pk \<and> allowed_ips p = [] \<and> peer_name p = take 63 n
    \<and> endpoint p = (case ep of None \<Rightarrow> endpoint_zero | Some e \<Rightarrow> e)
    \<and> sess_state (current_session p) = SESSION_STATE_NONE \<and> sess_state (previous_session p) = SESSION_STATE_NONE"
proof -
  have "first_pos (has_pubkey pk) (peers t) = None"
    using assms by (auto simp: first_pos_None has_pubkey_eq table_wf_pubkey)
  then show ?thesis using assms(2,3)
    by (auto simp: peer_add_def Let_def peer_wf_def peer_zero_def snprintf_def session_zero_def session_wf_def
        split: option.split)
qed

lemma peer_add_dup:
  assumes "table_wf t" "length pk = 32" "length (peers t) \<ge> VPN_MAX_PEERS \<or> (\<exists>p \<in> set (peers t). public_key p = pk)"
  shows "peer_add (Some t) (Some n) (Some pk) ep = (None, Some t)"
proof (cases "length (peers t) \<ge> VPN_MAX_PEERS")
  case False
  then have "first_pos (has_pubkey pk) (peers t) \<noteq> None"
    using assms by (auto simp: first_pos_None has_pubkey_eq table_wf_pubkey)
  then show ?thesis using False by (simp add: peer_add_def)
qed (simp add: peer_add_def)

lemma table_wf_append:
  assumes "table_wf t" "length (peers t) < VPN_MAX_PEERS" "peer_wf p" "\<forall>q \<in> set (peers t). public_key q \<noteq> public_key p"
  shows "table_wf (t\<lparr>peers := peers t @ [p]\<rparr>)"
  using assms by (auto simp: table_wf_def)

lemma peer_add_wf:
  assumes "table_wf t" "length pk = 32" "peer_add (Some t) (Some n) (Some pk) ep = (r, Some t')"
  shows "table_wf t'"
proof (cases "length (peers t) < VPN_MAX_PEERS \<and> (\<forall>p \<in> set (peers t). public_key p \<noteq> pk)")
  case True
  then show ?thesis using peer_add_new [OF assms(1,2), of n ep] table_wf_append [OF assms(1)] assms(3) by auto
next
  case False
  then show ?thesis using peer_add_dup [OF assms(1,2), of n ep] assms(1,3) by auto
qed

lemma peer_add_allowed_ip_wf:
  assumes "peer_wf p" "peer_add_allowed_ip (Some p) s = (rc, Some p')"
  shows "peer_wf p' \<and> public_key p' = public_key p"
  using assms vpn_cidr_parse_wf
  by (auto simp: peer_add_allowed_ip_def peer_wf_def split: option.splits if_splits sum.splits)

lemma peer_update_endpoint_eq:
  "\<exists>rc ep'. peer_update_endpoint (Some p) (Some ep) = (Inr rc, Some (p\<lparr>endpoint := ep'\<rparr>))
     \<and> (ep' = ep \<or> ep' = endpoint p \<and> endpoint_equal (Some (endpoint p)) (Some ep))"
proof (cases "endpoint_equal (Some (endpoint p)) (Some ep)")
  case True
  then have "peer_update_endpoint (Some p) (Some ep) = (Inr 0, Some (p\<lparr>endpoint := endpoint p\<rparr>))"
    by (simp add: peer_update_endpoint_def)
  then show ?thesis using True by blast
next
  case False
  then show ?thesis by (auto simp: peer_update_endpoint_def)
qed

lemma peer_init_session_eq:
  assumes "length sk = 32" "length rk = 32"
  shows "peer_init_session now now' (Some p) li ri (Some sk) (Some rk) =
    Some (p\<lparr>current_session := session_zero\<lparr>local_index := li, peer_index := ri, sess_state := SESSION_STATE_ESTABLISHED,
            send_key := sk, recv_key := rk, established_time := now\<rparr>,
          previous_session := (if sess_state (current_session p) = SESSION_STATE_ESTABLISHED then current_session p
            else previous_session p),
          last_handshake_time := now'\<rparr>)"
  using assms by (simp add: peer_init_session_def replay_init_def session_zero_def)

lemma peer_init_session_wf:
  assumes "peer_wf p" "length sk = 32" "length rk = 32"
  shows "peer_wf (the (peer_init_session now now' (Some p) li ri (Some sk) (Some rk)))
    \<and> public_key (the (peer_init_session now now' (Some p) li ri (Some sk) (Some rk))) = public_key p"
  using assms by (simp add: peer_init_session_eq peer_wf_def session_wf_def session_zero_def)

lemma peer_destroy_session_wf: "session_wf s \<Longrightarrow> session_wf (the (peer_destroy_session (Some s)))"
  by (simp add: peer_destroy_session_def)

text \<open>Replacing one peer by another with the same key.\<close>

lemma table_wf_update:
  assumes "table_wf t" "i < length (peers t)" "peer_wf p" "public_key p = public_key (peers t ! i)"
  shows "table_wf (t\<lparr>peers := (peers t)[i := p]\<rparr>)"
proof -
  have "map public_key ((peers t)[i := p]) = map public_key (peers t)"
    using assms(2,4) by (simp add: map_update list_update_same_conv)
  then show ?thesis using assms unfolding table_wf_def by (auto simp: list_all_iff dest!: set_update_subset_insert [THEN subsetD])
qed

section \<open>The interface of the table\<close>

text \<open>
  What the handshake relies on: the table is a store of peers under their public keys, with a bounded
  number of places.
\<close>

locale keyed_table =
  fixes inv :: "'t \<Rightarrow> bool"
    and room :: "'t \<Rightarrow> nat"
    and enter :: "bytes \<Rightarrow> 't \<Rightarrow> 't"
    and position :: "'t \<Rightarrow> bytes \<Rightarrow> nat option"
  assumes enter_inv: "inv t \<Longrightarrow> length k = 32 \<Longrightarrow> inv (enter k t)"
    and enter_found: "inv t \<Longrightarrow> length k = 32 \<Longrightarrow> 0 < room t \<Longrightarrow> position (enter k t) k \<noteq> None"
    and enter_keeps: "inv t \<Longrightarrow> length k = 32 \<Longrightarrow> length k' = 32 \<Longrightarrow> position t k' = Some i \<Longrightarrow>
      position (enter k t) k' = Some i"
    and enter_only: "inv t \<Longrightarrow> length k = 32 \<Longrightarrow> length k' = 32 \<Longrightarrow> k \<noteq> k' \<Longrightarrow> position t k' = None \<Longrightarrow>
      position (enter k t) k' = None"
    and enter_room: "inv t \<Longrightarrow> length k = 32 \<Longrightarrow> room t \<le> Suc (room (enter k t))"
begin

lemma enter_all:
  assumes "inv t" "\<And>k. k \<in> set ks \<Longrightarrow> length k = 32" "length ks \<le> room t" "length k' = 32"
  shows "inv (fold enter ks t) \<and> (position (fold enter ks t) k' \<noteq> None \<longleftrightarrow> k' \<in> set ks \<or> position t k' \<noteq> None)"
  using assms
proof (induction ks arbitrary: t)
  case (Cons k ks)
  have k: "length k = 32" using Cons.prems(2) by simp
  have "0 < room t" "length ks \<le> room (enter k t)" using Cons.prems(1,3) enter_room [OF _ k, of t] by auto
  then have *: "inv (fold enter ks (enter k t)) \<and>
      (position (fold enter ks (enter k t)) k' \<noteq> None \<longleftrightarrow> k' \<in> set ks \<or> position (enter k t) k' \<noteq> None)"
    using Cons.prems k by (intro Cons.IH) (auto intro: enter_inv)
  have "position (enter k t) k' \<noteq> None \<longleftrightarrow> k' = k \<or> position t k' \<noteq> None"
    using enter_found [OF Cons.prems(1) k \<open>0 < room t\<close>] enter_keeps [OF Cons.prems(1) k Cons.prems(4)]
      enter_only [OF Cons.prems(1) k Cons.prems(4)] by (cases "k' = k"; cases "position t k'") auto
  with * show ?case by auto
qed simp

end

text \<open>Adding a peer under a name, whether or not it succeeds.\<close>

definition enter_peer :: "string \<Rightarrow> bytes \<Rightarrow> vpn_peer_table_t \<Rightarrow> vpn_peer_table_t" where
  "enter_peer n k t = the (snd (peer_add (Some t) (Some n) (Some k) None))"

lemma enter_peer_cases:
  assumes "table_wf t" "length k = 32"
  obtains "enter_peer n k t = t" "length (peers t) \<ge> VPN_MAX_PEERS \<or> (\<exists>p \<in> set (peers t). public_key p = k)"
  | p where "enter_peer n k t = t\<lparr>peers := peers t @ [p]\<rparr>" "public_key p = k" "peer_wf p"
      "\<forall>q \<in> set (peers t). public_key q \<noteq> k" "length (peers t) < VPN_MAX_PEERS"
proof (cases "length (peers t) < VPN_MAX_PEERS \<and> (\<forall>p \<in> set (peers t). public_key p \<noteq> k)")
  case True
  then show ?thesis using peer_add_new [OF assms, of n None] that(2) by (auto simp: enter_peer_def)
next
  case False
  then show ?thesis using peer_add_dup [OF assms, of n None] that(1) by (auto simp: enter_peer_def)
qed

lemma find_by_pubkey_None:
  assumes "table_wf t" "length pk = 32"
  shows "peer_find_by_pubkey (Some t) (Some pk) = None \<longleftrightarrow> (\<forall>p \<in> set (peers t). public_key p \<noteq> pk)"
  using assms by (auto simp: peer_find_by_pubkey_def first_pos_None has_pubkey_eq table_wf_pubkey)

interpretation pt: keyed_table table_wf "\<lambda>t. VPN_MAX_PEERS - length (peers t)" "enter_peer n"
  "\<lambda>t k. peer_find_by_pubkey (Some t) (Some k)" for n
proof unfold_locales
  fix t and k :: bytes assume t: "table_wf t" "length k = 32"
  show wf: "table_wf (enter_peer n k t)"
    by (rule enter_peer_cases [OF t, of n]) (use t table_wf_append [OF t(1)] in auto)
  show "VPN_MAX_PEERS - length (peers t) \<le> Suc (VPN_MAX_PEERS - length (peers (enter_peer n k t)))"
    by (rule enter_peer_cases [OF t, of n]) auto
  show "peer_find_by_pubkey (Some (enter_peer n k t)) (Some k) \<noteq> None" if "0 < VPN_MAX_PEERS - length (peers t)"
    unfolding find_by_pubkey_None [OF wf t(2)] by (rule enter_peer_cases [OF t, of n]) (use that in auto)
  fix k' :: bytes assume k': "length k' = 32"
  show "peer_find_by_pubkey (Some (enter_peer n k t)) (Some k') = Some i"
    if "peer_find_by_pubkey (Some t) (Some k') = Some i" for i
    using that unfolding find_by_pubkey_iff [OF wf k'] find_by_pubkey_iff [OF t(1) k']
    by (rule_tac enter_peer_cases [OF t, of n]) (auto simp: nth_append)
  show "peer_find_by_pubkey (Some (enter_peer n k t)) (Some k') = None"
    if "k \<noteq> k'" "peer_find_by_pubkey (Some t) (Some k') = None"
    using that unfolding find_by_pubkey_None [OF wf k'] find_by_pubkey_None [OF t(1) k']
    by (rule_tac enter_peer_cases [OF t, of n]) auto
qed

section \<open>Sessions that follow one another\<close>

text \<open>A peer after a series of handshakes: indices, keys and the times they were completed.\<close>

fun rekey_all :: "(u32 \<times> u32 \<times> bytes \<times> bytes \<times> int \<times> int) list \<Rightarrow> vpn_peer_t \<Rightarrow> vpn_peer_t" where
  "rekey_all [] p = p"
| "rekey_all ((li, ri, sk, rk, now, now') # hs) p =
     rekey_all hs (the (peer_init_session now now' (Some p) li ri (Some sk) (Some rk)))"

definition keys_ok :: "u32 \<times> u32 \<times> bytes \<times> bytes \<times> int \<times> int \<Rightarrow> bool" where
  "keys_ok h = (case h of (_, _, sk, rk, _, _) \<Rightarrow> length sk = VPN_KEY_LEN \<and> length rk = VPN_KEY_LEN)"

lemma rekey_all_append: "rekey_all (hs @ hs') p = rekey_all hs' (rekey_all hs p)"
  by (induction hs p rule: rekey_all.induct) auto

lemma rekey_all_frame:
  assumes "list_all keys_ok hs"
  shows "\<exists>c pr t. rekey_all hs p = p\<lparr>current_session := c, previous_session := pr, last_handshake_time := t\<rparr>"
  using assms
proof (induction hs p rule: rekey_all.induct)
  case (1 p)
  show ?case
    by (rule exI [of _ "current_session p"], rule exI [of _ "previous_session p"], rule exI [of _ "last_handshake_time p"]) simp
next
  case (2 li ri sk rk now now' hs p)
  then show ?case by (simp add: peer_init_session_eq keys_ok_def)
qed

lemma rekey_two:
  assumes "keys_ok a" "keys_ok b"
  shows "rekey_all [a, b] (p\<lparr>current_session := c, previous_session := pr, last_handshake_time := t\<rparr>) = rekey_all [a, b] p"
  using assms by (cases a; cases b) (simp add: peer_init_session_eq keys_ok_def session_zero_def)

section \<open>Runs of the table\<close>

text \<open>The states of a table that the functions above can produce.\<close>

inductive table_reach :: "vpn_peer_table_t \<Rightarrow> bool" where
  reach_init: "peer_table_init (Some t0) = Some t \<Longrightarrow> table_reach t"
| reach_add: "table_reach t \<Longrightarrow> length pk = VPN_PUBKEY_LEN \<Longrightarrow>
    peer_add (Some t) (Some n) (Some pk) ep = (r, Some t') \<Longrightarrow> table_reach t'"
| reach_allowed: "table_reach t \<Longrightarrow> i < length (peers t) \<Longrightarrow>
    peer_add_allowed_ip (Some (peers t ! i)) (Some s) = (rc, Some p) \<Longrightarrow> table_reach (t\<lparr>peers := (peers t)[i := p]\<rparr>)"
| reach_endpoint: "table_reach t \<Longrightarrow> i < length (peers t) \<Longrightarrow>
    peer_update_endpoint (Some (peers t ! i)) (Some ep) = (rc', Some p) \<Longrightarrow> table_reach (t\<lparr>peers := (peers t)[i := p]\<rparr>)"
| reach_session: "table_reach t \<Longrightarrow> i < length (peers t) \<Longrightarrow> length sk = VPN_KEY_LEN \<Longrightarrow> length rk = VPN_KEY_LEN \<Longrightarrow>
    peer_init_session now now' (Some (peers t ! i)) li ri (Some sk) (Some rk) = Some p \<Longrightarrow>
    table_reach (t\<lparr>peers := (peers t)[i := p], next_local_index := n'\<rparr>)"
| reach_destroy_session: "table_reach t \<Longrightarrow> i < length (peers t) \<Longrightarrow>
    table_reach (t\<lparr>peers := (peers t)[i := slot_update slot (\<lambda>s. the (peer_destroy_session (Some s))) (peers t ! i)]\<rparr>)"
| reach_destroy: "table_reach t \<Longrightarrow> peer_table_destroy (Some t) = Some t' \<Longrightarrow> table_reach t'"

lemma table_wf_next: "table_wf (t\<lparr>next_local_index := n\<rparr>) = table_wf t"
  by (simp add: table_wf_def)

lemma slot_destroy_wf:
  "peer_wf p \<Longrightarrow> peer_wf (slot_update slot (\<lambda>s. the (peer_destroy_session (Some s))) p)"
  "public_key (slot_update slot f p) = public_key p"
  by (cases slot; simp add: peer_wf_def peer_destroy_session_wf)+

lemma table_reach_wf: "table_reach t \<Longrightarrow> table_wf t"
proof (induction rule: table_reach.induct)
  case (reach_init t0 t)
  then show ?case by (auto simp: peer_table_init_def)
next
  case (reach_add t pk n ep r t')
  then show ?case by (auto intro: peer_add_wf)
next
  case (reach_allowed t i s rc p)
  then show ?case
    using peer_add_allowed_ip_wf [OF table_wf_nth] by (auto intro: table_wf_update)
next
  case (reach_endpoint t i ep rc' p)
  have "peer_wf p \<and> public_key p = public_key (peers t ! i)"
    using table_wf_nth [OF reach_endpoint.IH reach_endpoint.hyps(2)] reach_endpoint.hyps(3)
      peer_update_endpoint_eq [of "peers t ! i" ep] by (auto simp: peer_wf_def)
  then show ?case using reach_endpoint by (auto intro: table_wf_update)
next
  case (reach_session t i sk rk now now' li ri p n')
  then have "peer_wf p \<and> public_key p = public_key (peers t ! i)"
    using peer_init_session_wf [OF table_wf_nth [OF reach_session.IH reach_session.hyps(2)], of sk rk now now' li ri] by simp
  then have "table_wf (t\<lparr>peers := (peers t)[i := p]\<rparr>)" using reach_session by (auto intro: table_wf_update)
  then show ?case by (simp add: table_wf_def)
next
  case (reach_destroy_session t i slot)
  then show ?case by (auto intro!: table_wf_update slot_destroy_wf table_wf_nth)
next
  case (reach_destroy t t')
  then show ?case by (auto simp: peer_table_destroy_def table_wf_def)
qed

section \<open>Properties\<close>

text \<open>
  C24: every table that the functions of \<open>peer.c\<close> can build has at most 256 peers with pairwise different
  public keys, names that fit their field, at most 64 well-formed AllowedIPs each, and sessions with
  keys of 32 bytes that are either empty or established; no session is ever handshaking or rekeying.
\<close>

theorem peer_table_invariant:
  "table_reach t \<Longrightarrow> table_wf t"
  by (rule table_reach_wf)

theorem peer_table_invariant_witness:
  "table_wf (the (snd (peer_add (Some \<lparr>peers = [], next_local_index = 1\<rparr>) (Some ''alice'') (Some (replicate 32 7)) None)))"
proof -
  have "table_reach \<lparr>peers = [], next_local_index = 1\<rparr>"
    by (rule reach_init) (simp add: peer_table_init_def)
  then have "table_reach (the (snd (peer_add (Some \<lparr>peers = [], next_local_index = 1\<rparr>) (Some ''alice'') (Some (replicate 32 7)) None)))"
    by (rule reach_add [of _ "replicate 32 7" "''alice''" None]) (simp_all add: peer_add_def Let_def)
  then show ?thesis by (rule peer_table_invariant)
qed



text \<open>
  A peer keeps the keys of its last two sessions and of no other: after any series of completed
  handshakes the state is the one that the last two alone produce. The newest session starts with
  sending counter 0 and an empty replay window.
\<close>

theorem peer_rekey_forgets:
  assumes "list_all keys_ok hs" "keys_ok a" "keys_ok (li, ri, sk, rk, now, now')"
  shows "rekey_all (hs @ [a, (li, ri, sk, rk, now, now')]) p = rekey_all [a, (li, ri, sk, rk, now, now')] p
    \<and> current_session (rekey_all (hs @ [a, (li, ri, sk, rk, now, now')]) p) =
        \<lparr>local_index = li, peer_index = ri, sess_state = SESSION_STATE_ESTABLISHED, send_key = sk, recv_key = rk,
         sending_counter = 0, replay_filter = replay_filter_zero, established_time = now,
         last_packet_sent = 0, last_packet_recv = 0\<rparr>
    \<and> previous_session (rekey_all (hs @ [a, (li, ri, sk, rk, now, now')]) p) = current_session (rekey_all [a] p)"
proof -
  obtain c pr t where "rekey_all hs p = p\<lparr>current_session := c, previous_session := pr, last_handshake_time := t\<rparr>"
    using rekey_all_frame [OF assms(1)] by blast
  then have two: "rekey_all (hs @ [a, (li, ri, sk, rk, now, now')]) p = rekey_all [a, (li, ri, sk, rk, now, now')] p"
    using rekey_two [OF assms(2,3)] by (simp add: rekey_all_append)
  show ?thesis unfolding two using assms(2,3)
    by (cases a) (simp add: peer_init_session_eq keys_ok_def session_zero_def)
qed

theorem peer_rekey_forgets_witness:
  "rekey_all ([(1, 9, replicate 32 1, replicate 32 2, 10, 10)] @ [(2, 8, replicate 32 3, replicate 32 4, 20, 20),
      (3, 7, replicate 32 5, replicate 32 6, 30, 30)]) peer_zero
   = rekey_all [(2, 8, replicate 32 3, replicate 32 4, 20, 20), (3, 7, replicate 32 5, replicate 32 6, 30, 30)] peer_zero"
  using peer_rekey_forgets [of "[(1, 9, replicate 32 1, replicate 32 2, 10, 10)]" "(2, 8, replicate 32 3, replicate 32 4, 20, 20)"
    3 7 "replicate 32 5" "replicate 32 6" 30 30 peer_zero] by (simp add: keys_ok_def)

end
