(* ===== verification/Handshake.thy ===== *)
theory Handshake
  imports Peer Kdf Packet
begin

text \<open>
  The handshake, \<open>src/src/handshake.c\<close> and \<open>handshake.h\<close>. Randomness, the clock and the X25519 functions
  are arguments; \<open>max_len\<close> is the length of the output buffer. The functions return their output
  parameters with the code; what a failing call leaves in them is not part of the result, since no
  caller reads it. A structure that is cleared and then filled is written as its final value. Local
  arrays that are wiped at the end are not returned.
\<close>

unbundle bit_operations_syntax

section \<open>Model\<close>

record handshake_init_state_t =
  hs_ephemeral_private :: bytes
  hs_chaining_key :: bytes
  hs_hash :: bytes
  hs_local_index :: u32
  hs_timestamp :: int

definition string_bytes :: "string \<Rightarrow> bytes" where
  "string_bytes s = map of_char s"

definition PROTOCOL_IDENTIFIER :: bytes where
  "PROTOCOL_IDENTIFIER = string_bytes ''VPN_Tunnel_Noise_IK_25519_ChaChaPoly_BLAKE2b''"

definition PROTOCOL_LABEL :: bytes where
  "PROTOCOL_LABEL = string_bytes ''VPN_Tunnel_v1_EduZx''"

text \<open>
  Calls whose return code is ignored: a failure leaves the array as it was. An abort in libsodium ends
  the program.
\<close>

definition ignoring :: "bytes \<Rightarrow> bytes result \<Rightarrow> bytes result" where
  "ignoring old r = (case r of Inr x \<Rightarrow> Inr x | Inl e \<Rightarrow> if e = SODIUM_MISUSE then Inl e else Inr old)"

text \<open>Calls whose failure is turned into the error \<open>e\<close>.\<close>

definition failing :: "errno \<Rightarrow> 'a result \<Rightarrow> 'a result" where
  "failing e r = (case r of Inr x \<Rightarrow> Inr x | Inl e' \<Rightarrow> if e' = SODIUM_MISUSE then Inl e' else Inl e)"

text \<open>\<open>data\<close> is an array in every call.\<close>

definition mix_hash :: "bytes \<Rightarrow> bytes \<Rightarrow> nat \<Rightarrow> bytes result" where
  "mix_hash hash data len =
     (if len > 256 then Inr hash
      else let inp = memcpy_at (zeros (32 + 256)) 0 (take 32 hash);
               inp = (if len > 0 then memcpy_at inp 32 (take len data) else inp)
           in ignoring hash (vpn_crypto_hash (Some inp) (32 + len)))"

definition init_chaining_and_hash :: "bytes \<Rightarrow> bytes \<Rightarrow> (bytes \<times> bytes) result" where
  "init_chaining_and_hash ck h =
     rbind (ignoring ck (vpn_crypto_hash (Some PROTOCOL_IDENTIFIER) (length PROTOCOL_IDENTIFIER))) (\<lambda>ck.
     rbind (ignoring h (vpn_crypto_hash (Some PROTOCOL_LABEL) (length PROTOCOL_LABEL))) (\<lambda>h.
     Inr (ck, h)))"

text \<open>
  \<open>vpn_crypto_aead_encrypt (field, field + n, plain, n, h, 32, 0, key)\<close> into a zeroed field of \<open>n\<close> + 16
  bytes, and the converse.
\<close>

definition seal_field :: "bytes \<Rightarrow> bytes \<Rightarrow> bytes \<Rightarrow> bytes result" where
  "seal_field key h plain =
     ignoring (zeros (length plain + VPN_AUTH_TAG_LEN))
       (case vpn_crypto_aead_encrypt (Some (zeros (length plain))) (Some plain) (length plain) h 0 (Some key) of
          Inl e \<Rightarrow> Inl e | Inr (c, tag) \<Rightarrow> Inr ((case c of None \<Rightarrow> [] | Some x \<Rightarrow> x) @ tag))"

definition open_field :: "bytes \<Rightarrow> bytes \<Rightarrow> bytes \<Rightarrow> nat \<Rightarrow> bytes result" where
  "open_field key h field n =
     failing EBADMSG
       (case vpn_crypto_aead_decrypt (Some (zeros n)) (Some (take n field)) n (Some (drop n field)) h 0 (Some key) of
          (Inl e, _) \<Rightarrow> Inl e | (Inr _, m) \<Rightarrow> Inr (case m of None \<Rightarrow> [] | Some x \<Rightarrow> x))"

text \<open>The first message. The MAC covers the 108 bytes of the three fields that follow one another.\<close>

definition initiation_msg :: "x25519 \<Rightarrow> bytes \<Rightarrow> int \<times> int \<Rightarrow> bytes \<Rightarrow> bytes \<Rightarrow> bytes \<Rightarrow> u32
  \<Rightarrow> (packet_handshake_init_t \<times> handshake_init_state_t) result" where
  "initiation_msg X rnd ts my_privkey my_pubkey their_pubkey idx =
     rbind (vpn_crypto_generate_keypair X rnd) (\<lambda>(ephemeral_pub, ephemeral_private).
     rbind (init_chaining_and_hash (zeros 32) (zeros 32)) (\<lambda>(ck, h).
     rbind (mix_hash h their_pubkey VPN_PUBKEY_LEN) (\<lambda>h.
     rbind (mix_hash h ephemeral_pub VPN_PUBKEY_LEN) (\<lambda>h.
     rbind (vpn_kdf1 ck (Some ephemeral_pub) VPN_PUBKEY_LEN) (\<lambda>ck.
     rbind (failing EFAULT (vpn_crypto_dh X (Some their_pubkey) (Some ephemeral_private))) (\<lambda>dh1.
     rbind (vpn_kdf2 ck (Some dh1) VPN_KEY_LEN) (\<lambda>(ck, kappa1).
     rbind (seal_field kappa1 h my_pubkey) (\<lambda>encrypted_static.
     rbind (mix_hash h encrypted_static 48) (\<lambda>h.
     rbind (failing EFAULT (vpn_crypto_dh X (Some their_pubkey) (Some my_privkey))) (\<lambda>dh2.
     rbind (vpn_kdf2 ck (Some dh2) VPN_KEY_LEN) (\<lambda>(ck, kappa2).
     let timestamp_buf = le64_write (word_of_int (fst ts)) @ le32_write (word_of_int (snd ts))
     in rbind (seal_field kappa2 h timestamp_buf) (\<lambda>encrypted_timestamp.
     rbind (mix_hash h encrypted_timestamp 28) (\<lambda>h.
     rbind (ignoring (zeros 32) (vpn_crypto_hash (Some their_pubkey) VPN_PUBKEY_LEN)) (\<lambda>mac_key.
     rbind (ignoring (zeros 16) (vpn_crypto_mac16 (Some mac_key) 32
        (Some (ephemeral_pub @ encrypted_static @ encrypted_timestamp)) 108)) (\<lambda>mac1.
     Inr (\<lparr>hi_sender_index = idx, hi_unencrypted_ephemeral = ephemeral_pub, hi_encrypted_static = encrypted_static,
            hi_encrypted_timestamp = encrypted_timestamp, hi_mac1 = mac1, hi_mac2 = zeros 16\<rparr>,
          \<lparr>hs_ephemeral_private = ephemeral_private, hs_chaining_key = ck, hs_hash = h, hs_local_index = idx,
            hs_timestamp = fst ts\<rparr>))))))))))))))))"

definition handshake_create_initiation :: "x25519 \<Rightarrow> bytes \<Rightarrow> int \<times> int \<Rightarrow> bytes option \<Rightarrow> bytes option \<Rightarrow> bytes option
  \<Rightarrow> bytes option \<Rightarrow> u32 \<Rightarrow> handshake_init_state_t option \<Rightarrow> ((nat \<times> bytes) \<times> handshake_init_state_t) result" where
  "handshake_create_initiation X rnd ts out_packet my_privkey my_pubkey their_pubkey idx out_state =
     (case (out_packet, my_privkey, my_pubkey, their_pubkey, out_state) of
        (Some buf, Some priv, Some pub, Some their, Some _) \<Rightarrow>
          if length buf < PACKET_HANDSHAKE_INIT_LEN then Inl ENOSPC
          else rbind (initiation_msg X rnd ts priv pub their idx) (\<lambda>(msg, st).
               rbind (packet_serialize_handshake_init (Some buf) (Some msg)) (\<lambda>r. Inr (r, st)))
      | _ \<Rightarrow> Inl EINVAL)"

definition consume_initiation_msg :: "x25519 \<Rightarrow> bytes \<Rightarrow> bytes \<Rightarrow> vpn_peer_table_t \<Rightarrow> packet_handshake_init_t
  \<Rightarrow> (nat \<times> bytes \<times> bytes) result" where
  "consume_initiation_msg X my_privkey my_pubkey table msg =
     rbind (init_chaining_and_hash (zeros 32) (zeros 32)) (\<lambda>(ck, h).
     rbind (mix_hash h my_pubkey VPN_PUBKEY_LEN) (\<lambda>h.
     rbind (mix_hash h (hi_unencrypted_ephemeral msg) VPN_PUBKEY_LEN) (\<lambda>h.
     rbind (vpn_kdf1 ck (Some (hi_unencrypted_ephemeral msg)) VPN_PUBKEY_LEN) (\<lambda>ck.
     rbind (failing EBADMSG (vpn_crypto_dh X (Some (hi_unencrypted_ephemeral msg)) (Some my_privkey))) (\<lambda>dh1.
     rbind (vpn_kdf2 ck (Some dh1) VPN_KEY_LEN) (\<lambda>(ck, kappa1).
     rbind (open_field kappa1 h (hi_encrypted_static msg) VPN_PUBKEY_LEN) (\<lambda>their_static.
     case peer_find_by_pubkey (Some table) (Some their_static) of
       None \<Rightarrow> Inl EACCES
     | Some i \<Rightarrow>
         rbind (mix_hash h (hi_encrypted_static msg) 48) (\<lambda>h.
         rbind (failing EBADMSG (vpn_crypto_dh X (Some their_static) (Some my_privkey))) (\<lambda>dh2.
         rbind (vpn_kdf2 ck (Some dh2) VPN_KEY_LEN) (\<lambda>(ck, kappa2).
         rbind (open_field kappa2 h (hi_encrypted_timestamp msg) 12) (\<lambda>timestamp_buf.
         let sec = le64_read timestamp_buf; last = last_handshake_time (peers table ! i)
         in if last \<noteq> 0 \<and> sint sec \<le> last then Inl EBADMSG
            else rbind (mix_hash h (hi_encrypted_timestamp msg) 28) (\<lambda>h. Inr (i, ck, h)))))))))))))"

definition handshake_consume_initiation :: "x25519 \<Rightarrow> bytes option \<Rightarrow> bytes option \<Rightarrow> bytes option
  \<Rightarrow> vpn_peer_table_t option \<Rightarrow> (nat \<times> packet_handshake_init_t \<times> bytes \<times> bytes) result" where
  "handshake_consume_initiation X packet my_privkey my_pubkey peer_table =
     (case (packet, my_privkey, my_pubkey, peer_table) of
        (Some b, Some priv, Some pub, Some table) \<Rightarrow>
          rbind (packet_parse_handshake_init (Some b)) (\<lambda>msg.
          rbind (consume_initiation_msg X priv pub table msg) (\<lambda>(i, ck, h). Inr (i, msg, ck, h)))
      | _ \<Rightarrow> Inl EINVAL)"

text \<open>
  The second message. The MAC is computed over 52 bytes from the ephemeral key on, of which the last
  four are the start of the field that receives the MAC, still zero.
\<close>

definition response_msg :: "x25519 \<Rightarrow> bytes \<Rightarrow> bytes \<Rightarrow> bytes \<Rightarrow> u32 \<Rightarrow> u32 \<Rightarrow> bytes \<Rightarrow> bytes
  \<Rightarrow> (packet_handshake_resp_t \<times> bytes \<times> bytes) result" where
  "response_msg X rnd their_ephemeral their_static my_index their_index ck h =
     rbind (vpn_crypto_generate_keypair X rnd) (\<lambda>(ephemeral_pub, ephemeral_priv).
     rbind (mix_hash h ephemeral_pub VPN_PUBKEY_LEN) (\<lambda>h.
     rbind (vpn_kdf1 ck (Some ephemeral_pub) VPN_PUBKEY_LEN) (\<lambda>c.
     rbind (failing EFAULT (vpn_crypto_dh X (Some their_ephemeral) (Some ephemeral_priv))) (\<lambda>dh1.
     rbind (vpn_kdf1 c (Some dh1) VPN_KEY_LEN) (\<lambda>c.
     rbind (failing EFAULT (vpn_crypto_dh X (Some their_static) (Some ephemeral_priv))) (\<lambda>dh2.
     rbind (vpn_kdf2 c (Some dh2) VPN_KEY_LEN) (\<lambda>(c, kappa).
     rbind (ignoring (zeros 16) (case vpn_crypto_aead_encrypt None None 0 h 0 (Some kappa) of
        Inl e \<Rightarrow> Inl e | Inr (_, tag) \<Rightarrow> Inr tag)) (\<lambda>encrypted_nothing.
     rbind (mix_hash h encrypted_nothing 16) (\<lambda>h.
     rbind (vpn_kdf2 c None 0) (\<lambda>(sk, rk).
     rbind (ignoring (zeros 32) (vpn_crypto_hash (Some their_static) VPN_PUBKEY_LEN)) (\<lambda>mac_key.
     rbind (ignoring (zeros 16) (vpn_crypto_mac16 (Some mac_key) 32
        (Some (ephemeral_pub @ encrypted_nothing @ zeros 4)) 52)) (\<lambda>mac1.
     Inr (\<lparr>hr_sender_index = my_index, hr_receiver_index = their_index, hr_unencrypted_ephemeral = ephemeral_pub,
            hr_encrypted_nothing = encrypted_nothing, hr_mac1 = mac1, hr_mac2 = zeros 16\<rparr>, sk, rk)))))))))))))"

definition handshake_create_response :: "x25519 \<Rightarrow> bytes \<Rightarrow> bytes option \<Rightarrow> bytes option \<Rightarrow> bytes option \<Rightarrow> bytes option
  \<Rightarrow> u32 \<Rightarrow> u32 \<Rightarrow> bytes option \<Rightarrow> bytes option \<Rightarrow> ((nat \<times> bytes) \<times> bytes \<times> bytes) result" where
  "handshake_create_response X rnd out_packet my_privkey their_ephemeral their_static my_index their_index ck h =
     (case (out_packet, my_privkey, their_ephemeral, their_static, ck, h) of
        (Some buf, Some _, Some eph, Some stat, Some c, Some hash) \<Rightarrow>
          if length buf < PACKET_HANDSHAKE_RESP_LEN then Inl ENOSPC
          else rbind (response_msg X rnd eph stat my_index their_index (take VPN_KEY_LEN c) (take 32 hash)) (\<lambda>(msg, sk, rk).
               rbind (packet_serialize_handshake_resp (Some buf) (Some msg)) (\<lambda>r. Inr (r, sk, rk)))
      | _ \<Rightarrow> Inl EINVAL)"

definition consume_response_msg :: "x25519 \<Rightarrow> bytes \<Rightarrow> handshake_init_state_t \<Rightarrow> packet_handshake_resp_t
  \<Rightarrow> (u32 \<times> bytes \<times> bytes) result" where
  "consume_response_msg X my_privkey st msg =
     (if hr_receiver_index msg \<noteq> hs_local_index st then Inl EBADMSG
      else
        rbind (mix_hash (take 32 (hs_hash st)) (hr_unencrypted_ephemeral msg) VPN_PUBKEY_LEN) (\<lambda>h.
        rbind (vpn_kdf1 (take VPN_KEY_LEN (hs_chaining_key st)) (Some (hr_unencrypted_ephemeral msg)) VPN_PUBKEY_LEN) (\<lambda>c.
        rbind (failing EBADMSG (vpn_crypto_dh X (Some (hr_unencrypted_ephemeral msg)) (Some (hs_ephemeral_private st)))) (\<lambda>dh1.
        rbind (vpn_kdf1 c (Some dh1) VPN_KEY_LEN) (\<lambda>c.
        rbind (failing EBADMSG (vpn_crypto_dh X (Some (hr_unencrypted_ephemeral msg)) (Some my_privkey))) (\<lambda>dh2.
        rbind (vpn_kdf2 c (Some dh2) VPN_KEY_LEN) (\<lambda>(c, kappa).
        rbind (failing EBADMSG (fst (vpn_crypto_aead_decrypt None None 0 (Some (hr_encrypted_nothing msg)) h 0 (Some kappa)))) (\<lambda>_.
        rbind (mix_hash h (hr_encrypted_nothing msg) 16) (\<lambda>h.
        rbind (vpn_kdf2 c None 0) (\<lambda>(key_send, key_recv).
        Inr (hr_sender_index msg, key_recv, key_send)))))))))))"

definition handshake_consume_response :: "x25519 \<Rightarrow> bytes option \<Rightarrow> bytes option \<Rightarrow> handshake_init_state_t option \<Rightarrow> bytes option
  \<Rightarrow> (u32 \<times> bytes \<times> bytes) result" where
  "handshake_consume_response X packet my_privkey init_state their_static =
     (case (packet, my_privkey, init_state, their_static) of
        (Some b, Some priv, Some st, Some _) \<Rightarrow>
          rbind (packet_parse_handshake_resp (Some b)) (\<lambda>msg. consume_response_msg X priv st msg)
      | _ \<Rightarrow> Inl EINVAL)"

section \<open>The key schedule as a function\<close>

definition noise_mix :: "bytes \<Rightarrow> bytes \<Rightarrow> bytes" where
  "noise_mix h d = blake2b_spec 32 [] (h @ d)"

definition noise_ck0 :: bytes where
  "noise_ck0 = blake2b_spec 32 [] PROTOCOL_IDENTIFIER"

definition noise_h0 :: bytes where
  "noise_h0 = blake2b_spec 32 [] PROTOCOL_LABEL"

definition noise_seal :: "bytes \<Rightarrow> bytes \<Rightarrow> bytes \<Rightarrow> bytes" where
  "noise_seal key h p = vpn_stream key 0 p @ vpn_tag key 0 h (vpn_stream key 0 p)"

text \<open>
  \<open>S\<close> is the responder's static key, \<open>E\<close> the initiator's ephemeral key, \<open>d1\<close> and \<open>d2\<close> the two secrets of
  the first message, \<open>P\<close> the initiator's static key and \<open>T\<close> the timestamp.
\<close>

definition n_h1 :: "bytes \<Rightarrow> bytes \<Rightarrow> bytes" where
  "n_h1 S E = noise_mix (noise_mix noise_h0 S) E"

definition n_c1 :: "bytes \<Rightarrow> bytes" where
  "n_c1 E = kdf_T1 noise_ck0 E"

definition n_c2 :: "bytes \<Rightarrow> bytes \<Rightarrow> bytes" where
  "n_c2 E d1 = kdf_T1 (n_c1 E) d1"

definition n_c3 :: "bytes \<Rightarrow> bytes \<Rightarrow> bytes \<Rightarrow> bytes" where
  "n_c3 E d1 d2 = kdf_T1 (n_c2 E d1) d2"

definition n_static :: "bytes \<Rightarrow> bytes \<Rightarrow> bytes \<Rightarrow> bytes \<Rightarrow> bytes" where
  "n_static S E d1 P = noise_seal (kdf_T2 (n_c1 E) d1) (n_h1 S E) P"

definition n_h2 :: "bytes \<Rightarrow> bytes \<Rightarrow> bytes \<Rightarrow> bytes \<Rightarrow> bytes" where
  "n_h2 S E d1 P = noise_mix (n_h1 S E) (n_static S E d1 P)"

definition n_time :: "bytes \<Rightarrow> bytes \<Rightarrow> bytes \<Rightarrow> bytes \<Rightarrow> bytes \<Rightarrow> bytes \<Rightarrow> bytes" where
  "n_time S E d1 P d2 T = noise_seal (kdf_T2 (n_c2 E d1) d2) (n_h2 S E d1 P) T"

definition n_h3 :: "bytes \<Rightarrow> bytes \<Rightarrow> bytes \<Rightarrow> bytes \<Rightarrow> bytes \<Rightarrow> bytes \<Rightarrow> bytes" where
  "n_h3 S E d1 P d2 T = noise_mix (n_h2 S E d1 P) (n_time S E d1 P d2 T)"

text \<open>
  The second message: \<open>c\<close> and \<open>h\<close> are the state after the first, \<open>R\<close> is the responder's ephemeral key,
  \<open>d3\<close> and \<open>d4\<close> are its two secrets.
\<close>

definition n_c5 :: "bytes \<Rightarrow> bytes \<Rightarrow> bytes \<Rightarrow> bytes" where
  "n_c5 c R d3 = kdf_T1 (kdf_T1 c R) d3"

definition n_empty :: "bytes \<Rightarrow> bytes \<Rightarrow> bytes \<Rightarrow> bytes \<Rightarrow> bytes \<Rightarrow> bytes" where
  "n_empty c h R d3 d4 = vpn_tag (kdf_T2 (n_c5 c R d3) d4) 0 (noise_mix h R) []"

definition n_c6 :: "bytes \<Rightarrow> bytes \<Rightarrow> bytes \<Rightarrow> bytes \<Rightarrow> bytes" where
  "n_c6 c R d3 d4 = kdf_T1 (n_c5 c R d3) d4"

section \<open>Lemmas\<close>

lemma ignoring_simps [simp]: "ignoring old (Inr x) = Inr x"
  by (simp add: ignoring_def)

lemma failing_simps [simp]: "failing e (Inr x) = Inr x"
  by (simp add: failing_def)

lemma failing_Inr: "failing e r = Inr x \<longleftrightarrow> r = Inr x"
  by (auto simp: failing_def split: sum.splits if_splits)

lemma length_protocol [simp]: "length PROTOCOL_IDENTIFIER = 44" "length PROTOCOL_LABEL = 19"
  by (simp_all add: PROTOCOL_IDENTIFIER_def PROTOCOL_LABEL_def string_bytes_def)

lemma length_noise [simp]:
  "length (noise_mix h d) = 32" "length noise_ck0 = 32" "length noise_h0 = 32"
  "length (n_h1 S E) = 32" "length (n_c1 E) = 32" "length (n_c2 E d1) = 32" "length (n_c3 E d1 d2) = 32"
  "length (n_h2 S E d1 P) = 32" "length (n_h3 S E d1 P d2 T) = 32" "length (n_c5 c R d3) = 32" "length (n_c6 c R d3 d4) = 32"
  by (simp_all add: noise_mix_def noise_ck0_def noise_h0_def n_h1_def n_c1_def n_c2_def n_c3_def n_h2_def n_h3_def
      n_c5_def n_c6_def length_blake2b_spec)

lemma mix_hash_eq:
  assumes "length h = 32" "len \<le> 256" "len \<le> length d"
  shows "mix_hash h d len = Inr (noise_mix h (take len d))"
proof -
  let ?buf = "memcpy_at (zeros 288) 0 h"
  let ?i = "if len > 0 then memcpy_at ?buf 32 (take len d) else ?buf"
  have i0: "?buf = h @ zeros 256" using assms(1) by (simp add: memcpy_at_def zeros_def)
  have "take (32 + len) ?i = h @ take len d" "32 + len \<le> length ?i"
    using assms unfolding i0 by (auto simp: memcpy_at_def)
  moreover have "32 + len < 2 ^ 64" using assms(2) by simp
  ultimately have "vpn_crypto_hash (Some ?i) (32 + len) = Inr (noise_mix h (take len d))"
    using vpn_crypto_hash_eq [of "32 + len" ?i] by (simp add: noise_mix_def)
  then show ?thesis using assms(1,2) by (simp add: mix_hash_def Let_def)
qed

lemma init_chaining_eq: "init_chaining_and_hash ck h = Inr (noise_ck0, noise_h0)"
  using vpn_crypto_hash_eq [of 44 PROTOCOL_IDENTIFIER] vpn_crypto_hash_eq [of 19 PROTOCOL_LABEL]
  by (simp add: init_chaining_and_hash_def noise_ck0_def noise_h0_def)

lemma seal_field_eq:
  assumes "length p \<le> aead_limit"
  shows "seal_field key h p = Inr (noise_seal key h p)"
  using vpn_encrypt_eq [OF assms] by (simp add: seal_field_def noise_seal_def memcpy_at_def)

lemma length_noise_seal [simp]: "length (noise_seal key h p) = length p + 16"
  by (simp add: noise_seal_def)

lemma open_field_eq:
  assumes "length field = n + 16" "n \<le> aead_limit"
  shows "open_field key h field n =
    (if drop n field = vpn_tag key 0 h (take n field) then Inr (vpn_stream key 0 (take n field)) else Inl EBADMSG)"
  using vpn_decrypt_eq [of "take n field" "drop n field" "zeros n" h 0 key] assms
  by (simp add: open_field_def memcpy_at_def failing_def min_def)

lemma open_noise_seal:
  assumes "length p = n" "n \<le> aead_limit"
  shows "open_field key h (noise_seal key h p) n = Inr p"
  using assms by (simp add: open_field_eq) (simp add: noise_seal_def stream_ietf_involution)

lemma open_field_Inr:
  assumes "length field = n + 16" "n \<le> aead_limit" "open_field key h field n = Inr p"
  shows "field = noise_seal key h p \<and> length p = n"
proof -
  have "drop n field = vpn_tag key 0 h (take n field)" "p = vpn_stream key 0 (take n field)"
    using assms by (auto simp: open_field_eq split: if_splits)
  then show ?thesis using assms(1,2) append_take_drop_id [of n field]
    by (simp add: noise_seal_def stream_ietf_involution)
qed

lemma kdf_32:
  assumes "length key = 32" "length d = 32"
  shows "vpn_kdf1 key (Some d) 32 = Inr (kdf_T1 key d)" "vpn_kdf2 key (Some d) 32 = Inr (kdf_T1 key d, kdf_T2 key d)"
  using kdf_eqs(1,2) [of key d] assms by simp_all

lemma kdf_empty: "length key = 32 \<Longrightarrow> vpn_kdf2 key None 0 = Inr (kdf_T1 key [], kdf_T2 key [])"
  using kdf_eqs(2) [of key "[]"] by (simp add: vpn_kdf2_None)

text \<open>
  What the handshake relies on of X25519: results of 32 bytes, which the implementation of the library
  has (theory \<open>X25519_Base\<close>), and for the agreement of the two sides the Diffie-Hellman property.
\<close>

definition x25519_sizes :: "x25519 \<Rightarrow> bool" where
  "x25519_sizes X \<longleftrightarrow> (\<forall>n. length (x_mult_base X n) = 32) \<and> (\<forall>n p q. x_mult X n p = Some q \<longrightarrow> length q = 32)"

definition x25519_ok :: "x25519 \<Rightarrow> bool" where
  "x25519_ok X \<longleftrightarrow> x25519_sizes X
     \<and> (\<forall>a b. length a = 32 \<longrightarrow> length b = 32 \<longrightarrow> x_mult X a (x_mult_base X b) = x_mult X b (x_mult_base X a))"

lemma keypair_eq: "vpn_crypto_generate_keypair X rnd = Inr (x_mult_base X (take 32 rnd), take 32 rnd)"
  by (simp add: vpn_crypto_generate_keypair_def crypto_box_keypair_def Let_def)

lemma dh_length: "x25519_sizes X \<Longrightarrow> vpn_crypto_dh X (Some p) (Some n) = Inr q \<Longrightarrow> length q = 32"
  by (auto simp: x25519_sizes_def vpn_crypto_dh_def crypto_scalarmult_def Let_def split: option.splits if_splits)

lemma dh_error: "vpn_crypto_dh X (Some p) (Some n) = Inl e \<Longrightarrow> e = EBADMSG"
  by (auto simp: vpn_crypto_dh_def split: prod.splits if_splits)

lemma dh_sym:
  "x25519_ok X \<Longrightarrow> length a = 32 \<Longrightarrow> length b = 32 \<Longrightarrow>
   vpn_crypto_dh X (Some (x_mult_base X b)) (Some a) = vpn_crypto_dh X (Some (x_mult_base X a)) (Some b)"
  by (simp add: vpn_crypto_dh_def crypto_scalarmult_def x25519_ok_def)

lemma length_base: "x25519_sizes X \<Longrightarrow> length (x_mult_base X n) = 32"
  by (simp add: x25519_sizes_def)

lemma small_limit: "n \<le> 2048 \<Longrightarrow> n \<le> aead_limit"
  by (simp add: aead_limit_def)

abbreviation timestamp_bytes :: "int \<times> int \<Rightarrow> bytes" where
  "timestamp_bytes ts \<equiv> le64_write (word_of_int (fst ts)) @ le32_write (word_of_int (snd ts))"

definition n_init_msg :: "bytes \<Rightarrow> bytes \<Rightarrow> bytes \<Rightarrow> bytes \<Rightarrow> bytes \<Rightarrow> bytes \<Rightarrow> u32 \<Rightarrow> packet_handshake_init_t" where
  "n_init_msg S E d1 P d2 T idx =
     \<lparr>hi_sender_index = idx, hi_unencrypted_ephemeral = E, hi_encrypted_static = n_static S E d1 P,
      hi_encrypted_timestamp = n_time S E d1 P d2 T,
      hi_mac1 = blake2b_spec 16 (blake2b_spec 32 [] S) (E @ n_static S E d1 P @ n_time S E d1 P d2 T), hi_mac2 = zeros 16\<rparr>"

lemma length_n_fields [simp]:
  "length (n_static S E d1 P) = length P + 16" "length (n_time S E d1 P d2 T) = length T + 16"
  by (simp_all add: n_static_def n_time_def)

lemma init_wf_n_init_msg: "length E = 32 \<Longrightarrow> length P = 32 \<Longrightarrow> length T = 12 \<Longrightarrow> init_wf (n_init_msg S E d1 P d2 T idx)"
  by (simp add: init_wf_def n_init_msg_def length_blake2b_spec)

lemma initiation_msg_eq:
  assumes "x25519_sizes X" "length rnd \<ge> 32" "length P = 32" "length S = 32"
    and "vpn_crypto_dh X (Some S) (Some (take 32 rnd)) = Inr d1" "vpn_crypto_dh X (Some S) (Some priv) = Inr d2"
  shows "initiation_msg X rnd ts priv P S idx =
    Inr (n_init_msg S (x_mult_base X (take 32 rnd)) d1 P d2 (timestamp_bytes ts) idx,
      \<lparr>hs_ephemeral_private = take 32 rnd, hs_chaining_key = n_c3 (x_mult_base X (take 32 rnd)) d1 d2,
       hs_hash = n_h3 S (x_mult_base X (take 32 rnd)) d1 P d2 (timestamp_bytes ts), hs_local_index = idx, hs_timestamp = fst ts\<rparr>)"
proof -
  define E where "E = x_mult_base X (take 32 rnd)"
  define T where "T = timestamp_bytes ts"
  have len: "length E = 32" "length d1 = 32" "length d2 = 32" "length T = 12"
    using length_base [OF assms(1)] dh_length [OF assms(1,5)] dh_length [OF assms(1,6)]
    by (simp_all add: E_def T_def length_le_write)
  note h = mix_hash_eq [of noise_h0 32 S] mix_hash_eq [of "noise_mix noise_h0 S" 32 E]
    mix_hash_eq [of "n_h1 S E" 48 "n_static S E d1 P"] mix_hash_eq [of "n_h2 S E d1 P" 28 "n_time S E d1 P d2 T"]
  have mk: "vpn_crypto_hash (Some S) 32 = Inr (blake2b_spec 32 [] S)"
    using vpn_crypto_hash_eq [of 32 S] assms(4) by simp
  have mac: "vpn_crypto_mac16 (Some (blake2b_spec 32 [] S)) 32 (Some (E @ n_static S E d1 P @ n_time S E d1 P d2 T)) 108
      = Inr (blake2b_spec 16 (blake2b_spec 32 [] S) (E @ n_static S E d1 P @ n_time S E d1 P d2 T))"
    using vpn_crypto_mac16_eq [of 108 "E @ n_static S E d1 P @ n_time S E d1 P d2 T" "blake2b_spec 32 [] S"] assms(3) len
    by (simp add: length_blake2b_spec)
  show ?thesis
    unfolding initiation_msg_def keypair_eq E_def [symmetric] T_def [symmetric]
    using h assms(3,4) len
    by (simp add: init_chaining_eq n_h1_def [symmetric] kdf_32 n_c1_def [symmetric] assms(5,6) n_c2_def [symmetric]
        seal_field_eq small_limit n_static_def [symmetric] n_h2_def [symmetric] n_c3_def [symmetric] n_time_def [symmetric]
        n_h3_def [symmetric] mk mac n_init_msg_def Let_def T_def [symmetric])
qed

text \<open>
  The responder accepts exactly the messages whose two fields are sealed with the keys that the
  secrets give, for a peer of the table and a timestamp that is not stale.
\<close>

definition init_authentic :: "x25519 \<Rightarrow> bytes \<Rightarrow> bytes \<Rightarrow> vpn_peer_table_t \<Rightarrow> packet_handshake_init_t
  \<Rightarrow> bytes \<Rightarrow> bytes \<Rightarrow> bytes \<Rightarrow> bytes \<Rightarrow> nat \<Rightarrow> bool" where
  "init_authentic X priv S table m d1 P d2 T i \<longleftrightarrow>
     vpn_crypto_dh X (Some (hi_unencrypted_ephemeral m)) (Some priv) = Inr d1
     \<and> hi_encrypted_static m = n_static S (hi_unencrypted_ephemeral m) d1 P \<and> length P = 32
     \<and> peer_find_by_pubkey (Some table) (Some P) = Some i
     \<and> vpn_crypto_dh X (Some P) (Some priv) = Inr d2
     \<and> hi_encrypted_timestamp m = n_time S (hi_unencrypted_ephemeral m) d1 P d2 T \<and> length T = 12"

definition init_accepted :: "x25519 \<Rightarrow> bytes \<Rightarrow> bytes \<Rightarrow> vpn_peer_table_t \<Rightarrow> packet_handshake_init_t
  \<Rightarrow> bytes \<Rightarrow> bytes \<Rightarrow> bytes \<Rightarrow> bytes \<Rightarrow> nat \<Rightarrow> bool" where
  "init_accepted X priv S table m d1 P d2 T i \<longleftrightarrow> init_authentic X priv S table m d1 P d2 T i
     \<and> (last_handshake_time (peers table ! i) = 0 \<or> last_handshake_time (peers table ! i) < sint (le64_read T))"

lemma consume_initiation_start:
  assumes "x25519_sizes X" "init_wf m" "length S = 32" "vpn_crypto_dh X (Some (hi_unencrypted_ephemeral m)) (Some priv) = Inr d1"
  shows "consume_initiation_msg X priv S table m =
    rbind (open_field (kdf_T2 (n_c1 (hi_unencrypted_ephemeral m)) d1) (n_h1 S (hi_unencrypted_ephemeral m)) (hi_encrypted_static m) 32) (\<lambda>P.
    case peer_find_by_pubkey (Some table) (Some P) of
      None \<Rightarrow> Inl EACCES
    | Some i \<Rightarrow>
        rbind (failing EBADMSG (vpn_crypto_dh X (Some P) (Some priv))) (\<lambda>d2.
        rbind (vpn_kdf2 (n_c2 (hi_unencrypted_ephemeral m) d1) (Some d2) 32) (\<lambda>(ck, kappa2).
        rbind (open_field kappa2 (noise_mix (n_h1 S (hi_unencrypted_ephemeral m)) (hi_encrypted_static m)) (hi_encrypted_timestamp m) 12) (\<lambda>T.
        if last_handshake_time (peers table ! i) \<noteq> 0 \<and> sint (le64_read T) \<le> last_handshake_time (peers table ! i) then Inl EBADMSG
        else Inr (i, ck, noise_mix (noise_mix (n_h1 S (hi_unencrypted_ephemeral m)) (hi_encrypted_static m)) (hi_encrypted_timestamp m))))))"
proof -
  define E where "E = hi_unencrypted_ephemeral m"
  have len: "length E = 32" "length d1 = 32" "length (hi_encrypted_static m) = 48" "length (hi_encrypted_timestamp m) = 28"
    using assms(2) dh_length [OF assms(1,4)] by (simp_all add: E_def init_wf_def)
  note h = mix_hash_eq [of noise_h0 32 S] mix_hash_eq [of "noise_mix noise_h0 S" 32 E]
    mix_hash_eq [of "n_h1 S E" 48 "hi_encrypted_static m"]
    mix_hash_eq [of "noise_mix (n_h1 S E) (hi_encrypted_static m)" 28 "hi_encrypted_timestamp m"]
  show ?thesis
    unfolding consume_initiation_msg_def E_def [symmetric] Let_def
    using h assms(3) len assms(4) [folded E_def]
    by (simp add: init_chaining_eq n_h1_def [symmetric] kdf_32 n_c1_def [symmetric] n_c2_def [symmetric]
        cong: option.case_cong if_cong)
qed

lemma consume_initiation_authentic:
  assumes "x25519_sizes X" "init_wf m" "length S = 32" "init_authentic X priv S table m d1 P d2 T i"
  shows "consume_initiation_msg X priv S table m =
    (if last_handshake_time (peers table ! i) \<noteq> 0 \<and> sint (le64_read T) \<le> last_handshake_time (peers table ! i) then Inl EBADMSG
     else Inr (i, n_c3 (hi_unencrypted_ephemeral m) d1 d2, n_h3 S (hi_unencrypted_ephemeral m) d1 P d2 T))"
proof -
  define E where "E = hi_unencrypted_ephemeral m"
  note lim = small_limit [of 32, simplified] small_limit [of 12, simplified]
  note acc = assms(4) [unfolded init_authentic_def, folded E_def]
  have d1: "vpn_crypto_dh X (Some E) (Some priv) = Inr d1" and d2: "vpn_crypto_dh X (Some P) (Some priv) = Inr d2" using acc by simp_all
  note k = kdf_32(2) [OF _ dh_length [OF assms(1) d2], of "n_c2 E d1", simplified]
  have o1: "open_field (kdf_T2 (n_c1 E) d1) (n_h1 S E) (n_static S E d1 P) 32 = Inr P"
    unfolding n_static_def using acc lim by (intro open_noise_seal) simp_all
  have o2: "open_field (kdf_T2 (n_c2 E d1) d2) (n_h2 S E d1 P) (n_time S E d1 P d2 T) 12 = Inr T"
    unfolding n_time_def using acc lim by (intro open_noise_seal) simp_all
  show ?thesis
    unfolding consume_initiation_start [OF assms(1-3) d1 [unfolded E_def]] E_def [symmetric]
    using acc by (simp add: o1 k n_h2_def [symmetric] o2 n_c3_def [symmetric] n_h3_def [symmetric])
qed

lemma consume_initiation_iff:
  assumes "x25519_sizes X" "init_wf m" "length S = 32"
  shows "consume_initiation_msg X priv S table m = Inr (i, ck, h) \<longleftrightarrow>
    (\<exists>d1 P d2 T. init_accepted X priv S table m d1 P d2 T i \<and> ck = n_c3 (hi_unencrypted_ephemeral m) d1 d2
       \<and> h = n_h3 S (hi_unencrypted_ephemeral m) d1 P d2 T)"
    (is "?L \<longleftrightarrow> ?R")
proof -
  define E where "E = hi_unencrypted_ephemeral m"
  have len: "length E = 32" "length (hi_encrypted_static m) = 32 + 16" "length (hi_encrypted_timestamp m) = 12 + 16"
    using assms(2) by (simp_all add: E_def init_wf_def)
  note lim = small_limit [of 32, simplified] small_limit [of 12, simplified]
  show ?thesis
  proof
    assume L: ?L
    obtain d1 where d1: "vpn_crypto_dh X (Some E) (Some priv) = Inr d1"
      using L by (auto simp: consume_initiation_msg_def E_def rbind_eq_Inr failing_Inr split: prod.splits)
    note L' = L [unfolded consume_initiation_start [OF assms d1 [unfolded E_def]], folded E_def]
    obtain P where P: "open_field (kdf_T2 (n_c1 E) d1) (n_h1 S E) (hi_encrypted_static m) 32 = Inr P"
        "peer_find_by_pubkey (Some table) (Some P) \<noteq> None"
      using L' by (auto simp: rbind_eq_Inr split: option.splits)
    have es: "hi_encrypted_static m = n_static S E d1 P" "length P = 32"
      using open_field_Inr [OF len(2) lim(1) P(1)] by (simp_all add: n_static_def)
    obtain d2 where d2: "vpn_crypto_dh X (Some P) (Some priv) = Inr d2"
      using L' P by (auto simp: rbind_eq_Inr failing_Inr split: option.splits prod.splits)
    note k = kdf_32(2) [OF _ dh_length [OF assms(1) d2], of "n_c2 E d1", simplified]
    have L2: "rbind (open_field (kdf_T2 (n_c2 E d1) d2) (n_h2 S E d1 P) (hi_encrypted_timestamp m) 12) (\<lambda>T.
        if last_handshake_time (peers table ! i) \<noteq> 0 \<and> sint (le64_read T) \<le> last_handshake_time (peers table ! i) then Inl EBADMSG
        else Inr (i, n_c3 E d1 d2, noise_mix (n_h2 S E d1 P) (hi_encrypted_timestamp m))) = Inr (i, ck, h)"
        "peer_find_by_pubkey (Some table) (Some P) = Some i"
      using L' P d2 k by (auto simp: rbind_eq_Inr es n_h2_def n_c3_def split: option.splits if_splits)
    then obtain T where T: "open_field (kdf_T2 (n_c2 E d1) d2) (n_h2 S E d1 P) (hi_encrypted_timestamp m) 12 = Inr T"
        "\<not> (last_handshake_time (peers table ! i) \<noteq> 0 \<and> sint (le64_read T) \<le> last_handshake_time (peers table ! i))"
        "ck = n_c3 E d1 d2" "h = noise_mix (n_h2 S E d1 P) (hi_encrypted_timestamp m)"
      by (auto simp: rbind_eq_Inr split: if_splits)
    have et: "hi_encrypted_timestamp m = n_time S E d1 P d2 T" "length T = 12"
      using open_field_Inr [OF len(3) lim(2) T(1)] by (simp_all add: n_time_def)
    have "init_accepted X priv S table m d1 P d2 T i"
      using d1 es L2(2) d2 et T(2) by (auto simp: init_accepted_def init_authentic_def E_def)
    then show ?R using T(3,4) et by (auto simp: n_h3_def E_def)
  next
    assume ?R
    then show ?L using consume_initiation_authentic [OF assms] by (auto simp: init_accepted_def)
  qed
qed

definition n_resp_msg :: "bytes \<Rightarrow> bytes \<Rightarrow> bytes \<Rightarrow> bytes \<Rightarrow> bytes \<Rightarrow> bytes \<Rightarrow> u32 \<Rightarrow> u32 \<Rightarrow> packet_handshake_resp_t" where
  "n_resp_msg c h P R d3 d4 my_index their_index =
     \<lparr>hr_sender_index = my_index, hr_receiver_index = their_index, hr_unencrypted_ephemeral = R,
      hr_encrypted_nothing = n_empty c h R d3 d4,
      hr_mac1 = blake2b_spec 16 (blake2b_spec 32 [] P) (R @ n_empty c h R d3 d4 @ zeros 4), hr_mac2 = zeros 16\<rparr>"

lemma length_n_empty [simp]: "length (n_empty c h R d3 d4) = 16"
  by (simp add: n_empty_def)

lemma resp_wf_n_resp_msg: "length R = 32 \<Longrightarrow> resp_wf (n_resp_msg c h P R d3 d4 mi ti)"
  by (simp add: resp_wf_def n_resp_msg_def length_blake2b_spec)

lemma seal_empty:
  "vpn_crypto_aead_encrypt None None 0 h 0 (Some key) = Inr (None, vpn_tag key 0 h [])"
  using aead_encrypt_eq [of "[]" h "vpn_crypto_format_nonce 0" key]
  by (simp add: vpn_crypto_aead_encrypt_def Let_def stream_ietf_ext_ref_xor_ic_def)

lemma open_empty:
  "length t = 16 \<Longrightarrow> vpn_crypto_aead_decrypt None None 0 (Some t) h 0 (Some key) =
     (if t = vpn_tag key 0 h [] then Inr () else Inl EBADMSG, None)"
  using aead_decrypt_eq [of "[]" t "[]" h "vpn_crypto_format_nonce 0" key]
  by (simp add: vpn_crypto_aead_decrypt_def Let_def)

lemma response_msg_eq:
  assumes "x25519_sizes X" "length P = 32" "length c = 32" "length h = 32"
    and "vpn_crypto_dh X (Some E) (Some (take 32 rnd)) = Inr d3" "vpn_crypto_dh X (Some P) (Some (take 32 rnd)) = Inr d4"
  shows "response_msg X rnd E P mi ti c h =
    Inr (n_resp_msg c h P (x_mult_base X (take 32 rnd)) d3 d4 mi ti,
      kdf_T1 (n_c6 c (x_mult_base X (take 32 rnd)) d3 d4) [], kdf_T2 (n_c6 c (x_mult_base X (take 32 rnd)) d3 d4) [])"
proof -
  define R where "R = x_mult_base X (take 32 rnd)"
  have len: "length R = 32" "length d3 = 32" "length d4 = 32"
    using length_base [OF assms(1)] dh_length [OF assms(1,5)] dh_length [OF assms(1,6)] by (simp_all add: R_def)
  note h = mix_hash_eq [of h 32 R] mix_hash_eq [of "noise_mix h R" 16 "n_empty c h R d3 d4"]
  have mk: "vpn_crypto_hash (Some P) 32 = Inr (blake2b_spec 32 [] P)"
    using vpn_crypto_hash_eq [of 32 P] assms(2) by simp
  have mac: "vpn_crypto_mac16 (Some (blake2b_spec 32 [] P)) 32 (Some (R @ n_empty c h R d3 d4 @ zeros 4)) 52
      = Inr (blake2b_spec 16 (blake2b_spec 32 [] P) (R @ n_empty c h R d3 d4 @ zeros 4))"
    using vpn_crypto_mac16_eq [of 52 "R @ n_empty c h R d3 d4 @ zeros 4" "blake2b_spec 32 [] P"] len
    by (simp add: length_blake2b_spec)
  show ?thesis
    unfolding response_msg_def keypair_eq R_def [symmetric]
    using h assms(2-4) len
    by (simp add: kdf_32 assms(5,6) n_c5_def [symmetric] seal_empty n_empty_def [symmetric] n_c6_def [symmetric]
        kdf_empty mk mac n_resp_msg_def)
qed

lemma consume_response_eq:
  assumes "x25519_sizes X" "resp_wf m" "length (hs_hash st) = 32" "length (hs_chaining_key st) = 32"
    and "hr_receiver_index m = hs_local_index st"
    and "vpn_crypto_dh X (Some (hr_unencrypted_ephemeral m)) (Some (hs_ephemeral_private st)) = Inr d3"
      "vpn_crypto_dh X (Some (hr_unencrypted_ephemeral m)) (Some priv) = Inr d4"
  shows "consume_response_msg X priv st m =
    (if hr_encrypted_nothing m = n_empty (hs_chaining_key st) (hs_hash st) (hr_unencrypted_ephemeral m) d3 d4
     then Inr (hr_sender_index m, kdf_T2 (n_c6 (hs_chaining_key st) (hr_unencrypted_ephemeral m) d3 d4) [],
       kdf_T1 (n_c6 (hs_chaining_key st) (hr_unencrypted_ephemeral m) d3 d4) [])
     else Inl EBADMSG)"
proof -
  define R where "R = hr_unencrypted_ephemeral m"
  define c h where "c = hs_chaining_key st" and "h = hs_hash st"
  have len: "length R = 32" "length d3 = 32" "length d4 = 32" "length (hr_encrypted_nothing m) = 16" "length c = 32" "length h = 32"
    using dh_length [OF assms(1,6)] dh_length [OF assms(1,7)] assms(2-4) by (simp_all add: R_def resp_wf_def c_def h_def)
  note mh = mix_hash_eq [of h 32 R] mix_hash_eq [of "noise_mix h R" 16 "hr_encrypted_nothing m"]
  show ?thesis
    unfolding consume_response_msg_def R_def [symmetric] c_def [symmetric] h_def [symmetric]
    using mh len assms(5) assms(6,7) [folded R_def]
    by (simp add: kdf_32 n_c5_def [symmetric] open_empty n_empty_def [symmetric] n_c6_def [symmetric] kdf_empty failing_def)
qed

lemma consume_response_iff:
  assumes "x25519_sizes X" "resp_wf m" "length (hs_hash st) = 32" "length (hs_chaining_key st) = 32"
  shows "consume_response_msg X priv st m = Inr (idx, sk, rk) \<longleftrightarrow>
    (\<exists>d3 d4. vpn_crypto_dh X (Some (hr_unencrypted_ephemeral m)) (Some (hs_ephemeral_private st)) = Inr d3
       \<and> vpn_crypto_dh X (Some (hr_unencrypted_ephemeral m)) (Some priv) = Inr d4
       \<and> hr_receiver_index m = hs_local_index st
       \<and> hr_encrypted_nothing m = n_empty (hs_chaining_key st) (hs_hash st) (hr_unencrypted_ephemeral m) d3 d4
       \<and> idx = hr_sender_index m
       \<and> sk = kdf_T2 (n_c6 (hs_chaining_key st) (hr_unencrypted_ephemeral m) d3 d4) []
       \<and> rk = kdf_T1 (n_c6 (hs_chaining_key st) (hr_unencrypted_ephemeral m) d3 d4) [])"
    (is "?L \<longleftrightarrow> ?R")
proof
  assume L: ?L
  then have ri: "hr_receiver_index m = hs_local_index st" by (auto simp: consume_response_msg_def split: if_splits)
  obtain d3 d4 where d: "vpn_crypto_dh X (Some (hr_unencrypted_ephemeral m)) (Some (hs_ephemeral_private st)) = Inr d3"
      "vpn_crypto_dh X (Some (hr_unencrypted_ephemeral m)) (Some priv) = Inr d4"
    using L ri by (auto simp: consume_response_msg_def rbind_eq_Inr failing_Inr split: prod.splits)
  show ?R using L consume_response_eq [OF assms ri d] ri d by (auto split: if_splits)
next
  assume ?R
  then show ?L using consume_response_eq [OF assms] by auto
qed

text \<open>Buffers.\<close>

lemma create_initiation_Inr:
  assumes "x25519_sizes X" "length rnd \<ge> 32" "length P = 32" "length S = 32"
    and "handshake_create_initiation X rnd ts (Some buf) (Some priv) (Some P) (Some S) idx (Some st0) = Inr ((n, pkt), st)"
  obtains d1 d2 where
    "vpn_crypto_dh X (Some S) (Some (take 32 rnd)) = Inr d1" "vpn_crypto_dh X (Some S) (Some priv) = Inr d2"
    "n = 148" "take n pkt = init_wire (n_init_msg S (x_mult_base X (take 32 rnd)) d1 P d2 (timestamp_bytes ts) idx)"
    "st = \<lparr>hs_ephemeral_private = take 32 rnd, hs_chaining_key = n_c3 (x_mult_base X (take 32 rnd)) d1 d2,
       hs_hash = n_h3 S (x_mult_base X (take 32 rnd)) d1 P d2 (timestamp_bytes ts), hs_local_index = idx, hs_timestamp = fst ts\<rparr>"
proof -
  let ?T = "timestamp_bytes ts" and ?E = "x_mult_base X (take 32 rnd)"
  have msg: "\<exists>msg. initiation_msg X rnd ts priv P S idx = Inr (msg, st) \<and>
      packet_serialize_handshake_init (Some buf) (Some msg) = Inr (n, pkt)" and buf: "148 \<le> length buf"
    using assms(5) by (auto simp: handshake_create_initiation_def rbind_eq_Inr split: if_splits prod.splits)
  obtain d1 d2 where d: "vpn_crypto_dh X (Some S) (Some (take 32 rnd)) = Inr d1" "vpn_crypto_dh X (Some S) (Some priv) = Inr d2"
    using msg by (auto simp: initiation_msg_def keypair_eq rbind_eq_Inr failing_Inr split: prod.splits)
  have wf: "init_wf (n_init_msg S ?E d1 P d2 ?T idx)"
    by (rule init_wf_n_init_msg) (use assms(3) length_base [OF assms(1)] in \<open>simp_all add: length_le_write\<close>)
  have "length (init_wire (n_init_msg S ?E d1 P d2 ?T idx)) = 148"
    using wf by (simp add: init_wire_def init_wf_def length_le_write)
  then show ?thesis
    using msg initiation_msg_eq [OF assms(1-4) d] serialize_init_wire [OF wf buf] d that by auto
qed

lemma create_response_Inr:
  assumes "x25519_sizes X" "length P = 32" "length c = 32" "length h = 32"
    and "handshake_create_response X rnd (Some buf) (Some priv) (Some E) (Some P) mi ti (Some c) (Some h) = Inr ((n, pkt), sk, rk)"
  obtains d3 d4 where
    "vpn_crypto_dh X (Some E) (Some (take 32 rnd)) = Inr d3" "vpn_crypto_dh X (Some P) (Some (take 32 rnd)) = Inr d4"
    "n = 92" "take n pkt = resp_wire (n_resp_msg c h P (x_mult_base X (take 32 rnd)) d3 d4 mi ti)"
    "sk = kdf_T1 (n_c6 c (x_mult_base X (take 32 rnd)) d3 d4) []" "rk = kdf_T2 (n_c6 c (x_mult_base X (take 32 rnd)) d3 d4) []"
proof -
  let ?R = "x_mult_base X (take 32 rnd)"
  have msg: "\<exists>msg. response_msg X rnd E P mi ti c h = Inr (msg, sk, rk) \<and>
      packet_serialize_handshake_resp (Some buf) (Some msg) = Inr (n, pkt)" and buf: "92 \<le> length buf"
    using assms(3-5) by (auto simp: handshake_create_response_def rbind_eq_Inr split: if_splits prod.splits)
  obtain d3 d4 where d: "vpn_crypto_dh X (Some E) (Some (take 32 rnd)) = Inr d3" "vpn_crypto_dh X (Some P) (Some (take 32 rnd)) = Inr d4"
    using msg by (auto simp: response_msg_def keypair_eq rbind_eq_Inr failing_Inr split: prod.splits)
  have wf: "resp_wf (n_resp_msg c h P ?R d3 d4 mi ti)" by (rule resp_wf_n_resp_msg) (rule length_base [OF assms(1)])
  have "length (resp_wire (n_resp_msg c h P ?R d3 d4 mi ti)) = 92"
    using wf by (simp add: resp_wire_def resp_wf_def length_le_write)
  then show ?thesis
    using msg response_msg_eq [OF assms(1-4) d] serialize_resp_wire [OF wf buf] d that by auto
qed

lemma create_initiation_ok:
  assumes "x25519_sizes X" "length rnd \<ge> 32" "length P = 32" "length S = 32" "length buf \<ge> 148"
    and "vpn_crypto_dh X (Some S) (Some (take 32 rnd)) = Inr d1" "vpn_crypto_dh X (Some S) (Some priv) = Inr d2"
  shows "\<exists>n pkt st. handshake_create_initiation X rnd ts (Some buf) (Some priv) (Some P) (Some S) idx (Some st0) = Inr ((n, pkt), st)"
proof -
  have "init_wf (n_init_msg S (x_mult_base X (take 32 rnd)) d1 P d2 (timestamp_bytes ts) idx)"
    by (rule init_wf_n_init_msg) (use assms(3) length_base [OF assms(1)] in \<open>simp_all add: length_le_write\<close>)
  from serialize_init_wire [OF this assms(5)] show ?thesis
    using initiation_msg_eq [OF assms(1-4,6,7), of ts idx] assms(5) by (simp add: handshake_create_initiation_def)
qed

lemma create_response_ok:
  assumes "x25519_sizes X" "length P = 32" "length c = 32" "length h = 32" "length buf \<ge> 92"
    and "vpn_crypto_dh X (Some E) (Some (take 32 rnd)) = Inr d3" "vpn_crypto_dh X (Some P) (Some (take 32 rnd)) = Inr d4"
  shows "\<exists>n pkt sk rk. handshake_create_response X rnd (Some buf) (Some priv) (Some E) (Some P) mi ti (Some c) (Some h) = Inr ((n, pkt), sk, rk)"
proof -
  have "resp_wf (n_resp_msg c h P (x_mult_base X (take 32 rnd)) d3 d4 mi ti)"
    by (rule resp_wf_n_resp_msg [OF length_base [OF assms(1)]])
  from serialize_resp_wire [OF this assms(5)] show ?thesis
    using response_msg_eq [OF assms(1-4,6,7), of mi ti] assms(3-5) by (simp add: handshake_create_response_def)
qed

lemma handshake_consume_initiation_iff:
  assumes "x25519_sizes X" "length S = 32"
  shows "handshake_consume_initiation X (Some b) (Some priv) (Some S) (Some t) = Inr (i, m, ck, h) \<longleftrightarrow>
    packet_parse_handshake_init (Some b) = Inr m \<and>
    (\<exists>d1 P d2 T. init_accepted X priv S t m d1 P d2 T i \<and> ck = n_c3 (hi_unencrypted_ephemeral m) d1 d2
       \<and> h = n_h3 S (hi_unencrypted_ephemeral m) d1 P d2 T)"
proof -
  have c: "handshake_consume_initiation X (Some b) (Some priv) (Some S) (Some t) = Inr (i, m, ck, h) \<longleftrightarrow>
      packet_parse_handshake_init (Some b) = Inr m \<and> consume_initiation_msg X priv S t m = Inr (i, ck, h)"
    by (auto simp: handshake_consume_initiation_def rbind_eq_Inr)
  show ?thesis
  proof (cases "packet_parse_handshake_init (Some b) = Inr m")
    case True
    then have "init_wf m" by (rule init_codec.parse_wf)
    then show ?thesis unfolding c by (simp only: consume_initiation_iff [OF assms(1) _ assms(2)])
  qed (simp add: c)
qed

text \<open>A function with the Diffie-Hellman property, on which the hypotheses hold.\<close>

definition pad32 :: "bytes \<Rightarrow> bytes" where
  "pad32 x = take 32 (x @ zeros 32)"

definition x25519_sum :: x25519 where
  "x25519_sum = \<lparr>x_mult = (\<lambda>n p. Some (map2 (+) (pad32 n) (pad32 p))), x_mult_base = pad32\<rparr>"

lemma pad32_simps [simp]: "length (pad32 x) = 32" "length x = 32 \<Longrightarrow> pad32 x = x"
  by (simp_all add: pad32_def)

lemma map2_add_commute: "map2 (+) xs ys = map2 (+) ys (xs :: bytes)"
  by (induction xs ys rule: list_induct2') (simp_all add: add.commute)

lemma x25519_sum_sizes: "x25519_sizes x25519_sum"
  by (auto simp: x25519_sizes_def x25519_sum_def)

lemma x25519_sum_ok: "x25519_ok x25519_sum"
  by (auto simp: x25519_ok_def x25519_sizes_def x25519_sum_def intro: map2_add_commute)

lemma dh_sum:
  assumes "length p = 32" "length n = 32" "map2 (+) n p \<noteq> zeros 32"
  shows "vpn_crypto_dh x25519_sum (Some p) (Some n) = Inr (map2 (+) n p)"
  using crypto_scalarmult_zero [of x25519_sum n p "map2 (+) n p"] assms
  by (simp add: vpn_crypto_dh_def x25519_sum_def)

lemma dh_sum_replicate:
  "a + b \<noteq> 0 \<Longrightarrow> vpn_crypto_dh x25519_sum (Some (replicate 32 b)) (Some (replicate 32 a)) = Inr (replicate 32 (a + b))"
  using dh_sum [of "replicate 32 b" "replicate 32 a"] by (simp add: zip_replicate zeros_def replicate_eq_replicate)

definition sample_table :: vpn_peer_table_t where
  "sample_table = \<lparr>peers = [peer_zero\<lparr>public_key := replicate 32 1\<rparr>], next_local_index = 1\<rparr>"

lemma sample_table_wf: "table_wf sample_table"
  by (simp add: sample_table_def table_wf_def peer_wf_def peer_zero_def)

lemma sample_initiation:
  "\<exists>b m ck h. handshake_consume_initiation x25519_sum (Some b) (Some (replicate 32 2)) (Some (replicate 32 2)) (Some sample_table)
     = Inr (0, m, ck, h)"
proof -
  define S E P T :: bytes where "S = replicate 32 2" and "E = replicate 32 3" and "P = replicate 32 1" and "T = zeros 12"
  have len: "length S = 32" "length E = 32" "length P = 32" "length T = 12" by (simp_all add: S_def E_def P_def T_def)
  let ?m = "n_init_msg S E (replicate 32 5) P (replicate 32 3) T 7"
  have "peer_find_by_pubkey (Some sample_table) (Some P) = Some 0"
    using find_by_pubkey_iff [OF sample_table_wf len(3)] by (simp add: sample_table_def P_def)
  then have "init_accepted x25519_sum S S sample_table ?m (replicate 32 5) P (replicate 32 3) T 0"
    using dh_sum_replicate [of 2 3] dh_sum_replicate [of 2 1] len
    by (simp add: init_accepted_def init_authentic_def n_init_msg_def sample_table_def peer_zero_def S_def E_def P_def)
  moreover have "packet_parse_handshake_init (Some (init_wire ?m)) = Inr ?m"
    by (rule parse_init_wire, rule init_wf_n_init_msg) (rule len)+
  ultimately show ?thesis using handshake_consume_initiation_iff [OF x25519_sum_sizes len(1)] unfolding S_def by blast
qed

text \<open>The parsed messages up to the MACs depend only on the bytes before them.\<close>

lemma slice_take_eq: "take n x = take n y \<Longrightarrow> off + k \<le> n \<Longrightarrow> slice off k x = slice off k (y :: bytes)"
  by (metis slice_def take_drop take_take min.absorb1 add.commute)

lemma le32_slice: "le32_read (drop off p) = le32_read (slice off 4 p)"
  by (simp add: slice_def le32_read_take)

lemma nth_take_eq: "take n x = take n y \<Longrightarrow> i < n \<Longrightarrow> x ! i = (y :: bytes) ! i"
  by (metis nth_take)

lemma parse_init_prefix:
  assumes "length b = 148" "length b' = 148" "take 116 b = take 116 b'"
  shows "packet_parse_handshake_init (Some b') = map_sum id (\<lambda>m. m\<lparr>hi_mac1 := slice 116 16 b', hi_mac2 := slice 132 16 b'\<rparr>)
    (packet_parse_handshake_init (Some b))"
  using assms(1,2) nth_take_eq [OF assms(3), of 0] slice_take_eq [OF assms(3)]
  by (simp add: packet_parse_handshake_init_def le32_slice)

lemma parse_resp_prefix:
  assumes "length b = 92" "length b' = 92" "take 60 b = take 60 b'"
  shows "packet_parse_handshake_resp (Some b') = map_sum id (\<lambda>m. m\<lparr>hr_mac1 := slice 60 16 b', hr_mac2 := slice 76 16 b'\<rparr>)
    (packet_parse_handshake_resp (Some b))"
  using assms(1,2) nth_take_eq [OF assms(3), of 0] slice_take_eq [OF assms(3)]
  by (simp add: packet_parse_handshake_resp_def le32_slice)

lemma consume_ignores_macs:
  "consume_initiation_msg X priv S t (m\<lparr>hi_mac1 := x, hi_mac2 := y\<rparr>) = consume_initiation_msg X priv S t m"
  "consume_response_msg X priv st (r\<lparr>hr_mac1 := x, hr_mac2 := y\<rparr>) = consume_response_msg X priv st r"
proof -
  have i: "hi_unencrypted_ephemeral (m\<lparr>hi_mac1 := x, hi_mac2 := y\<rparr>) = hi_unencrypted_ephemeral m"
      "hi_encrypted_static (m\<lparr>hi_mac1 := x, hi_mac2 := y\<rparr>) = hi_encrypted_static m"
      "hi_encrypted_timestamp (m\<lparr>hi_mac1 := x, hi_mac2 := y\<rparr>) = hi_encrypted_timestamp m" by simp_all
  have r: "hr_unencrypted_ephemeral (r\<lparr>hr_mac1 := x, hr_mac2 := y\<rparr>) = hr_unencrypted_ephemeral r"
      "hr_encrypted_nothing (r\<lparr>hr_mac1 := x, hr_mac2 := y\<rparr>) = hr_encrypted_nothing r"
      "hr_receiver_index (r\<lparr>hr_mac1 := x, hr_mac2 := y\<rparr>) = hr_receiver_index r"
      "hr_sender_index (r\<lparr>hr_mac1 := x, hr_mac2 := y\<rparr>) = hr_sender_index r" by simp_all
  show "consume_initiation_msg X priv S t (m\<lparr>hi_mac1 := x, hi_mac2 := y\<rparr>) = consume_initiation_msg X priv S t m"
    unfolding consume_initiation_msg_def i ..
  show "consume_response_msg X priv st (r\<lparr>hr_mac1 := x, hr_mac2 := y\<rparr>) = consume_response_msg X priv st r"
    unfolding consume_response_msg_def r ..
qed

lemma timestamp_read:
  assumes "- (2 ^ 63) \<le> fst ts" "fst ts < 2 ^ 63"
  shows "sint (le64_read (timestamp_bytes ts)) = fst ts"
  using assms by (simp add: le64_read_write sint_sbintrunc' signed_take_bit_int_eq_self)

section \<open>Properties\<close>

text \<open>
  C5: key agreement. If a configured initiator creates an initiation for the responder, the responder
  accepts it, for the right peer, whenever the timestamp is later than the last handshake; the
  response that it then creates is accepted by the initiator, the two directions get the same keys on
  both sides, and each side learns the other's receiver index. The hypothesis on X25519 is the
  Diffie-Hellman property.
\<close>

theorem handshake_key_agreement:
  assumes "x25519_ok X" "length si = 32" "length sr = 32" "length rnd \<ge> 32"
    and "table_wf t" "i < length (peers t)" "public_key (peers t ! i) = x_mult_base X si"
    and "- (2 ^ 63) \<le> fst ts" "fst ts < 2 ^ 63"
    and "last_handshake_time (peers t ! i) = 0 \<or> last_handshake_time (peers t ! i) < fst ts"
    and "handshake_create_initiation X rnd ts (Some buf) (Some si) (Some (x_mult_base X si)) (Some (x_mult_base X sr)) idx (Some st0)
      = Inr ((n, pkt), st)"
  shows "\<exists>parsed ck h. handshake_consume_initiation X (Some (take n pkt)) (Some sr) (Some (x_mult_base X sr)) (Some t)
        = Inr (i, parsed, ck, h)
    \<and> hi_sender_index parsed = idx
    \<and> (\<forall>rnd' buf' idx' n' pkt' sk rk. length rnd' \<ge> 32 \<longrightarrow>
         handshake_create_response X rnd' (Some buf') (Some sr) (Some (hi_unencrypted_ephemeral parsed))
           (Some (public_key (peers t ! i))) idx' (hi_sender_index parsed) (Some ck) (Some h) = Inr ((n', pkt'), sk, rk) \<longrightarrow>
         handshake_consume_response X (Some (take n' pkt')) (Some si) (Some st) (Some (x_mult_base X sr)) = Inr (idx', rk, sk)
         \<and> length sk = VPN_KEY_LEN \<and> length rk = VPN_KEY_LEN)"
proof -
  let ?P = "x_mult_base X si" and ?S = "x_mult_base X sr" and ?e = "take 32 rnd" and ?T = "timestamp_bytes ts"
  let ?E = "x_mult_base X ?e"
  have sz: "x25519_sizes X" using assms(1) by (simp add: x25519_ok_def)
  note lb = length_base [OF sz]
  have le: "length ?e = 32" using assms(4) by simp
  obtain d1 d2 where d: "vpn_crypto_dh X (Some ?S) (Some ?e) = Inr d1" "vpn_crypto_dh X (Some ?S) (Some si) = Inr d2"
    and "n = 148" and pkt: "take n pkt = init_wire (n_init_msg ?S ?E d1 ?P d2 ?T idx)"
    and st: "st = \<lparr>hs_ephemeral_private = ?e, hs_chaining_key = n_c3 ?E d1 d2, hs_hash = n_h3 ?S ?E d1 ?P d2 ?T,
      hs_local_index = idx, hs_timestamp = fst ts\<rparr>"
    by (rule create_initiation_Inr [OF sz assms(4) lb lb assms(11)]) (rule that)
  let ?m = "n_init_msg ?S ?E d1 ?P d2 ?T idx"
  have wf: "init_wf ?m" by (rule init_wf_n_init_msg) (simp_all add: lb length_le_write)
  have "peer_find_by_pubkey (Some t) (Some ?P) = Some i"
    using find_by_pubkey_iff [OF assms(5) lb] assms(6,7) by simp
  then have "init_accepted X sr ?S t ?m d1 ?P d2 ?T i"
    using d dh_sym [OF assms(1) assms(3) le] dh_sym [OF assms(1,3,2)] assms(10) timestamp_read [OF assms(8,9)] lb
    by (simp add: init_accepted_def init_authentic_def n_init_msg_def length_le_write)
  then have "consume_initiation_msg X sr ?S t ?m = Inr (i, n_c3 ?E d1 d2, n_h3 ?S ?E d1 ?P d2 ?T)"
    using consume_initiation_iff [OF sz wf lb] by (auto simp: n_init_msg_def)
  then have ci: "handshake_consume_initiation X (Some (take n pkt)) (Some sr) (Some ?S) (Some t)
      = Inr (i, ?m, n_c3 ?E d1 d2, n_h3 ?S ?E d1 ?P d2 ?T)"
    by (simp add: handshake_consume_initiation_def pkt parse_init_wire [OF wf])
  have resp: "handshake_consume_response X (Some (take n' pkt')) (Some si) (Some st) (Some ?S) = Inr (idx', rk, sk)
      \<and> length sk = VPN_KEY_LEN \<and> length rk = VPN_KEY_LEN"
    if l: "length rnd' \<ge> 32" and cr: "handshake_create_response X rnd' (Some buf') (Some sr) (Some ?E) (Some ?P) idx' idx
      (Some (n_c3 ?E d1 d2)) (Some (n_h3 ?S ?E d1 ?P d2 ?T)) = Inr ((n', pkt'), sk, rk)" for rnd' buf' idx' n' pkt' sk rk
  proof -
    let ?f = "take 32 rnd'" and ?c = "n_c3 ?E d1 d2" and ?h = "n_h3 ?S ?E d1 ?P d2 ?T"
    let ?R = "x_mult_base X ?f"
    have lf: "length ?f = 32" using l by simp
    obtain d3 d4 where d': "vpn_crypto_dh X (Some ?E) (Some ?f) = Inr d3" "vpn_crypto_dh X (Some ?P) (Some ?f) = Inr d4"
      and "n' = 92" and pkt': "take n' pkt' = resp_wire (n_resp_msg ?c ?h ?P ?R d3 d4 idx' idx)"
      and keys: "sk = kdf_T1 (n_c6 ?c ?R d3 d4) []" "rk = kdf_T2 (n_c6 ?c ?R d3 d4) []"
      by (rule create_response_Inr [OF sz lb length_noise(7) length_noise(9) cr]) (rule that)
    let ?r = "n_resp_msg ?c ?h ?P ?R d3 d4 idx' idx"
    have wr: "resp_wf ?r" by (rule resp_wf_n_resp_msg [OF lb])
    have "consume_response_msg X si st ?r = Inr (idx', rk, sk)"
      using consume_response_iff [OF sz wr, of st si idx' rk sk] d' dh_sym [OF assms(1) le lf] dh_sym [OF assms(1,2) lf] keys
      by (simp add: st n_resp_msg_def)
    then show ?thesis by (simp add: handshake_consume_response_def pkt' parse_resp_wire [OF wr] keys)
  qed
  have m: "hi_unencrypted_ephemeral ?m = ?E" "hi_sender_index ?m = idx" by (simp_all add: n_init_msg_def)
  show ?thesis
    by (rule exI [of _ ?m], rule exI [of _ "n_c3 ?E d1 d2"], rule exI [of _ "n_h3 ?S ?E d1 ?P d2 ?T"], unfold m assms(7))
       (intro conjI allI impI ci refl resp)
qed

theorem handshake_key_agreement_witness:
  "\<exists>n pkt st parsed ck h n' pkt' sk rk.
     handshake_create_initiation x25519_sum (replicate 32 3) (1000, 5) (Some (zeros 148)) (Some (replicate 32 1))
       (Some (x_mult_base x25519_sum (replicate 32 1))) (Some (x_mult_base x25519_sum (replicate 32 2))) 7
       (Some (handshake_init_state_t.make [] [] [] 0 0)) = Inr ((n, pkt), st)
   \<and> handshake_consume_initiation x25519_sum (Some (take n pkt)) (Some (replicate 32 2)) (Some (x_mult_base x25519_sum (replicate 32 2)))
       (Some \<lparr>peers = [peer_zero\<lparr>public_key := replicate 32 1\<rparr>], next_local_index = 1\<rparr>) = Inr (0, parsed, ck, h)
   \<and> handshake_create_response x25519_sum (replicate 32 4) (Some (zeros 92)) (Some (replicate 32 2)) (Some (hi_unencrypted_ephemeral parsed))
       (Some (replicate 32 1)) 9 (hi_sender_index parsed) (Some ck) (Some h) = Inr ((n', pkt'), sk, rk)
   \<and> handshake_consume_response x25519_sum (Some (take n' pkt')) (Some (replicate 32 1)) (Some st)
       (Some (x_mult_base x25519_sum (replicate 32 2))) = Inr (9, rk, sk)"
proof -
  define si sr e f :: bytes where "si = replicate 32 1" and "sr = replicate 32 2" and "e = replicate 32 3" and "f = replicate 32 4"
  define p where "p = peer_zero\<lparr>public_key := si\<rparr>"
  define t where "t = \<lparr>peers = [p], next_local_index = 1\<rparr>"
  define st0 where "st0 = handshake_init_state_t.make [] [] [] 0 0"
  have len: "length si = 32" "length sr = 32" "length e = 32" "length f = 32" by (simp_all add: si_def sr_def e_def f_def)
  have base: "x_mult_base x25519_sum x = x" if "length x = 32" for x using that by (simp add: x25519_sum_def)
  have dh: "vpn_crypto_dh x25519_sum (Some sr) (Some e) = Inr (replicate 32 5)"
      "vpn_crypto_dh x25519_sum (Some sr) (Some si) = Inr (replicate 32 3)"
      "vpn_crypto_dh x25519_sum (Some e) (Some f) = Inr (replicate 32 7)"
      "vpn_crypto_dh x25519_sum (Some si) (Some f) = Inr (replicate 32 5)"
    using dh_sum_replicate [of 3 2] dh_sum_replicate [of 1 2] dh_sum_replicate [of 4 3] dh_sum_replicate [of 4 1]
    by (simp_all add: si_def sr_def e_def f_def)
  have t: "table_wf t" "0 < length (peers t)" "public_key (peers t ! 0) = si" "last_handshake_time (peers t ! 0) = 0"
    using len by (simp_all add: t_def p_def table_wf_def peer_wf_def peer_zero_def)
  have take: "take 32 e = e" "take 32 f = f" using len by simp_all
  obtain n pkt st where c: "handshake_create_initiation x25519_sum e (1000, 5) (Some (zeros 148)) (Some si) (Some si) (Some sr) 7 (Some st0)
      = Inr ((n, pkt), st)"
    using create_initiation_ok [OF x25519_sum_sizes _ len(1,2), of e "zeros 148"] dh len take by fastforce
  have "\<exists>parsed ck h. handshake_consume_initiation x25519_sum (Some (take n pkt)) (Some sr) (Some sr) (Some t) = Inr (0, parsed, ck, h)
    \<and> hi_sender_index parsed = 7
    \<and> (\<forall>rnd' buf' idx' n' pkt' sk rk. length rnd' \<ge> 32 \<longrightarrow>
         handshake_create_response x25519_sum rnd' (Some buf') (Some sr) (Some (hi_unencrypted_ephemeral parsed))
           (Some (public_key (peers t ! 0))) idx' (hi_sender_index parsed) (Some ck) (Some h) = Inr ((n', pkt'), sk, rk) \<longrightarrow>
         handshake_consume_response x25519_sum (Some (take n' pkt')) (Some si) (Some st) (Some sr) = Inr (idx', rk, sk)
         \<and> length sk = VPN_KEY_LEN \<and> length rk = VPN_KEY_LEN)"
    using handshake_key_agreement [OF x25519_sum_ok len(1,2) _ t(1,2), of e "(1000, 5)" "zeros 148" 7 st0 n pkt st,
      unfolded base [OF len(1)] base [OF len(2)]] c t(3,4) len(3) by simp
  then obtain parsed ck h where ci: "handshake_consume_initiation x25519_sum (Some (take n pkt)) (Some sr) (Some sr) (Some t) = Inr (0, parsed, ck, h)"
    and ag: "\<And>rnd' buf' idx' n' pkt' sk rk. length rnd' \<ge> 32 \<Longrightarrow>
         handshake_create_response x25519_sum rnd' (Some buf') (Some sr) (Some (hi_unencrypted_ephemeral parsed))
           (Some si) idx' (hi_sender_index parsed) (Some ck) (Some h) = Inr ((n', pkt'), sk, rk) \<Longrightarrow>
         handshake_consume_response x25519_sum (Some (take n' pkt')) (Some si) (Some st) (Some sr) = Inr (idx', rk, sk)"
    unfolding t(3) by blast
  obtain d1 d2 where w: "take n pkt = init_wire (n_init_msg sr e d1 si d2 (timestamp_bytes (1000, 5)) 7)"
  proof (rule create_initiation_Inr [OF x25519_sum_sizes _ len(1,2) c, unfolded take(1) base [OF len(3)]])
    show "32 \<le> length e" by (simp add: len)
  qed (rule that)
  have m: "packet_parse_handshake_init (Some (take n pkt)) = Inr parsed" "length ck = 32" "length h = 32"
    using ci handshake_consume_initiation_iff [OF x25519_sum_sizes len(2)] by auto
  have "init_wf (n_init_msg sr e d1 si d2 (timestamp_bytes (1000, 5)) 7)"
    by (rule init_wf_n_init_msg) (use len in \<open>simp_all add: length_le_write\<close>)
  then have "hi_unencrypted_ephemeral parsed = e" using m(1) parse_init_wire w by (auto simp: n_init_msg_def)
  then obtain n' pkt' sk rk where cr: "handshake_create_response x25519_sum f (Some (zeros 92)) (Some sr)
      (Some (hi_unencrypted_ephemeral parsed)) (Some si) 9 (hi_sender_index parsed) (Some ck) (Some h) = Inr ((n', pkt'), sk, rk)"
    using create_response_ok [OF x25519_sum_sizes len(1) m(2,3), of "zeros 92" e f] dh(3,4) take(2) by fastforce
  show ?thesis
    using c ci cr ag [OF _ cr] len(4) unfolding st0_def t_def p_def si_def sr_def e_def f_def by (auto simp: x25519_sum_def)
qed

text \<open>
  C6: what the responder accepts. \<open>handshake_consume_initiation\<close> succeeds exactly if the packet parses,
  its encrypted fields are sealed under the keys that the responder's secrets with the ephemeral key
  and with the static key of a peer of the table give, and the timestamp is later than the last
  handshake of that peer; the keys returned are those of the key schedule.
\<close>

theorem handshake_initiation_accepted_iff:
  assumes "x25519_sizes X" "length S = 32"
  shows "handshake_consume_initiation X (Some b) (Some priv) (Some S) (Some t) = Inr (i, m, ck, h) \<longleftrightarrow>
    packet_parse_handshake_init (Some b) = Inr m \<and>
    (\<exists>d1 P d2 T. init_accepted X priv S t m d1 P d2 T i \<and> ck = n_c3 (hi_unencrypted_ephemeral m) d1 d2
       \<and> h = n_h3 S (hi_unencrypted_ephemeral m) d1 P d2 T)"
  by (rule handshake_consume_initiation_iff [OF assms])

theorem handshake_initiation_accepted_iff_witness:
  "\<not> (\<exists>m ck h. handshake_consume_initiation x25519_sum (Some (zeros 148)) (Some (replicate 32 2)) (Some (replicate 32 2))
     (Some \<lparr>peers = [], next_local_index = 1\<rparr>) = Inr (0, m, ck, h))"
  using handshake_initiation_accepted_iff [OF x25519_sum_sizes, of "replicate 32 2" "zeros 148" "replicate 32 2"
    "\<lparr>peers = [], next_local_index = 1\<rparr>" 0]
  by (simp add: init_accepted_def init_authentic_def peer_find_by_pubkey_def)

text \<open>
  C7: what the initiator accepts. \<open>handshake_consume_response\<close> succeeds exactly if the packet parses,
  names the index of the pending handshake and its tag is the one under the key that the two secrets
  of the response give.
\<close>

theorem handshake_response_accepted_iff:
  assumes "x25519_sizes X" "length (hs_hash st) = 32" "length (hs_chaining_key st) = 32"
  shows "handshake_consume_response X (Some b) (Some priv) (Some st) (Some S) = Inr (idx, sk, rk) \<longleftrightarrow>
    (\<exists>m d3 d4. packet_parse_handshake_resp (Some b) = Inr m
       \<and> vpn_crypto_dh X (Some (hr_unencrypted_ephemeral m)) (Some (hs_ephemeral_private st)) = Inr d3
       \<and> vpn_crypto_dh X (Some (hr_unencrypted_ephemeral m)) (Some priv) = Inr d4
       \<and> hr_receiver_index m = hs_local_index st
       \<and> hr_encrypted_nothing m = n_empty (hs_chaining_key st) (hs_hash st) (hr_unencrypted_ephemeral m) d3 d4
       \<and> idx = hr_sender_index m
       \<and> sk = kdf_T2 (n_c6 (hs_chaining_key st) (hr_unencrypted_ephemeral m) d3 d4) []
       \<and> rk = kdf_T1 (n_c6 (hs_chaining_key st) (hr_unencrypted_ephemeral m) d3 d4) [])"
proof (cases "packet_parse_handshake_resp (Some b)")
  case (Inl e)
  then show ?thesis by (simp add: handshake_consume_response_def)
next
  case (Inr m)
  then have "resp_wf m" by (rule resp_codec.parse_wf)
  from consume_response_iff [OF assms(1) this assms(2,3)] show ?thesis
    using Inr by (simp add: handshake_consume_response_def)
qed

theorem handshake_response_accepted_iff_witness:
  "\<not> (\<exists>idx sk rk. handshake_consume_response x25519_sum (Some (zeros 92)) (Some (replicate 32 1))
     (Some \<lparr>hs_ephemeral_private = replicate 32 3, hs_chaining_key = replicate 32 4, hs_hash = replicate 32 5,
       hs_local_index = 7, hs_timestamp = 0\<rparr>) (Some (replicate 32 2)) = Inr (idx, sk, rk))"
  using handshake_response_accepted_iff [OF x25519_sum_sizes, of "\<lparr>hs_ephemeral_private = replicate 32 3,
    hs_chaining_key = replicate 32 4, hs_hash = replicate 32 5, hs_local_index = 7, hs_timestamp = 0\<rparr>" "zeros 92"]
  by (simp add: packet_parse_handshake_resp_def zeros_def)

text \<open>
  C36: the MACs of the handshake messages are not checked. Two initiations that differ only in the
  last 32 bytes (MAC1 and MAC2) have the same outcome, and so have two such responses.
\<close>

theorem handshake_macs_unchecked:
  assumes "length b = PACKET_HANDSHAKE_INIT_LEN" "length b' = PACKET_HANDSHAKE_INIT_LEN" "take 116 b = take 116 b'"
    and "length r = PACKET_HANDSHAKE_RESP_LEN" "length r' = PACKET_HANDSHAKE_RESP_LEN" "take 60 r = take 60 r'"
  shows "map_sum id (\<lambda>(i, m, ck, h). (i, ck, h)) (handshake_consume_initiation X (Some b) priv S t)
      = map_sum id (\<lambda>(i, m, ck, h). (i, ck, h)) (handshake_consume_initiation X (Some b') priv S t)
    \<and> handshake_consume_response X (Some r) priv st S = handshake_consume_response X (Some r') priv st S"
proof -
  have "handshake_consume_response X (Some r) priv st S = handshake_consume_response X (Some r') priv st S"
    using parse_resp_prefix [of r r'] assms(4-6)
    by (cases "packet_parse_handshake_resp (Some r)")
       (simp_all add: handshake_consume_response_def consume_ignores_macs split: option.split)
  moreover have "map_sum id (\<lambda>(i, m, ck, h). (i, ck, h)) (handshake_consume_initiation X (Some b) priv S t)
      = map_sum id (\<lambda>(i, m, ck, h). (i, ck, h)) (handshake_consume_initiation X (Some b') priv S t)"
  proof (cases "packet_parse_handshake_init (Some b)")
    case (Inr m)
    have "map_sum id (\<lambda>(i, m, ck, h). (i, ck, h)) (rbind (consume_initiation_msg X p q u m) (\<lambda>(i, ck, h). Inr (i, x, ck, h)))
        = consume_initiation_msg X p q u m" for p q u m and x :: packet_handshake_init_t
      by (cases "consume_initiation_msg X p q u m") auto
    then show ?thesis using parse_init_prefix [of b b'] assms(1-3) Inr
      by (simp add: handshake_consume_initiation_def consume_ignores_macs split: option.split)
  qed (use parse_init_prefix [of b b'] assms(1-3) in \<open>simp add: handshake_consume_initiation_def split: option.split\<close>)
  ultimately show ?thesis by blast
qed

theorem handshake_macs_unchecked_witness:
  "map_sum id (\<lambda>(i, m, ck, h). (i, ck, h)) (handshake_consume_initiation x25519_sum (Some (1 # zeros 147)) (Some (replicate 32 2))
      (Some (replicate 32 2)) (Some \<lparr>peers = [], next_local_index = 1\<rparr>))
   = map_sum id (\<lambda>(i, m, ck, h). (i, ck, h)) (handshake_consume_initiation x25519_sum (Some (1 # zeros 115 @ replicate 32 9))
      (Some (replicate 32 2)) (Some (replicate 32 2)) (Some \<lparr>peers = [], next_local_index = 1\<rparr>))"
  using handshake_macs_unchecked [of "1 # zeros 147" "1 # zeros 115 @ replicate 32 9" "zeros 92" "zeros 92"]
  by (simp add: zeros_def)

text \<open>
  C37: replay of an initiation is decided by the responder's clock. After a handshake is completed at
  time \<open>now'\<close> by \<open>peer_init_session\<close>, the same packet is accepted again, with the same keys, if its
  timestamp is later than \<open>now'\<close>, and is rejected with \<open>EBADMSG\<close> otherwise: the comparison is with the
  local time of completion and not with the timestamp that was accepted.
\<close>

theorem handshake_replay_decided_by_clock:
  assumes "x25519_sizes X" "length S = 32" "table_wf t"
    and "handshake_consume_initiation X (Some b) (Some priv) (Some S) (Some t) = Inr (i, m, ck, h)"
  shows "\<exists>timestamp. \<forall>now now' li ri sk rk p'. length sk = VPN_KEY_LEN \<longrightarrow> length rk = VPN_KEY_LEN \<longrightarrow>
      peer_init_session now now' (Some (peers t ! i)) li ri (Some sk) (Some rk) = Some p' \<longrightarrow>
      handshake_consume_initiation X (Some b) (Some priv) (Some S) (Some (t\<lparr>peers := (peers t)[i := p']\<rparr>))
        = (if now' = 0 \<or> now' < timestamp then Inr (i, m, ck, h) else Inl EBADMSG)"
proof -
  obtain d1 P d2 T where parse: "packet_parse_handshake_init (Some b) = Inr m"
    and acc: "init_authentic X priv S t m d1 P d2 T i"
    and k: "ck = n_c3 (hi_unencrypted_ephemeral m) d1 d2" "h = n_h3 S (hi_unencrypted_ephemeral m) d1 P d2 T"
    using assms(4) unfolding handshake_consume_initiation_iff [OF assms(1,2)] init_accepted_def by blast
  have wf: "init_wf m" using parse by (rule init_codec.parse_wf)
  have i: "i < length (peers t)" "public_key (peers t ! i) = P" "length P = 32"
    using acc find_by_pubkey_iff [OF assms(3)] by (auto simp: init_authentic_def)
  have "handshake_consume_initiation X (Some b) (Some priv) (Some S) (Some (t\<lparr>peers := (peers t)[i := p']\<rparr>))
        = (if now' = 0 \<or> now' < sint (le64_read T) then Inr (i, m, ck, h) else Inl EBADMSG)"
    if p': "peer_init_session now now' (Some (peers t ! i)) li ri (Some sk) (Some rk) = Some p'"
      and l: "length sk = VPN_KEY_LEN" "length rk = VPN_KEY_LEN" for now now' li ri sk rk p'
  proof -
    let ?t = "t\<lparr>peers := (peers t)[i := p']\<rparr>"
    have pw: "peer_wf p'" "public_key p' = P" "last_handshake_time p' = now'"
      using p' l i peer_init_session_wf [OF table_wf_nth [OF assms(3) i(1)], of sk rk now now' li ri]
      by (auto simp: peer_init_session_eq)
    have "table_wf ?t" using table_wf_update [OF assms(3) i(1) pw(1)] pw(2) i(2) by simp
    then have "peer_find_by_pubkey (Some ?t) (Some P) = Some i"
      using find_by_pubkey_iff [of ?t P i] i pw(2) by simp
    then have "init_authentic X priv S ?t m d1 P d2 T i" using acc by (simp add: init_authentic_def)
    from consume_initiation_authentic [OF assms(1) wf assms(2) this] show ?thesis
      using parse pw(3) i(1) k by (auto simp: handshake_consume_initiation_def)
  qed
  then show ?thesis by blast
qed

theorem handshake_replay_decided_by_clock_witness:
  "\<exists>b m ck h timestamp. \<forall>now now' li ri p'.
      peer_init_session now now' (Some (peers sample_table ! 0)) li ri (Some (replicate 32 8)) (Some (replicate 32 9)) = Some p' \<longrightarrow>
      handshake_consume_initiation x25519_sum (Some b) (Some (replicate 32 2)) (Some (replicate 32 2))
          (Some (sample_table\<lparr>peers := (peers sample_table)[0 := p']\<rparr>))
        = (if now' = 0 \<or> now' < timestamp then Inr (0, m, ck, h) else Inl EBADMSG)"
proof -
  obtain b m ck h where c: "handshake_consume_initiation x25519_sum (Some b) (Some (replicate 32 2)) (Some (replicate 32 2))
      (Some sample_table) = Inr (0, m, ck, h)" using sample_initiation by blast
  have l: "length (replicate 32 2 :: bytes) = 32" "length (replicate 32 8 :: bytes) = VPN_KEY_LEN"
    "length (replicate 32 9 :: bytes) = VPN_KEY_LEN" by simp_all
  show ?thesis using handshake_replay_decided_by_clock [OF x25519_sum_sizes l(1) sample_table_wf c] l(2,3) by blast
qed

end
