(* ===== verification/Tun.thy ===== *)
theory Tun
  imports Posix Config
begin

text \<open>
  The TUN device, \<open>src/src/tun.c\<close> and \<open>tun.h\<close>, in its Linux branch.
\<close>

unbundle bit_operations_syntax

section \<open>Model\<close>

record tun_device_t =
  tun_fd :: int
  tun_name :: string
  tun_mtu :: int

text \<open>The size of \<open>ifr_name\<close> and of the field \<open>name\<close>.\<close>

abbreviation (input) IFNAMSIZ :: nat where
  "IFNAMSIZ \<equiv> 16"

abbreviation ifr_name_of :: "string \<Rightarrow> string" where
  "ifr_name_of s \<equiv> snd (snprintf IFNAMSIZ s)"

text \<open>The MTU is set through a temporary control socket; a failure is only logged.\<close>

definition tun_set_mtu :: "os \<Rightarrow> string \<Rightarrow> int \<Rightarrow> sys_event list" where
  "tun_set_mtu os ifr_name mtu =
     (case os_socket os False False of
        Inl _ \<Rightarrow> []
      | Inr sock \<Rightarrow> [Ev_socket sock False False, Ev_sifmtu sock ifr_name mtu, Ev_close sock])"

definition tun_open :: "os \<Rightarrow> tun_device_t option \<Rightarrow> string option \<Rightarrow> int \<Rightarrow>
  unit result \<times> tun_device_t option \<times> sys_event list" where
  "tun_open os tun dev_name mtu =
     (case tun of
        None \<Rightarrow> (Inl EINVAL, tun, [])
      | Some _ \<Rightarrow>
          if mtu < int VPN_MIN_IPV4_MTU \<or> mtu > int VPN_MAX_PACKET_SIZE then (Inl EINVAL, tun, [])
          else let t = \<lparr>tun_fd = -1, tun_name = [], tun_mtu = mtu\<rparr>
          in (case os_open_tun os of
                Inl e \<Rightarrow> (Inl e, Some t, [])
              | Inr fd \<Rightarrow>
                  let ifr_name = (case dev_name of None \<Rightarrow> [] | Some s \<Rightarrow> if s \<noteq> [] then ifr_name_of s else []);
                      evs = [Ev_open fd ''/dev/net/tun'', Ev_tunsetiff fd ifr_name]
                  in (case os_tunsetiff os fd ifr_name of
                        Inl e \<Rightarrow> (Inl e, Some t, evs @ [Ev_close fd])
                      | Inr kernel_name \<Rightarrow>
                          (Inr (), Some (t\<lparr>tun_fd := int fd, tun_name := ifr_name_of kernel_name\<rparr>),
                           evs @ tun_set_mtu os kernel_name mtu))))"

text \<open>One \<open>ioctl\<close> on a control socket with an address given as text.\<close>

definition tun_set_addr :: "(string \<Rightarrow> u32 \<Rightarrow> unit result) \<Rightarrow> (string \<Rightarrow> u32 \<Rightarrow> sys_event) \<Rightarrow> string \<Rightarrow> string \<Rightarrow>
  unit result \<times> sys_event list" where
  "tun_set_addr ioctl ev name str =
     (case inet_pton4 str of
        None \<Rightarrow> (Inl EINVAL, [])
      | Some ip \<Rightarrow> (ioctl (ifr_name_of name) ip, [ev (ifr_name_of name) ip]))"

definition tun_set_ip :: "os \<Rightarrow> tun_device_t option \<Rightarrow> string option \<Rightarrow> string option \<Rightarrow> unit result \<times> sys_event list" where
  "tun_set_ip os tun ip_str netmask_str =
     (case (tun, ip_str, netmask_str) of
        (Some t, Some ip, Some netmask) \<Rightarrow>
          if tun_fd t < 0 then (Inl EINVAL, [])
          else (case os_socket os False False of
                  Inl e \<Rightarrow> (Inl e, [])
                | Inr sock \<Rightarrow>
                    (case tun_set_addr (os_sifaddr os) (Ev_sifaddr sock) (tun_name t) ip of
                       (Inl e, evs) \<Rightarrow> (Inl e, Ev_socket sock False False # evs @ [Ev_close sock])
                     | (Inr _, evs) \<Rightarrow>
                         (case tun_set_addr (os_sifnetmask os) (Ev_sifnetmask sock) (tun_name t) netmask of
                            (rc, evs') \<Rightarrow> (rc, Ev_socket sock False False # evs @ evs' @ [Ev_close sock]))))
      | _ \<Rightarrow> (Inl EINVAL, []))"

abbreviation (input) IFF_UP :: u16 where
  "IFF_UP \<equiv> 0x1"

abbreviation (input) IFF_RUNNING :: u16 where
  "IFF_RUNNING \<equiv> 0x40"

definition tun_set_up :: "os \<Rightarrow> tun_device_t option \<Rightarrow> unit result \<times> sys_event list" where
  "tun_set_up os tun =
     (case tun of
        None \<Rightarrow> (Inl EINVAL, [])
      | Some t \<Rightarrow>
          if tun_fd t < 0 then (Inl EINVAL, [])
          else (case os_socket os False False of
                  Inl e \<Rightarrow> (Inl e, [])
                | Inr sock \<Rightarrow>
                    let name = ifr_name_of (tun_name t)
                    in (case os_gifflags os name of
                          Inl e \<Rightarrow> (Inl e, [Ev_socket sock False False, Ev_close sock])
                        | Inr flags \<Rightarrow>
                            let flags = flags OR (IFF_UP OR IFF_RUNNING)
                            in (os_sifflags os name flags,
                                [Ev_socket sock False False, Ev_sifflags sock name flags, Ev_close sock]))))"

text \<open>\<open>read\<close> and \<open>write\<close>: the outcome is an argument.\<close>

definition tun_read :: "bytes result \<Rightarrow> tun_device_t option \<Rightarrow> bytes option \<Rightarrow> nat \<Rightarrow> nat result \<times> bytes option" where
  "tun_read got tun buf buf_len =
     (case (tun, buf) of
        (Some t, Some b) \<Rightarrow>
          if tun_fd t < 0 \<or> buf_len = 0 then (Inl EINVAL, buf)
          else (case got of
                  Inl e \<Rightarrow> (if transient e then Inr 0 else Inl e, buf)
                | Inr packet \<Rightarrow> (Inr (min (length packet) buf_len), Some (memcpy_at b 0 (take buf_len packet))))
      | _ \<Rightarrow> (Inl EINVAL, buf))"

definition tun_write :: "nat result \<Rightarrow> tun_device_t option \<Rightarrow> bytes option \<Rightarrow> nat \<Rightarrow> nat result \<times> sys_event list" where
  "tun_write wrote tun buf buf_len =
     (case (tun, buf) of
        (Some t, Some b) \<Rightarrow>
          if tun_fd t < 0 \<or> buf_len = 0 then (Inl EINVAL, [])
          else if buf_len > unat (word_of_int (tun_mtu t) :: u64) then (Inl EMSGSIZE, [])
          else (case wrote of
                  Inl e \<Rightarrow> (if transient e then Inr 0 else Inl e, [Ev_write (nat (tun_fd t)) (take buf_len b)])
                | Inr n \<Rightarrow> (Inr n, [Ev_write (nat (tun_fd t)) (take buf_len b)]))
      | _ \<Rightarrow> (Inl EINVAL, []))"

definition tun_close :: "tun_device_t option \<Rightarrow> tun_device_t option \<times> sys_event list" where
  "tun_close tun =
     (case tun of None \<Rightarrow> (tun, [])
      | Some t \<Rightarrow> if tun_fd t \<ge> 0 then (Some (t\<lparr>tun_fd := -1\<rparr>), [Ev_close (nat (tun_fd t))]) else (tun, []))"

section \<open>Invariant\<close>

text \<open>
  The device is closed, or open with a name that fits its field; once opened, its MTU is in the
  range that \<open>tun_open\<close> accepts.
\<close>

definition tun_wf :: "tun_device_t \<Rightarrow> bool" where
  "tun_wf t \<longleftrightarrow> tun_fd t \<ge> -1 \<and> length (tun_name t) < IFNAMSIZ \<and>
     int VPN_MIN_IPV4_MTU \<le> tun_mtu t \<and> tun_mtu t \<le> int VPN_MAX_PACKET_SIZE"

section \<open>Lemmas\<close>

lemma length_ifr_name: "length (ifr_name_of s) < 16"
  by (simp add: snprintf_def)

lemma tun_open_result:
  assumes "tun_open os (Some t0) dev_name mtu = (rc, tun, evs)"
  shows "(rc = Inl EINVAL \<and> tun = Some t0 \<and> evs = [])
    \<or> (\<exists>t. tun = Some t \<and> tun_wf t \<and> tun_mtu t = mtu \<and> (rc = Inr () \<longleftrightarrow> tun_fd t \<ge> 0))"
proof (cases "mtu < int VPN_MIN_IPV4_MTU \<or> mtu > int VPN_MAX_PACKET_SIZE")
  case True
  then show ?thesis using assms by (simp add: tun_open_def)
next
  case False
  then show ?thesis using assms length_ifr_name
    by (auto simp: tun_open_def tun_wf_def Let_def split: sum.splits)
qed

text \<open>What the kernel returns for the two descriptors of \<open>tun_open\<close>.\<close>

definition tun_fresh :: "nat set \<Rightarrow> os \<times> string option \<times> int \<Rightarrow> bool" where
  "tun_fresh S a = (case a of (os, _, _) \<Rightarrow> \<forall>fd. os_open_tun os = Inr fd \<longrightarrow> fd \<notin> S \<and>
     (\<forall>v6 flags sock. os_socket os v6 flags = Inr sock \<longrightarrow> sock \<notin> S \<and> sock \<noteq> fd))"

definition tun_acquire :: "os \<times> string option \<times> int \<Rightarrow> tun_device_t result \<times> sys_event list" where
  "tun_acquire a = (case a of (os, dev_name, mtu) \<Rightarrow>
     (case tun_open os (Some \<lparr>tun_fd = -1, tun_name = [], tun_mtu = 0\<rparr>) dev_name mtu of
        (Inl e, _, evs) \<Rightarrow> (Inl e, evs) | (Inr _, t, evs) \<Rightarrow> (Inr (the t), evs)))"

lemma tun_acquire_Inr:
  assumes "tun_acquire (os, dev_name, mtu) = (Inr t, evs)"
  obtains fd sock_evs where "os_open_tun os = Inr fd" "tun_fd t = int fd" "tun_wf t"
    "evs = [Ev_open fd ''/dev/net/tun'', Ev_tunsetiff fd
        (case dev_name of None \<Rightarrow> [] | Some s \<Rightarrow> if s \<noteq> [] then ifr_name_of s else [])] @ tun_set_mtu os sock_evs mtu"
proof -
  let ?t0 = "\<lparr>tun_fd = -1, tun_name = [], tun_mtu = 0\<rparr>"
  obtain rc tun where r: "tun_open os (Some ?t0) dev_name mtu = (Inr rc, tun, evs)" "the tun = t"
    using assms by (auto simp: tun_acquire_def split: prod.splits sum.splits)
  then have "tun_wf t" using tun_open_result [OF r(1)] by auto
  then show ?thesis using r
    by (auto simp: tun_open_def Let_def split: if_splits sum.splits option.splits intro: that)
qed

lemma fds_after_set_mtu:
  "(\<And>sock. os_socket os False False = Inr sock \<Longrightarrow> sock \<notin> S) \<Longrightarrow> fds_after (tun_set_mtu os name mtu) S = S"
  by (auto simp: tun_set_mtu_def split: sum.splits)

lemma tun_acquire_Inl:
  assumes "tun_acquire (os, dev_name, mtu) = (Inl e, evs)"
  shows "evs = [] \<or> (\<exists>fd name. os_open_tun os = Inr fd \<and> evs = [Ev_open fd ''/dev/net/tun'', Ev_tunsetiff fd name, Ev_close fd])"
  using assms by (auto simp: tun_acquire_def tun_open_def Let_def split: prod.splits sum.splits if_splits)

interpretation tun: fd_owner tun_fresh tun_acquire "\<lambda>t. nat (tun_fd t)" "\<lambda>t. snd (tun_close (Some t))"
proof unfold_locales
  fix S a r evs
  assume fresh: "tun_fresh S a" and res: "tun_acquire a = (Inr r, evs)"
  obtain os dev_name mtu where a: "a = (os, dev_name, mtu)" by (cases a)
  show "fds_after evs S = insert (nat (tun_fd r)) S \<and> nat (tun_fd r) \<notin> S"
    by (rule tun_acquire_Inr [OF res [unfolded a]]) (use fresh in \<open>auto simp: tun_fresh_def a fds_after_set_mtu\<close>)
next
  fix S a e evs
  assume fresh: "tun_fresh S a" and res: "tun_acquire a = (Inl e, evs)"
  obtain os dev_name mtu where a: "a = (os, dev_name, mtu)" by (cases a)
  show "fds_after evs S = S"
    using tun_acquire_Inl [OF res [unfolded a]] fresh by (auto simp: tun_fresh_def a)
next
  fix a r evs T
  assume res: "tun_acquire a = (Inr r, evs)"
  obtain os dev_name mtu where a: "a = (os, dev_name, mtu)" by (cases a)
  show "fds_after (snd (tun_close (Some r))) T = T - {nat (tun_fd r)}"
    by (rule tun_acquire_Inr [OF res [unfolded a]]) (simp add: tun_close_def)
qed

lemma control_socket_closed:
  assumes "\<And>sock. os_socket os False False = Inr sock \<Longrightarrow> sock \<notin> S"
  shows "fds_after (snd (tun_set_ip os tun ip netmask)) S = S" "fds_after (snd (tun_set_up os tun)) S = S"
proof -
  have "fd_effect (Ev_sifaddr s n i) = id" "fd_effect (Ev_sifnetmask s n i) = id" for s n i by auto
  then show "fds_after (snd (tun_set_ip os tun ip netmask)) S = S"
    using assms by (auto simp: tun_set_ip_def tun_set_addr_def split: option.splits sum.splits)
  show "fds_after (snd (tun_set_up os tun)) S = S"
    using assms by (auto simp: tun_set_up_def Let_def split: option.splits sum.splits)
qed

section \<open>Properties\<close>

text \<open>
  C29: \<open>tun_open\<close> either rejects the MTU and leaves the structure alone, or stores a well-formed device:
  the MTU asked for, a name that fits, and a descriptor exactly if it returns 0. Between opening and
  closing no descriptor is leaked, whichever system call fails.
\<close>

theorem tun_open_lifecycle:
  assumes "\<And>fd. os_open_tun os = Inr fd \<Longrightarrow> fd \<notin> S"
    and "\<And>v6 flags sock. os_socket os v6 flags = Inr sock \<Longrightarrow> sock \<notin> S \<and> Inr sock \<noteq> os_open_tun os"
    and "tun_open os (Some \<lparr>tun_fd = -1, tun_name = [], tun_mtu = 0\<rparr>) dev_name mtu = (rc, Some t, evs)"
  shows "(rc = Inl EINVAL \<and> evs = [] \<or> tun_wf t \<and> tun_mtu t = mtu \<and> (rc = Inr () \<longleftrightarrow> tun_fd t \<ge> 0))
    \<and> fds_after (evs @ snd (tun_set_ip os (Some t) ip netmask) @ snd (tun_set_up os (Some t)) @ snd (tun_close (Some t))) S = S"
proof -
  have fresh: "tun_fresh S (os, dev_name, mtu)" using assms(1,2) by (fastforce simp: tun_fresh_def)
  have res: "(rc = Inl EINVAL \<and> t = \<lparr>tun_fd = -1, tun_name = [], tun_mtu = 0\<rparr> \<and> evs = [])
      \<or> tun_wf t \<and> tun_mtu t = mtu \<and> (rc = Inr () \<longleftrightarrow> tun_fd t \<ge> 0)"
    using tun_open_result [OF assms(3)] by auto
  have "fds_after (evs @ snd (tun_set_ip os (Some t) ip netmask) @ snd (tun_set_up os (Some t)) @ snd (tun_close (Some t))) S = S"
  proof (cases rc)
    case (Inl e)
    then have "tun_fd t < 0" using res by auto
    moreover have "tun_acquire (os, dev_name, mtu) = (Inl e, evs)" using assms(3) Inl by (simp add: tun_acquire_def)
    ultimately show ?thesis using tun.acquire_fails [OF fresh] by (simp add: tun_set_ip_def tun_set_up_def tun_close_def split: option.split)
  next
    case (Inr u)
    then have acq: "tun_acquire (os, dev_name, mtu) = (Inr t, evs)" using assms(3) by (simp add: tun_acquire_def)
    note ok = tun.acquire_ok [OF fresh acq]
    have fd: "os_open_tun os = Inr (nat (tun_fd t))" by (rule tun_acquire_Inr [OF acq]) simp
    have "sock \<notin> insert (nat (tun_fd t)) S" if "os_socket os False False = Inr sock" for sock
      using assms(2) [OF that] fd by auto
    then show ?thesis using ok control_socket_closed [of os "insert (nat (tun_fd t)) S"] tun.acquire_release [OF fresh acq]
      by simp
  qed
  with res show ?thesis by blast
qed

theorem tun_open_lifecycle_witness:
  "fds_after ([Ev_open 4 ''/dev/net/tun'', Ev_tunsetiff 4 ''vpn0'', Ev_socket 3 False False, Ev_sifmtu 3 ''vpn0'' 1440, Ev_close 3]
     @ snd (tun_set_ip (os_ready 3 4) (Some \<lparr>tun_fd = 4, tun_name = ''vpn0'', tun_mtu = 1440\<rparr>) (Some ''10.0.0.1'') (Some ''255.255.255.0''))
     @ snd (tun_set_up (os_ready 3 4) (Some \<lparr>tun_fd = 4, tun_name = ''vpn0'', tun_mtu = 1440\<rparr>))
     @ snd (tun_close (Some \<lparr>tun_fd = 4, tun_name = ''vpn0'', tun_mtu = 1440\<rparr>))) {0, 1, 2} = {0, 1, 2}"
proof -
  let ?t = "\<lparr>tun_fd = 4, tun_name = ''vpn0'', tun_mtu = 1440\<rparr>"
  have "tun_open (os_ready 3 4) (Some \<lparr>tun_fd = -1, tun_name = [], tun_mtu = 0\<rparr>) (Some ''vpn0'') 1440 =
     (Inr (), Some ?t, [Ev_open 4 ''/dev/net/tun'', Ev_tunsetiff 4 ''vpn0'', Ev_socket 3 False False, Ev_sifmtu 3 ''vpn0'' 1440, Ev_close 3])"
    by (simp add: tun_open_def os_ready_def tun_set_mtu_def snprintf_def Let_def)
  from tun_open_lifecycle [OF _ _ this, of "{0, 1, 2}"] show ?thesis by (simp add: os_ready_def)
qed

end
