(* ===== verification/Daemon.thy ===== *)
theory Daemon
  imports Handshake Tun
begin

text \<open>
  The daemon, \<open>src/src/main.c\<close>: start-up, the two halves of an iteration of the event loop, the loop and
  the shutdown. What an iteration gets from its environment (the outcome of \<open>poll\<close> and of the calls on
  the socket and the TUN device, random bytes, the clock, a signal) is a record. A function returns the
  new state and the events. The error \<open>SODIUM_MISUSE\<close> does not occur, since packets are far shorter
  than the limit of the cipher, and is treated like any other error.
\<close>

unbundle bit_operations_syntax

section \<open>Model\<close>

record daemon =
  d_static_pub :: bytes
  d_static_priv :: bytes
  d_table :: vpn_peer_table_t
  d_sock_fd :: int
  d_tun :: tun_device_t
  d_net_buf :: bytes
  d_tun_buf :: bytes
  d_plain_buf :: bytes
  d_cipher_buf :: bytes
  d_running :: bool

text \<open>
  The outcome of \<open>poll\<close>: an error, or which of the two descriptors is readable. The other fields are
  the outcomes of \<open>recvfrom\<close>, \<open>sendto\<close> for a response, \<open>write\<close>, \<open>read\<close> and \<open>sendto\<close> for a data packet,
  the random bytes for an ephemeral key, the two readings of the clock, and whether a signal arrives.
\<close>

record iteration =
  it_poll :: "(bool \<times> bool) result"
  it_recv :: "(bytes \<times> sockaddr_storage \<times> nat) result"
  it_send_resp :: "nat result"
  it_write :: "nat result"
  it_read :: "bytes result"
  it_send_data :: "nat result"
  it_rnd :: bytes
  it_now :: int
  it_now' :: int
  it_signal :: bool

definition handle_signal :: "daemon \<Rightarrow> daemon" where
  "handle_signal d = d\<lparr>d_running := False\<rparr>"

text \<open>The address that starts at an offset of an IPv4 header.\<close>

definition ipv4_at :: "bytes \<Rightarrow> nat \<Rightarrow> u32" where
  "ipv4_at buf off = push_bit 24 (ucast (buf ! off)) OR push_bit 16 (ucast (buf ! (off + 1))) OR
     push_bit 8 (ucast (buf ! (off + 2))) OR ucast (buf ! (off + 3))"

definition set_peer :: "daemon \<Rightarrow> nat \<Rightarrow> vpn_peer_t \<Rightarrow> daemon" where
  "set_peer d i p = d\<lparr>d_table := (d_table d)\<lparr>peers := (peers (d_table d))[i := p]\<rparr>\<rparr>"

definition on_handshake_init :: "x25519 \<Rightarrow> iteration \<Rightarrow> bytes \<Rightarrow> vpn_endpoint_t \<Rightarrow> daemon \<Rightarrow> daemon \<times> sys_event list" where
  "on_handshake_init X it packet src_ep d =
     (case handshake_consume_initiation X (Some packet) (Some (d_static_priv d)) (Some (d_static_pub d)) (Some (d_table d)) of
        Inl _ \<Rightarrow> (d, [])
      | Inr (i, parsed_init, chaining_key, hash) \<Rightarrow>
          let peer = peers (d_table d) ! i;
              my_local_idx = next_local_index (d_table d);
              d = d\<lparr>d_table := (d_table d)\<lparr>next_local_index := my_local_idx + 1\<rparr>\<rparr>
          in (case handshake_create_response X (it_rnd it) (Some (zeros PACKET_HANDSHAKE_RESP_LEN)) (Some (d_static_priv d))
                (Some (hi_unencrypted_ephemeral parsed_init)) (Some (public_key peer)) my_local_idx (hi_sender_index parsed_init)
                (Some chaining_key) (Some hash) of
                Inl _ \<Rightarrow> (d, [])
              | Inr ((rlen, resp_packet), sk, rk) \<Rightarrow>
                  if rlen > 0 then
                    let peer = the (peer_init_session (it_now it) (it_now' it) (Some peer) my_local_idx (hi_sender_index parsed_init)
                          (Some sk) (Some rk));
                        peer = the (snd (peer_update_endpoint (Some peer) (Some src_ep)))
                    in (set_peer d i peer, snd (transport_send (it_send_resp it) (d_sock_fd d) (Some src_ep) (Some resp_packet) rlen))
                  else (d, [])))"

definition on_data :: "iteration \<Rightarrow> bytes \<Rightarrow> vpn_endpoint_t \<Rightarrow> daemon \<Rightarrow> daemon \<times> sys_event list" where
  "on_data it packet src_ep d =
     (case packet_parse_data (Some packet) of
        Inl _ \<Rightarrow> (d, [])
      | Inr pd \<Rightarrow>
          (case peer_find_by_index (Some (d_table d)) (pd_receiver_index pd) of
             None \<Rightarrow> (d, [])
           | Some (i, slot) \<Rightarrow>
               let peer = peers (d_table d) ! i; session = slot_session slot peer
               in if sess_state session \<noteq> SESSION_STATE_ESTABLISHED then (d, [])
                  else if \<not> replay_check (Some (replay_filter session)) (pd_counter pd) then (d, [])
                  else
                    (case vpn_crypto_aead_decrypt (Some (d_plain_buf d)) (pd_ciphertext pd) (pd_ciphertext_len pd)
                            (Some (pd_auth_tag pd)) [] (pd_counter pd) (Some (recv_key session)) of
                       (Inl _, plain) \<Rightarrow> (d\<lparr>d_plain_buf := the plain\<rparr>, [])
                     | (Inr _, plain) \<Rightarrow>
                         let d = d\<lparr>d_plain_buf := the plain\<rparr>;
                             peer = slot_update slot (\<lambda>s. s\<lparr>replay_filter :=
                                the (replay_update (Some (replay_filter s)) (pd_counter pd))\<rparr>) peer;
                             peer = the (snd (peer_update_endpoint (Some peer) (Some src_ep)));
                             d = set_peer d i peer
                         in if pd_ciphertext_len pd \<ge> 20 \<and> tun_fd (d_tun d) \<ge> 0 then
                              if peer_allows_source_ip (Some peer) (ipv4_at (d_plain_buf d) 12)
                              then (d, snd (tun_write (it_write it) (Some (d_tun d)) (Some (d_plain_buf d)) (pd_ciphertext_len pd)))
                              else (d, [])
                            else (d, []))))"

text \<open>The first half of an iteration: a datagram from the network.\<close>

definition inbound :: "x25519 \<Rightarrow> iteration \<Rightarrow> daemon \<Rightarrow> daemon \<times> sys_event list" where
  "inbound X it d =
     (case transport_recv (it_recv it) (d_sock_fd d) (Some endpoint_zero) (Some (d_net_buf d)) VPN_MAX_PACKET_SIZE of
        (Inl _, _, net_buf) \<Rightarrow> (d\<lparr>d_net_buf := the net_buf\<rparr>, [])
      | (Inr n, src_ep, net_buf) \<Rightarrow>
          let d = d\<lparr>d_net_buf := the net_buf\<rparr>; packet = take n (the net_buf)
          in if n > 0 then
               (case packet_peek_type (Some packet) of
                  PACKET_TYPE_HANDSHAKE_INIT \<Rightarrow> on_handshake_init X it packet (the src_ep) d
                | PACKET_TYPE_DATA \<Rightarrow> on_data it packet (the src_ep) d
                | PACKET_TYPE_KEEPALIVE \<Rightarrow> on_data it packet (the src_ep) d
                | _ \<Rightarrow> (d, []))
             else (d, []))"

text \<open>The second half: a packet from the TUN device.\<close>

definition outbound :: "iteration \<Rightarrow> daemon \<Rightarrow> daemon \<times> sys_event list" where
  "outbound it d =
     (case tun_read (it_read it) (Some (d_tun d)) (Some (d_tun_buf d)) VPN_MAX_PACKET_SIZE of
        (Inl _, tun_buf) \<Rightarrow> (d\<lparr>d_tun_buf := the tun_buf\<rparr>, [])
      | (Inr n, tun_buf) \<Rightarrow>
          let d = d\<lparr>d_tun_buf := the tun_buf\<rparr>
          in if n < 20 then (d, [])
             else
               (case peer_find_by_dest_ip (Some (d_table d)) (ipv4_at (d_tun_buf d) 16) of
                  None \<Rightarrow> (d, [])
                | Some i \<Rightarrow>
                    let peer = peers (d_table d) ! i; session = current_session peer
                    in if sess_state session \<noteq> SESSION_STATE_ESTABLISHED then (d, [])
                       else
                         let counter = sending_counter session;
                             d = set_peer d i (peer\<lparr>current_session := session\<lparr>sending_counter := counter + 1\<rparr>\<rparr>)
                         in (case vpn_crypto_aead_encrypt (Some (d_cipher_buf d)) (Some (d_tun_buf d)) n [] counter
                                    (Some (send_key session)) of
                               Inl _ \<Rightarrow> (d, [])
                             | Inr (cipher, tag) \<Rightarrow>
                                 let d = d\<lparr>d_cipher_buf := the cipher\<rparr>
                                 in (case packet_serialize_data (Some (d_net_buf d)) (peer_index session) counter
                                            (Some (d_cipher_buf d)) n (Some tag) of
                                       Inl _ \<Rightarrow> (d, [])
                                     | Inr (pkt_len, net_buf) \<Rightarrow>
                                         let d = d\<lparr>d_net_buf := net_buf\<rparr>
                                         in if pkt_len > 0
                                            then (d, snd (transport_send (it_send_data it) (d_sock_fd d) (Some (endpoint peer))
                                                   (Some net_buf) pkt_len))
                                            else (d, [])))))"

text \<open>
  One iteration; the last component says whether the loop goes on (the alternative is \<open>break\<close>). The
  second descriptor is polled only if the TUN device is open.
\<close>

definition iterate_once :: "x25519 \<Rightarrow> iteration \<Rightarrow> daemon \<Rightarrow> daemon \<times> sys_event list \<times> bool" where
  "iterate_once X it d =
     (let d = (if it_signal it then handle_signal d else d)
      in case it_poll it of
           Inl e \<Rightarrow> (d, [], e = EINTR)
         | Inr (net_ready, tun_ready) \<Rightarrow>
             let (d, evs) = (if net_ready then inbound X it d else (d, []));
                 (d, evs') = (if tun_fd (d_tun d) \<ge> 0 \<and> tun_ready then outbound it d else (d, []))
             in (d, evs @ evs', True))"

text \<open>
  The loop on the outcomes of its iterations. The result says whether it has ended; it has not, if the
  list is used up before.
\<close>

fun event_loop :: "x25519 \<Rightarrow> iteration list \<Rightarrow> daemon \<Rightarrow> daemon \<times> sys_event list \<times> bool" where
  "event_loop X [] d = (d, [], \<not> d_running d)"
| "event_loop X (it # its) d =
     (if \<not> d_running d then (d, [], True)
      else case iterate_once X it d of
             (d, evs, True) \<Rightarrow> (case event_loop X its d of (d', evs', ended) \<Rightarrow> (d', evs @ evs', ended))
           | (d, evs, False) \<Rightarrow> (d, evs, True))"

definition shutdown :: "daemon \<Rightarrow> daemon \<times> sys_event list" where
  "shutdown d =
     (let (fd, evs) = transport_close (Some (d_sock_fd d)); (tun, evs') = tun_close (Some (d_tun d))
      in (d\<lparr>d_table := the (peer_table_destroy (Some (d_table d))), d_sock_fd := the fd, d_tun := the tun,
            d_static_priv := the (vpn_crypto_memzero (Some (d_static_priv d)) (length (d_static_priv d)))\<rparr>, evs @ evs'))"

text \<open>
  Start-up: None is the exit with status 1. The arguments are the system while the socket and while the
  TUN device is opened, and the results of \<open>sodium_init\<close> and of the random generator. The result of the
  key generation is not checked; had it failed, the arrays would hold what they held before.
\<close>

definition startup :: "x25519 \<Rightarrow> os \<Rightarrow> os \<Rightarrow> int \<Rightarrow> bytes \<Rightarrow> daemon option \<times> sys_event list" where
  "startup X os os' sodium_rc rnd =
     (case vpn_crypto_init sodium_rc of
        Inl _ \<Rightarrow> (None, [])
      | Inr _ \<Rightarrow>
          let (static_pub, static_priv) = (case vpn_crypto_generate_keypair X rnd of Inl _ \<Rightarrow> (zeros 32, zeros 32) | Inr kp \<Rightarrow> kp);
              table = the (peer_table_init (Some \<lparr>peers = [], next_local_index = 0\<rparr>))
          in (case transport_open os None VPN_DEFAULT_PORT of
                (Inl _, evs) \<Rightarrow> (None, evs)
              | (Inr sock_fd, evs) \<Rightarrow>
                  (case tun_open os' (Some \<lparr>tun_fd = -1, tun_name = [], tun_mtu = 0\<rparr>) (Some VPN_DEFAULT_TUN_NAME)
                         (int VPN_DEFAULT_INNER_MTU) of
                     (tun_rc, tun, evs') \<Rightarrow>
                       let evs'' = (case tun_rc of
                             Inl _ \<Rightarrow> []
                           | Inr _ \<Rightarrow> snd (tun_set_ip os' tun (Some ''10.0.0.1'') (Some ''255.255.255.0'')) @ snd (tun_set_up os' tun))
                       in (Some \<lparr>d_static_pub = static_pub, d_static_priv = static_priv, d_table = table,
                             d_sock_fd = int sock_fd, d_tun = the tun, d_net_buf = zeros VPN_MAX_PACKET_SIZE,
                             d_tun_buf = zeros VPN_MAX_PACKET_SIZE, d_plain_buf = zeros VPN_MAX_PACKET_SIZE,
                             d_cipher_buf = zeros VPN_MAX_PACKET_SIZE, d_running = True\<rparr>, evs @ evs' @ evs''))))"

text \<open>The program: None while the loop has not ended, else the exit status.\<close>

definition vpn_main :: "x25519 \<Rightarrow> os \<Rightarrow> os \<Rightarrow> int \<Rightarrow> bytes \<Rightarrow> iteration list \<Rightarrow> nat option \<times> sys_event list" where
  "vpn_main X os os' sodium_rc rnd its =
     (case startup X os os' sodium_rc rnd of
        (None, evs) \<Rightarrow> (Some 1, evs)
      | (Some d, evs) \<Rightarrow>
          (case event_loop X its d of
             (d, evs', ended) \<Rightarrow>
               if ended then (Some 0, evs @ evs' @ snd (shutdown d)) else (None, evs @ evs')))"

section \<open>Invariant\<close>

definition daemon_wf :: "daemon \<Rightarrow> bool" where
  "daemon_wf d \<longleftrightarrow> table_wf (d_table d) \<and> length (d_static_pub d) = VPN_PUBKEY_LEN
     \<and> length (d_net_buf d) = VPN_MAX_PACKET_SIZE \<and> length (d_tun_buf d) = VPN_MAX_PACKET_SIZE
     \<and> length (d_plain_buf d) = VPN_MAX_PACKET_SIZE \<and> length (d_cipher_buf d) = VPN_MAX_PACKET_SIZE
     \<and> d_sock_fd d \<ge> 0 \<and> tun_wf (d_tun d)"

section \<open>Data packets\<close>

definition pd_bytes :: "packet_data_t \<Rightarrow> bytes" where
  "pd_bytes pd = (case pd_ciphertext pd of None \<Rightarrow> [] | Some c \<Rightarrow> c)"

lemma pd_bytes_length: "data_wf pd \<Longrightarrow> length (pd_bytes pd) = pd_ciphertext_len pd \<and> pd_ciphertext_len pd \<le> 1440"
  by (auto simp: data_wf_def pd_bytes_def split: option.splits)

lemma data_decrypt:
  assumes "data_wf pd" "length buf = 2048"
  shows "vpn_crypto_aead_decrypt (Some buf) (pd_ciphertext pd) (pd_ciphertext_len pd) (Some (pd_auth_tag pd)) [] c (Some k) =
    (if pd_auth_tag pd = vpn_tag k c [] (pd_bytes pd)
     then (Inr (), Some (memcpy_at buf 0 (vpn_stream k c (pd_bytes pd))))
     else (Inl EBADMSG, Some (memcpy_at buf 0 (zeros (pd_ciphertext_len pd)))))"
proof (cases "pd_ciphertext pd")
  case None
  then have n: "pd_ciphertext_len pd = 0" "length (pd_auth_tag pd) = 16" using assms(1) by (simp_all add: data_wf_def)
  show ?thesis
    using aead_decrypt_eq [of "[]" "pd_auth_tag pd" "[]" "[]" "vpn_crypto_format_nonce c" k] n None
    by (simp add: vpn_crypto_aead_decrypt_def Let_def pd_bytes_def memcpy_at_def stream_ietf_ext_ref_xor_ic_def)
next
  case (Some ct)
  then have n: "pd_ciphertext_len pd = length ct" "length (pd_auth_tag pd) = 16" "length ct \<le> aead_limit"
    using assms(1) by (simp_all add: data_wf_def aead_limit_def)
  then show ?thesis using vpn_decrypt_eq [OF n(3,2)] Some by (simp add: pd_bytes_def)
qed

text \<open>The session that a data packet is for, and the peer after the packet was accepted.\<close>

definition data_session :: "daemon \<Rightarrow> packet_data_t \<Rightarrow> nat \<Rightarrow> session_slot \<Rightarrow> bool" where
  "data_session d pd i slot \<longleftrightarrow> peer_find_by_index (Some (d_table d)) (pd_receiver_index pd) = Some (i, slot)
     \<and> i < length (peers (d_table d))
     \<and> session_answers (pd_receiver_index pd) (slot_session slot (peers (d_table d) ! i))"

definition accept_packet :: "session_slot \<Rightarrow> u64 \<Rightarrow> vpn_endpoint_t \<Rightarrow> vpn_peer_t \<Rightarrow> vpn_peer_t" where
  "accept_packet slot c src p =
     the (snd (peer_update_endpoint (Some (slot_update slot (\<lambda>s. s\<lparr>replay_filter :=
        the (replay_update (Some (replay_filter s)) c)\<rparr>) p)) (Some src)))"

lemma data_sessionI:
  "peer_find_by_index (Some (d_table d)) (pd_receiver_index pd) = Some (i, slot) \<Longrightarrow> data_session d pd i slot"
  by (auto simp: data_session_def peer_find_by_index_def dest: find_session_Some split: if_splits)

lemma accept_packet_allowed [simp]: "allowed_ips (accept_packet slot c src p) = allowed_ips p"
proof -
  obtain rc ep' where "peer_update_endpoint (Some (slot_update slot (\<lambda>s. s\<lparr>replay_filter :=
        the (replay_update (Some (replay_filter s)) c)\<rparr>) p)) (Some src) = (Inr rc, Some ((slot_update slot (\<lambda>s. s\<lparr>replay_filter :=
        the (replay_update (Some (replay_filter s)) c)\<rparr>) p)\<lparr>endpoint := ep'\<rparr>))"
    using peer_update_endpoint_eq by blast
  then show ?thesis by (cases slot) (simp_all add: accept_packet_def)
qed

lemma peer_allows_cong: "allowed_ips p = allowed_ips q \<Longrightarrow> peer_allows_source_ip (Some p) ip = peer_allows_source_ip (Some q) ip"
  by (simp add: peer_allows_source_ip_def)

lemma ipv4_at_prefix: "off + 3 < length p \<Longrightarrow> ipv4_at (p @ q) off = ipv4_at p off"
  by (simp add: ipv4_at_def nth_append)

text \<open>What a data packet does that passes the checks.\<close>

lemma on_data_ok:
  assumes "daemon_wf d" "packet_parse_data (Some packet) = Inr pd" "data_session d pd i slot"
    and "replay_check (Some (replay_filter (slot_session slot (peers (d_table d) ! i)))) (pd_counter pd)"
    and "vpn_seal (recv_key (slot_session slot (peers (d_table d) ! i))) (pd_counter pd) [] p = (pd_bytes pd, pd_auth_tag pd)"
    and "length p \<le> 1440"
  shows "on_data it packet src d =
    (set_peer (d\<lparr>d_plain_buf := memcpy_at (d_plain_buf d) 0 p\<rparr>) i (accept_packet slot (pd_counter pd) src (peers (d_table d) ! i)),
     if length p \<ge> 20 \<and> tun_fd (d_tun d) \<ge> 0 \<and> peer_allows_source_ip (Some (peers (d_table d) ! i)) (ipv4_at p 12) then
       snd (tun_write (it_write it) (Some (d_tun d)) (Some (memcpy_at (d_plain_buf d) 0 p)) (length p)) else [])"
proof -
  let ?peer = "peers (d_table d) ! i" and ?k = "recv_key (slot_session slot (peers (d_table d) ! i))" and ?c = "pd_counter pd"
  have wf: "data_wf pd" using assms(2) by (rule data_codec.parse_wf)
  have lim: "length p \<le> aead_limit" by (rule small_limit) (use assms(6) in simp)
  have seal: "pd_bytes pd = vpn_stream ?k ?c p" "pd_auth_tag pd = vpn_tag ?k ?c [] (pd_bytes pd)"
    using assms(5) lim by (auto simp: vpn_seal_eq)
  have len: "pd_ciphertext_len pd = length p" using pd_bytes_length [OF wf] seal(1) by simp
  have plain: "vpn_stream ?k ?c (pd_bytes pd) = p" using seal(1) lim by (simp add: stream_ietf_involution)
  have dec: "vpn_crypto_aead_decrypt (Some (d_plain_buf d)) (pd_ciphertext pd) (length p) (Some (pd_auth_tag pd)) [] ?c (Some ?k)
      = (Inr (), Some (memcpy_at (d_plain_buf d) 0 p))"
    using data_decrypt [OF wf, of "d_plain_buf d" ?c ?k] assms(1) seal(2) plain len by (simp add: daemon_wf_def)
  have find: "peer_find_by_index (Some (d_table d)) (pd_receiver_index pd) = Some (i, slot)"
    and est: "sess_state (slot_session slot ?peer) = SESSION_STATE_ESTABLISHED"
    using assms(3) by (simp_all add: data_session_def session_answers_def)
  have ip: "ipv4_at (memcpy_at (d_plain_buf d) 0 p) 12 = ipv4_at p 12" if "20 \<le> length p"
    using that by (simp add: memcpy_at_def ipv4_at_prefix)
  show ?thesis
    unfolding on_data_def assms(2) sum.case find option.case prod.case Let_def est len dec accept_packet_def [symmetric]
    using assms(4) peer_allows_cong [OF accept_packet_allowed [of slot ?c src ?peer]] ip
    by (auto simp: set_peer_def)
qed

lemma on_data_cases:
  assumes "daemon_wf d" "on_data it packet src d = (d', evs)"
  obtains (dropped) buf where "d' = d\<lparr>d_plain_buf := buf\<rparr>" "length buf = VPN_MAX_PACKET_SIZE" "evs = []"
  | (accepted) pd i slot p where "packet_parse_data (Some packet) = Inr pd" "data_session d pd i slot"
      "replay_check (Some (replay_filter (slot_session slot (peers (d_table d) ! i)))) (pd_counter pd)"
      "vpn_seal (recv_key (slot_session slot (peers (d_table d) ! i))) (pd_counter pd) [] p = (pd_bytes pd, pd_auth_tag pd)"
      "length p \<le> 1440"
proof (cases "packet_parse_data (Some packet)")
  case (Inl e)
  then show ?thesis using assms dropped [of "d_plain_buf d"] by (simp add: on_data_def daemon_wf_def)
next
  case (Inr pd)
  then have wf: "data_wf pd" by (rule data_codec.parse_wf)
  show ?thesis
  proof (cases "peer_find_by_index (Some (d_table d)) (pd_receiver_index pd)")
    case None
    then show ?thesis using assms Inr dropped [of "d_plain_buf d"] by (simp add: on_data_def daemon_wf_def)
  next
    case (Some s)
    obtain i slot where s: "s = (i, slot)" by (cases s)
    have ds: "data_session d pd i slot" using data_sessionI Some s by simp
    let ?sess = "slot_session slot (peers (d_table d) ! i)"
    have est: "sess_state ?sess = SESSION_STATE_ESTABLISHED" using ds by (simp add: data_session_def session_answers_def)
    show ?thesis
    proof (cases "replay_check (Some (replay_filter ?sess)) (pd_counter pd)")
      case False
      then show ?thesis using assms Inr Some s est dropped [of "d_plain_buf d"] by (simp add: on_data_def daemon_wf_def)
    next
      case True
      let ?k = "recv_key ?sess" and ?c = "pd_counter pd"
      have len: "length (pd_bytes pd) = pd_ciphertext_len pd" "pd_ciphertext_len pd \<le> 1440" using pd_bytes_length [OF wf] by auto
      have lim: "length (pd_bytes pd) \<le> aead_limit" by (rule small_limit) (use len in simp)
      show ?thesis
      proof (cases "pd_auth_tag pd = vpn_tag ?k ?c [] (pd_bytes pd)")
        case True
        then show ?thesis using accepted [OF Inr ds \<open>replay_check _ _\<close>, of "vpn_stream ?k ?c (pd_bytes pd)"] lim len
          by (simp add: vpn_seal_eq stream_ietf_involution)
      next
        case bad: False
        have "on_data it packet src d = (d\<lparr>d_plain_buf := memcpy_at (d_plain_buf d) 0 (zeros (pd_ciphertext_len pd))\<rparr>, [])"
          using data_decrypt [OF wf, of "d_plain_buf d" ?c ?k] assms(1) bad True est Inr Some s
          by (simp add: on_data_def Let_def daemon_wf_def)
        then show ?thesis using assms dropped [of "memcpy_at (d_plain_buf d) 0 (zeros (pd_ciphertext_len pd))"] len(2)
          by (simp add: daemon_wf_def)
      qed
    qed
  qed
qed

section \<open>Handshakes\<close>

text \<open>The peer after a handshake: the session that replaces the current one, and the new endpoint.\<close>

definition rekeyed :: "int \<Rightarrow> int \<Rightarrow> u32 \<Rightarrow> u32 \<Rightarrow> bytes \<Rightarrow> bytes \<Rightarrow> vpn_endpoint_t \<Rightarrow> vpn_peer_t \<Rightarrow> vpn_peer_t" where
  "rekeyed now now' li ri sk rk ep p =
     p\<lparr>current_session := session_zero\<lparr>local_index := li, peer_index := ri, sess_state := SESSION_STATE_ESTABLISHED,
         send_key := sk, recv_key := rk, established_time := now\<rparr>,
       previous_session := (if sess_state (current_session p) = SESSION_STATE_ESTABLISHED then current_session p
         else previous_session p),
       last_handshake_time := now', endpoint := ep\<rparr>"

definition burn_index :: "daemon \<Rightarrow> daemon" where
  "burn_index d = d\<lparr>d_table := (d_table d)\<lparr>next_local_index := next_local_index (d_table d) + 1\<rparr>\<rparr>"

lemma consume_initiation_facts:
  assumes "x25519_sizes X" "daemon_wf d"
    and "handshake_consume_initiation X (Some packet) (Some (d_static_priv d)) (Some (d_static_pub d)) (Some (d_table d)) = Inr (i, m, ck, h)"
  shows "i < length (peers (d_table d)) \<and> length ck = 32 \<and> length h = 32"
proof -
  have t: "table_wf (d_table d)" "length (d_static_pub d) = 32" using assms(2) by (simp_all add: daemon_wf_def)
  from assms(3) obtain d1 P d2 T where a: "init_accepted X (d_static_priv d) (d_static_pub d) (d_table d) m d1 P d2 T i"
    and "ck = n_c3 (hi_unencrypted_ephemeral m) d1 d2" "h = n_h3 (d_static_pub d) (hi_unencrypted_ephemeral m) d1 P d2 T"
    unfolding handshake_consume_initiation_iff [OF assms(1) t(2)] by blast
  moreover have "peer_find_by_pubkey (Some (d_table d)) (Some P) = Some i" "length P = 32"
    using a by (simp_all add: init_accepted_def init_authentic_def)
  ultimately show ?thesis using find_by_pubkey_iff [OF t(1)] by (simp add: n_c3_def n_h3_def)
qed

lemma on_handshake_init_cases:
  assumes "x25519_sizes X" "daemon_wf d" "on_handshake_init X it packet src d = (d', evs)"
  obtains (rejected) "d' = d" "evs = []"
  | (no_response) "peers (d_table d) \<noteq> []" "d' = burn_index d" "evs = []"
  | (accepted) i m ck h sk rk ep pkt where
      "handshake_consume_initiation X (Some packet) (Some (d_static_priv d)) (Some (d_static_pub d)) (Some (d_table d)) = Inr (i, m, ck, h)"
      "i < length (peers (d_table d))" "length sk = VPN_KEY_LEN" "length rk = VPN_KEY_LEN"
      "handshake_create_response X (it_rnd it) (Some (zeros PACKET_HANDSHAKE_RESP_LEN)) (Some (d_static_priv d))
         (Some (hi_unencrypted_ephemeral m)) (Some (public_key (peers (d_table d) ! i))) (next_local_index (d_table d))
         (hi_sender_index m) (Some ck) (Some h) = Inr ((92, pkt), sk, rk)"
      "d' = set_peer (burn_index d) i (rekeyed (it_now it) (it_now' it) (next_local_index (d_table d)) (hi_sender_index m) sk rk ep
         (peers (d_table d) ! i))"
      "evs = snd (transport_send (it_send_resp it) (d_sock_fd d) (Some src) (Some pkt) 92)"
proof (cases "handshake_consume_initiation X (Some packet) (Some (d_static_priv d)) (Some (d_static_pub d)) (Some (d_table d))")
  case (Inl e)
  then show ?thesis using assms(3) rejected by (simp add: on_handshake_init_def)
next
  case (Inr r)
  obtain i m ck h where r: "r = (i, m, ck, h)" by (cases r)
  let ?p = "peers (d_table d) ! i" and ?li = "next_local_index (d_table d)"
  note c = Inr [unfolded r]
  have f: "i < length (peers (d_table d))" "length ck = 32" "length h = 32"
    using consume_initiation_facts [OF assms(1,2) c] by simp_all
  have pk: "length (public_key ?p) = 32"
    using table_wf_pubkey [of "d_table d" ?p] f(1) assms(2) by (simp add: daemon_wf_def)
  define resp where "resp = handshake_create_response X (it_rnd it) (Some (zeros 92)) (Some (d_static_priv d))
    (Some (hi_unencrypted_ephemeral m)) (Some (public_key ?p)) ?li (hi_sender_index m) (Some ck) (Some h)"
  show ?thesis
  proof (cases resp)
    case (Inl e)
    then show ?thesis using assms(3) no_response c f(1) by (cases "peers (d_table d)") (simp_all add: on_handshake_init_def Let_def burn_index_def resp_def)
  next
    case (Inr q)
    obtain n pkt sk rk where q: "q = ((n, pkt), sk, rk)" by (cases q) auto
    note cr = Inr [unfolded resp_def q]
    have n: "n = 92" "length sk = 32" "length rk = 32"
      by (rule create_response_Inr [OF assms(1) pk f(2,3) cr], simp_all)+
    obtain rc ep where ep: "peer_update_endpoint (Some (the (peer_init_session (it_now it) (it_now' it) (Some ?p) ?li (hi_sender_index m)
        (Some sk) (Some rk)))) (Some src) = (Inr rc, Some ((the (peer_init_session (it_now it) (it_now' it) (Some ?p) ?li (hi_sender_index m)
        (Some sk) (Some rk)))\<lparr>endpoint := ep\<rparr>))"
      using peer_update_endpoint_eq by blast
    have peer: "the (snd (peer_update_endpoint (Some (the (peer_init_session (it_now it) (it_now' it) (Some ?p) ?li (hi_sender_index m)
        (Some sk) (Some rk)))) (Some src))) = rekeyed (it_now it) (it_now' it) ?li (hi_sender_index m) sk rk ep ?p"
      unfolding ep using n(2,3) by (simp add: peer_init_session_eq rekeyed_def)
    have "on_handshake_init X it packet src d = (set_peer (burn_index d) i (rekeyed (it_now it) (it_now' it) ?li (hi_sender_index m) sk rk ep ?p),
        snd (transport_send (it_send_resp it) (d_sock_fd d) (Some src) (Some pkt) 92))"
      unfolding on_handshake_init_def c sum.case prod.case Let_def using cr n(1) peer by (simp add: burn_index_def)
    then show ?thesis using assms(3) n cr by (intro accepted [OF c f(1), of sk rk pkt ep]) simp_all
  qed
qed

section \<open>Both halves of an iteration\<close>

lemma inbound_datagram:
  assumes "daemon_wf d" "it_recv it = Inr (dg, addr, l)" "0 < length dg"
  shows "inbound X it d =
    (let d = d\<lparr>d_net_buf := take VPN_MAX_PACKET_SIZE dg @ drop (length dg) (d_net_buf d)\<rparr>; packet = take VPN_MAX_PACKET_SIZE dg;
         src = \<lparr>ep_addr = addr, ep_addr_len = l\<rparr>
     in case packet_peek_type (Some packet) of
          PACKET_TYPE_HANDSHAKE_INIT \<Rightarrow> on_handshake_init X it packet src d
        | PACKET_TYPE_DATA \<Rightarrow> on_data it packet src d
        | PACKET_TYPE_KEEPALIVE \<Rightarrow> on_data it packet src d
        | _ \<Rightarrow> (d, []))"
proof -
  have len: "length (d_net_buf d) = 2048" "\<not> d_sock_fd d < 0" using assms(1) by (simp_all add: daemon_wf_def)
  have buf: "memcpy_at (d_net_buf d) 0 (take 2048 dg) = take 2048 dg @ drop (length dg) (d_net_buf d)"
    using len(1) by (cases "length dg \<le> 2048") (simp_all add: memcpy_at_def)
  have "take (min (length dg) 2048) (take 2048 dg @ drop (length dg) (d_net_buf d)) = take 2048 dg"
    using len(1) by (simp add: min_def)
  then show ?thesis
    using assms(2,3) len(2)
    by (cases "packet_peek_type (Some (take 2048 dg))") (simp_all add: inbound_def transport_recv_def buf Let_def)
qed

lemma encrypt_take:
  "vpn_crypto_aead_encrypt c (Some x) n ad ctr k = vpn_crypto_aead_encrypt c (Some (take n x)) n ad ctr k"
  by (cases k) (simp_all add: vpn_crypto_aead_encrypt_def)

lemma serialize_take:
  "packet_serialize_data b ri ctr (Some x) n tag = packet_serialize_data b ri ctr (Some (take n x)) n tag"
  by (cases b; cases tag) (simp_all add: packet_serialize_data_def Let_def)

text \<open>The data packet that carries a plaintext of a session.\<close>

definition data_packet :: "vpn_session_t \<Rightarrow> bytes \<Rightarrow> packet_data_t" where
  "data_packet s p =
     \<lparr>pd_receiver_index = peer_index s, pd_counter = sending_counter s,
      pd_ciphertext = Some (fst (vpn_seal (send_key s) (sending_counter s) [] p)), pd_ciphertext_len = length p,
      pd_auth_tag = snd (vpn_seal (send_key s) (sending_counter s) [] p)\<rparr>"

definition count_up :: "vpn_peer_t \<Rightarrow> vpn_peer_t" where
  "count_up peer = peer\<lparr>current_session := (current_session peer)\<lparr>sending_counter := sending_counter (current_session peer) + 1\<rparr>\<rparr>"

lemma length_data_wire:
  "length p \<le> aead_limit \<Longrightarrow> length (data_wire (data_packet s p)) = 32 + length p"
  by (simp add: data_wire_def data_packet_def vpn_seal_eq length_le_write)

lemma outbound_ok:
  assumes "daemon_wf d" "tun_fd (d_tun d) \<ge> 0" "it_read it = Inr p" "20 \<le> length p" "length p \<le> VPN_MAX_PACKET_SIZE"
    and "peer_find_by_dest_ip (Some (d_table d)) (ipv4_at p 16) = Some i"
    and "sess_state (current_session (peers (d_table d) ! i)) = SESSION_STATE_ESTABLISHED"
  shows "\<exists>nb cb. length nb = VPN_MAX_PACKET_SIZE \<and> length cb = VPN_MAX_PACKET_SIZE \<and> outbound it d =
    (set_peer (d\<lparr>d_tun_buf := p @ drop (length p) (d_tun_buf d), d_net_buf := nb, d_cipher_buf := cb\<rparr>) i
       (count_up (peers (d_table d) ! i)),
     if length p \<le> 2016 then
       [Ev_sendto (nat (d_sock_fd d)) (data_wire (data_packet (current_session (peers (d_table d) ! i)) p))
          (ep_addr (endpoint (peers (d_table d) ! i))) (ep_addr_len (endpoint (peers (d_table d) ! i)))] else [])"
proof -
  let ?peer = "peers (d_table d) ! i" and ?s = "current_session (peers (d_table d) ! i)"
  let ?c = "fst (vpn_seal (send_key ?s) (sending_counter ?s) [] p)" and ?t = "snd (vpn_seal (send_key ?s) (sending_counter ?s) [] p)"
  have len: "length (d_net_buf d) = 2048" "length (d_tun_buf d) = 2048" "length (d_cipher_buf d) = 2048" "\<not> d_sock_fd d < 0"
    using assms(1) by (simp_all add: daemon_wf_def)
  have lim: "length p \<le> aead_limit" by (rule small_limit) (use assms(5) in simp)
  have ct: "length ?c = length p" "length ?t = 16" using lim by (simp_all add: vpn_seal_eq)
  have tb: "memcpy_at (d_tun_buf d) 0 p = p @ drop (length p) (d_tun_buf d)" using assms(5) by (simp add: memcpy_at_def)
  have ip: "ipv4_at (p @ drop (length p) (d_tun_buf d)) 16 = ipv4_at p 16" using assms(4) by (simp add: ipv4_at_prefix)
  let ?cb = "?c @ drop (length p) (d_cipher_buf d)"
  have enc: "vpn_crypto_aead_encrypt (Some (d_cipher_buf d)) (Some (p @ drop (length p) (d_tun_buf d))) (length p) []
      (sending_counter ?s) (Some (send_key ?s)) = Inr (Some ?cb, ?t)"
    using vpn_encrypt_eq [OF lim, of "d_cipher_buf d" "[]" "sending_counter ?s" "send_key ?s"] lim
    by (subst encrypt_take) (simp add: vpn_seal_eq memcpy_at_def)
  have ser: "packet_serialize_data (Some (d_net_buf d)) (peer_index ?s) (sending_counter ?s) (Some ?cb) (length p) (Some ?t) =
      (if length p \<le> 2016 then Inr (32 + length p, data_wire (data_packet ?s p) @ drop (32 + length p) (d_net_buf d)) else Inl ENOSPC)"
  proof (cases "length p \<le> 2016")
    case True
    then show ?thesis using serialize_data_wire [of "Some ?c" "length p" ?t "d_net_buf d" "peer_index ?s" "sending_counter ?s"] ct len(1)
      by (subst serialize_take) (simp add: data_packet_def)
  next
    case False
    then show ?thesis using len(1) by (simp add: packet_serialize_data_def)
  qed
  define nb where "nb = (if length p \<le> 2016 then data_wire (data_packet ?s p) @ drop (32 + length p) (d_net_buf d) else d_net_buf d)"
  have "length nb = 2048" using len(1) length_data_wire [OF lim] by (simp add: nb_def)
  moreover have "length ?cb = 2048" using len(3) ct assms(5) by simp
  moreover have "outbound it d = (set_peer (d\<lparr>d_tun_buf := p @ drop (length p) (d_tun_buf d), d_net_buf := nb, d_cipher_buf := ?cb\<rparr>) i (count_up ?peer),
     if length p \<le> 2016 then [Ev_sendto (nat (d_sock_fd d)) (data_wire (data_packet ?s p))
          (ep_addr (endpoint ?peer)) (ep_addr_len (endpoint ?peer))] else [])"
    using assms(2-7) len(4) length_data_wire [OF lim, of ?s]
    by (cases "length p \<le> 2016"; cases "it_send_data it")
      (simp_all add: outbound_def tun_read_def tb ip enc ser Let_def set_peer_def count_up_def nb_def transport_send_def)
  ultimately show ?thesis by (intro exI [of _ nb] exI [of _ ?cb] conjI) simp_all
qed

end
