(* ===== verification/Node.thy ===== *)
theory Node
  imports Daemon
begin

text \<open>
  What the daemon promises, as a state machine on its peer table: a node allots indices, replaces the
  session of a peer after an authentic handshake, accepts authentic data packets and sends packets.
  The steps leave out buffers, parsing and system calls. The invariants on the order of steps are
  proved here: a session index belongs to one session, a counter is accepted once per session, and a
  nonce is used once per session.
\<close>

section \<open>Steps\<close>

datatype node_action =
    Index_burnt
  | Rekeyed bytes vpn_endpoint_t
  | Accepted vpn_peer_t vpn_session_t packet_data_t bytes
  | Sent vpn_peer_t bytes

text \<open>A node has an X25519 implementation and a static key pair.\<close>

inductive node_step :: "x25519 \<Rightarrow> bytes \<Rightarrow> bytes \<Rightarrow> vpn_peer_table_t \<Rightarrow> node_action \<Rightarrow> vpn_peer_table_t \<Rightarrow> bool"
  for X priv pub where
  step_burn: "peers t \<noteq> [] \<Longrightarrow>
    node_step X priv pub t Index_burnt (t\<lparr>next_local_index := next_local_index t + 1\<rparr>)"
| step_rekey: "handshake_consume_initiation X (Some b) (Some priv) (Some pub) (Some t) = Inr (i, m, ck, h) \<Longrightarrow>
    i < length (peers t) \<Longrightarrow> length sk = VPN_KEY_LEN \<Longrightarrow> length rk = VPN_KEY_LEN \<Longrightarrow>
    handshake_create_response X rnd (Some (zeros PACKET_HANDSHAKE_RESP_LEN)) (Some priv) (Some (hi_unencrypted_ephemeral m))
      (Some (public_key (peers t ! i))) (next_local_index t) (hi_sender_index m) (Some ck) (Some h) = Inr ((92, pkt), sk, rk) \<Longrightarrow>
    node_step X priv pub t (Rekeyed (take 92 pkt) src) (t\<lparr>peers := (peers t)[i :=
        rekeyed now now' (next_local_index t) (hi_sender_index m) sk rk ep (peers t ! i)], next_local_index := next_local_index t + 1\<rparr>)"
| step_accept: "i < length (peers t) \<Longrightarrow> s = slot_session slot (peers t ! i) \<Longrightarrow>
    session_answers (pd_receiver_index pd) s \<Longrightarrow> replay_check (Some (replay_filter s)) (pd_counter pd) \<Longrightarrow>
    vpn_seal (recv_key s) (pd_counter pd) [] p = (pd_bytes pd, pd_auth_tag pd) \<Longrightarrow>
    node_step X priv pub t (Accepted (peers t ! i) s pd p)
      (t\<lparr>peers := (peers t)[i := accept_packet slot (pd_counter pd) src (peers t ! i)]\<rparr>)"
| step_send: "i < length (peers t) \<Longrightarrow> peer_allows_source_ip (Some (peers t ! i)) (ipv4_at p 16) \<Longrightarrow>
    sess_state (current_session (peers t ! i)) = SESSION_STATE_ESTABLISHED \<Longrightarrow>
    node_step X priv pub t (Sent (peers t ! i) p) (t\<lparr>peers := (peers t)[i := count_up (peers t ! i)]\<rparr>)"

inductive node_run :: "x25519 \<Rightarrow> bytes \<Rightarrow> bytes \<Rightarrow> vpn_peer_table_t \<Rightarrow> node_action list \<Rightarrow> vpn_peer_table_t \<Rightarrow> bool"
  for X priv pub t0 where
  run_nil: "node_run X priv pub t0 [] t0"
| run_snoc: "node_run X priv pub t0 acts t \<Longrightarrow> node_step X priv pub t a t' \<Longrightarrow> node_run X priv pub t0 (acts @ [a]) t'"



lemma node_run_append:
  "node_run X priv pub t1 acts' t2 \<Longrightarrow> node_run X priv pub t0 acts t1 \<Longrightarrow> node_run X priv pub t0 (acts @ acts') t2"
  by (induction rule: node_run.induct) (auto simp flip: append_assoc intro: node_run.intros)

lemma node_run_one: "node_step X priv pub t a t' \<Longrightarrow> node_run X priv pub t [a] t'"
  using run_snoc [OF run_nil] by fastforce

text \<open>What the steps show on the socket and the TUN device.\<close>

fun act_events :: "int \<Rightarrow> tun_device_t \<Rightarrow> node_action \<Rightarrow> sys_event list" where
  "act_events sock tun Index_burnt = []"
| "act_events sock tun (Rekeyed pkt src) = [Ev_sendto (nat sock) pkt (ep_addr src) (ep_addr_len src)]"
| "act_events sock tun (Accepted peer s pd p) =
     (if 20 \<le> length p \<and> length p \<le> nat (tun_mtu tun) \<and> tun_fd tun \<ge> 0 \<and> peer_allows_source_ip (Some peer) (ipv4_at p 12)
      then [Ev_write (nat (tun_fd tun)) p] else [])"
| "act_events sock tun (Sent peer p) =
     (if length p \<le> 2016 then [Ev_sendto (nat sock) (data_wire (data_packet (current_session peer) p))
        (ep_addr (endpoint peer)) (ep_addr_len (endpoint peer))] else [])"

text \<open>The session index and the counter of the packets that were accepted and sent, and the indices allotted.\<close>

fun accepted_counter :: "node_action \<Rightarrow> (u32 \<times> u64) list" where
  "accepted_counter (Accepted _ s pd _) = [(local_index s, pd_counter pd)]"
| "accepted_counter _ = []"

fun sent_nonce :: "node_action \<Rightarrow> (u32 \<times> u64) list" where
  "sent_nonce (Sent peer _) = [(local_index (current_session peer), sending_counter (current_session peer))]"
| "sent_nonce _ = []"

fun allots :: "node_action \<Rightarrow> bool" where
  "allots Index_burnt = True"
| "allots (Rekeyed _ _) = True"
| "allots _ = False"

section \<open>Live sessions\<close>

definition live :: "vpn_peer_table_t \<Rightarrow> nat \<Rightarrow> session_slot \<Rightarrow> vpn_session_t \<Rightarrow> bool" where
  "live t i slot s \<longleftrightarrow> i < length (peers t) \<and> s = slot_session slot (peers t ! i) \<and> sess_state s = SESSION_STATE_ESTABLISHED"

definition no_sessions :: "vpn_peer_table_t \<Rightarrow> bool" where
  "no_sessions t \<longleftrightarrow> (\<forall>p \<in> set (peers t). sess_state (current_session p) = SESSION_STATE_NONE
     \<and> sess_state (previous_session p) = SESSION_STATE_NONE)"

lemma no_sessions_live: "no_sessions t \<Longrightarrow> \<not> live t i slot s"
  by (cases slot) (auto simp: no_sessions_def live_def)

lemma live_next [simp]: "live (t\<lparr>next_local_index := n\<rparr>) = live t"
  by (intro ext) (simp add: live_def)

lemma live_update:
  "i < length (peers t) \<Longrightarrow> live (t\<lparr>peers := (peers t)[i := p]\<rparr>) j slot s \<longleftrightarrow>
     (if j = i then s = slot_session slot p \<and> sess_state s = SESSION_STATE_ESTABLISHED else live t j slot s)"
  by (auto simp: live_def)

lemma slot_session_rekeyed:
  "slot_session slot (rekeyed now now' li ri sk rk ep p) =
     (case slot of Current \<Rightarrow> current_session (rekeyed now now' li ri sk rk ep p)
      | Previous \<Rightarrow> slot_session (if sess_state (current_session p) = SESSION_STATE_ESTABLISHED then Current else Previous) p)"
  by (cases slot) (simp_all add: rekeyed_def)

lemma slot_session_accept:
  "slot_session slot' (accept_packet slot c src p) =
     (if slot' = slot then (slot_session slot p)\<lparr>replay_filter := replay_update_body (replay_filter (slot_session slot p)) c\<rparr>
      else slot_session slot' p)"
proof -
  let ?q = "slot_update slot (\<lambda>s. s\<lparr>replay_filter := the (replay_update (Some (replay_filter s)) c)\<rparr>) p"
  obtain rc ep where "peer_update_endpoint (Some ?q) (Some src) = (Inr rc, Some (?q\<lparr>endpoint := ep\<rparr>))"
    using peer_update_endpoint_eq by blast
  then show ?thesis by (cases slot; cases slot') (simp_all add: accept_packet_def replay_update_def)
qed

lemma slot_session_count_up:
  "slot_session slot (count_up p) =
     (case slot of Current \<Rightarrow> (current_session p)\<lparr>sending_counter := sending_counter (current_session p) + 1\<rparr>
      | Previous \<Rightarrow> previous_session p)"
  by (cases slot) (simp_all add: count_up_def)

section \<open>Where a live session comes from\<close>

lemma live_rekey:
  assumes "i < length (peers t)"
    and "live (t\<lparr>peers := (peers t)[i := rekeyed now now' li ri sk rk ep (peers t ! i)], next_local_index := n\<rparr>) j slot s"
  shows "j = i \<and> slot = Current \<and> local_index s = li \<and> sending_counter s = 0 \<and> replay_filter s = replay_filter_zero
    \<or> (slot = Current \<longrightarrow> j \<noteq> i) \<and>
      live t j (if j = i \<and> sess_state (current_session (peers t ! i)) = SESSION_STATE_ESTABLISHED then Current else slot) s"
proof (cases "j = i")
  case True
  then show ?thesis using assms by (cases slot) (auto simp: live_def rekeyed_def session_zero_def)
next
  case False
  then show ?thesis using assms by (auto simp: live_def)
qed

lemma live_accept:
  assumes "i < length (peers t)"
    and "live (t\<lparr>peers := (peers t)[i := accept_packet slot c src (peers t ! i)]\<rparr>) j slot' s"
  shows "\<exists>s0. live t j slot' s0 \<and> s = (if j = i \<and> slot' = slot then s0\<lparr>replay_filter := replay_update_body (replay_filter s0) c\<rparr> else s0)"
  using assms(2) unfolding live_update [OF assms(1)]
  by (cases "j = i"; cases "slot' = slot") (auto simp: slot_session_accept live_def assms(1))

lemma live_count_up:
  assumes "i < length (peers t)" "live (t\<lparr>peers := (peers t)[i := count_up (peers t ! i)]\<rparr>) j slot s"
  shows "\<exists>s0. live t j slot s0 \<and> s = (if j = i \<and> slot = Current then s0\<lparr>sending_counter := sending_counter s0 + 1\<rparr> else s0)"
  using assms(2) unfolding live_update [OF assms(1)]
  by (cases "j = i"; cases slot) (auto simp: slot_session_count_up live_def assms(1))

section \<open>Invariants\<close>

text \<open>The index of a live session was allotted, and to no other live session.\<close>

definition index_inv :: "vpn_peer_table_t \<Rightarrow> bool" where
  "index_inv t \<longleftrightarrow> (\<forall>i slot s. live t i slot s \<longrightarrow> local_index s < next_local_index t) \<and>
     (\<forall>i slot s j slot' s'. live t i slot s \<longrightarrow> live t j slot' s' \<longrightarrow> local_index s = local_index s' \<longrightarrow> i = j \<and> slot = slot')"

text \<open>The filter of a live session has seen exactly the counters that were accepted for its index.\<close>

definition accept_inv :: "vpn_peer_table_t \<Rightarrow> (u32 \<times> u64) list \<Rightarrow> bool" where
  "accept_inv t log \<longleftrightarrow> distinct log \<and> (\<forall>e \<in> set log. fst e < next_local_index t) \<and>
     (\<forall>i slot s. live t i slot s \<longrightarrow> replay_rel (replay_filter s) {unat c |c. (local_index s, c) \<in> set log})"

text \<open>The sending counter of a current session is above every counter that was sent for its index.\<close>

definition send_inv :: "vpn_peer_table_t \<Rightarrow> (u32 \<times> u64) list \<Rightarrow> bool" where
  "send_inv t log \<longleftrightarrow> distinct log \<and> (\<forall>e \<in> set log. fst e < next_local_index t) \<and>
     (\<forall>i s. live t i Current s \<longrightarrow> unat (sending_counter s) \<le> length log \<and> (\<forall>c. (local_index s, c) \<in> set log \<longrightarrow> c < sending_counter s))"

lemma index_invD:
  "index_inv t \<Longrightarrow> live t i slot s \<Longrightarrow> local_index s < next_local_index t"
  "index_inv t \<Longrightarrow> live t i slot s \<Longrightarrow> live t j slot' s' \<Longrightarrow> local_index s = local_index s' \<Longrightarrow> i = j \<and> slot = slot'"
  unfolding index_inv_def by blast+

lemma word_less_succ: "unat (n :: u32) + 1 < 2 ^ 32 \<Longrightarrow> n < n + 1" "unat (n :: u32) + 1 < 2 ^ 32 \<Longrightarrow> unat (n + 1) = unat n + 1"
proof -
  assume "unat n + 1 < 2 ^ 32"
  then show u: "unat (n + 1) = unat n + 1" by (simp add: unat_word_ariths)
  then show "n < n + 1" by (simp add: word_less_nat_alt)
qed

lemma index_inv_frame:
  assumes "index_inv t" "next_local_index t' = next_local_index t"
    and "\<And>j slot s. live t' j slot s \<Longrightarrow> \<exists>s0. live t j slot s0 \<and> local_index s = local_index s0"
  shows "index_inv t'"
  unfolding index_inv_def using index_invD [OF assms(1)] assms(2,3) by metis

lemma node_step_next:
  "node_step X priv pub t a t' \<Longrightarrow> next_local_index t' = (if allots a then next_local_index t + 1 else next_local_index t)"
  by (erule node_step.cases) simp_all

lemma index_inv_step:
  assumes "node_step X priv pub t a t'" "index_inv t" "allots a \<Longrightarrow> unat (next_local_index t) + 1 < 2 ^ 32"
  shows "index_inv t'"
  using assms(1)
proof (cases rule: node_step.cases)
  case step_burn
  then show ?thesis using assms(2,3) word_less_succ(1) [of "next_local_index t"] less_trans
    unfolding index_inv_def by fastforce
next
  case (step_rekey b i m ck h sk rk rnd pkt src now now' ep)
  let ?old = "\<lambda>j slot. if j = i \<and> sess_state (current_session (peers t ! i)) = SESSION_STATE_ESTABLISHED then Current else slot"
  have up: "next_local_index t < next_local_index t + 1" using assms(3) step_rekey(1) by (intro word_less_succ(1)) simp
  have L: "j = i \<and> slot = Current \<and> local_index s = next_local_index t \<or> (slot = Current \<longrightarrow> j \<noteq> i) \<and> live t j (?old j slot) s"
    if "live t' j slot s" for j slot s
    using live_rekey [OF step_rekey(4)] that unfolding step_rekey(2) by blast
  have less: "local_index s < next_local_index t" if "live t j (?old j slot) s" for j slot s
    using index_invD(1) [OF assms(2) that] .
  show ?thesis unfolding index_inv_def
  proof (intro conjI allI impI)
    fix j slot s assume "live t' j slot s"
    then show "local_index s < next_local_index t'"
      using L [of j slot s] less [of j slot s] up less_trans unfolding step_rekey(2) by auto
  next
    fix j slot s j' slot' s' assume a: "live t' j slot s" "live t' j' slot' s'" "local_index s = local_index s'"
    show "j = j'" using L [OF a(1)] L [OF a(2)] a(3) less index_invD(2) [OF assms(2)] by (metis less_irrefl)
    show "slot = slot'"
    proof (cases "slot = Current \<and> j = i \<or> slot' = Current \<and> j' = i")
      case True
      then show ?thesis using L [OF a(1)] L [OF a(2)] a(3) less by (metis less_irrefl)
    next
      case False
      then have "live t j (?old j slot) s" "live t j' (?old j' slot') s'" using L [OF a(1)] L [OF a(2)] by auto
      from index_invD(2) [OF assms(2) this a(3)] False show ?thesis
        by (cases slot; cases slot') (auto split: if_splits)
    qed
  qed
next
  case (step_accept i s slot pd p src)
  show ?thesis
    by (rule index_inv_frame [OF assms(2)]) (auto simp: step_accept(2) dest!: live_accept [OF step_accept(3)])
next
  case (step_send i p)
  show ?thesis
    by (rule index_inv_frame [OF assms(2)]) (auto simp: step_send(2) dest!: live_count_up [OF step_send(3)])
qed

lemma accept_inv_step:
  assumes "node_step X priv pub t a t'" "index_inv t" "allots a \<Longrightarrow> unat (next_local_index t) + 1 < 2 ^ 32" "accept_inv t log"
  shows "accept_inv t' (log @ accepted_counter a)"
proof -
  have dist: "distinct log" and old: "\<And>e. e \<in> set log \<Longrightarrow> fst e < next_local_index t"
    and rel: "\<And>i slot s. live t i slot s \<Longrightarrow> replay_rel (replay_filter s) {unat c |c. (local_index s, c) \<in> set log}"
    using assms(4) unfolding accept_inv_def by blast+
  have up: "next_local_index t < next_local_index t + 1" if "allots a" using assms(3) [OF that] by (rule word_less_succ(1))
  show ?thesis
    using assms(1)
  proof (cases rule: node_step.cases)
    case step_burn
    then show ?thesis using dist rel less_trans [OF old up] by (simp add: accept_inv_def)
  next
    case (step_rekey b i m ck h sk rk rnd pkt src now now' ep)
    have "replay_rel (replay_filter s) {unat c |c. (local_index s, c) \<in> set log}" if "live t' j slot s" for j slot s
      using live_rekey [OF step_rekey(4) that [unfolded step_rekey(2)]]
    proof (elim disjE conjE)
      assume "local_index s = next_local_index t" "replay_filter s = replay_filter_zero"
      moreover have "(next_local_index t, c) \<notin> set log" for c using old by fastforce
      ultimately show ?thesis using replay_rel_zero by simp
    qed (rule rel)
    then show ?thesis using dist less_trans [OF old up] step_rekey(1,2) by (auto simp: accept_inv_def)
  next
    case (step_accept i s slot pd p src)
    let ?c = "pd_counter pd"
    have lv: "live t i slot s" using step_accept(3-5) by (simp add: live_def session_answers_def)
    have new: "(local_index s, ?c) \<notin> set log"
      using rw.check_fresh [OF rel [OF lv], of ?c] step_accept(6) by (auto simp: replay_check_def)
    have "replay_rel (replay_filter s') {unat c |c. (local_index s', c) \<in> set (log @ [(local_index s, ?c)])}" if l: "live t' j slot' s'" for j slot' s'
    proof -
      obtain s0 where s0: "live t j slot' s0"
        "s' = (if j = i \<and> slot' = slot then s0\<lparr>replay_filter := replay_update_body (replay_filter s0) ?c\<rparr> else s0)"
        using live_accept [OF step_accept(3) l [unfolded step_accept(2)]] by blast
      show ?thesis
      proof (cases "j = i \<and> slot' = slot")
        case True
        then have "s0 = s" using s0(1) lv by (simp add: live_def)
        moreover have "{unat c |c. (local_index s, c) \<in> set (log @ [(local_index s, ?c)])} = insert (unat ?c) {unat c |c. (local_index s, c) \<in> set log}"
          by auto
        ultimately show ?thesis using rw.marked_update [OF rel [OF lv], of ?c] s0(2) True by simp
      next
        case False
        then have "local_index s0 \<noteq> local_index s" using index_invD(2) [OF assms(2) s0(1) lv] by blast
        then show ?thesis using rel [OF s0(1)] s0(2) False by simp
      qed
    qed
    then show ?thesis using dist new old index_invD(1) [OF assms(2) lv] step_accept(1,2) by (auto simp: accept_inv_def)
  next
    case (step_send i p)
    then show ?thesis using dist old rel live_count_up [OF step_send(3)]
      unfolding accept_inv_def by (fastforce split: if_splits)
  qed
qed

lemma word_less_succ64: "unat (n :: u64) + 1 < 2 ^ 64 \<Longrightarrow> n < n + 1" "unat (n :: u64) + 1 < 2 ^ 64 \<Longrightarrow> unat (n + 1) = unat n + 1"
proof -
  assume "unat n + 1 < 2 ^ 64"
  then show u: "unat (n + 1) = unat n + 1" by (simp add: unat_word_ariths)
  then show "n < n + 1" by (simp add: word_less_nat_alt)
qed

lemma send_inv_step:
  assumes "node_step X priv pub t a t'" "index_inv t" "allots a \<Longrightarrow> unat (next_local_index t) + 1 < 2 ^ 32" "send_inv t log"
    and "length (log @ sent_nonce a) < 2 ^ 64"
  shows "send_inv t' (log @ sent_nonce a)"
proof -
  have dist: "distinct log" and old: "\<And>e. e \<in> set log \<Longrightarrow> fst e < next_local_index t"
    and cnt: "\<And>i s. live t i Current s \<Longrightarrow> unat (sending_counter s) \<le> length log"
    and above: "\<And>i s c. live t i Current s \<Longrightarrow> (local_index s, c) \<in> set log \<Longrightarrow> c < sending_counter s"
    using assms(4) unfolding send_inv_def by blast+
  have up: "next_local_index t < next_local_index t + 1" if "allots a" using assms(3) [OF that] by (rule word_less_succ(1))
  show ?thesis
    using assms(1)
  proof (cases rule: node_step.cases)
    case step_burn
    then show ?thesis using dist cnt above less_trans [OF old up] by (simp add: send_inv_def)
  next
    case (step_rekey b i m ck h sk rk rnd pkt src now now' ep)
    have "unat (sending_counter s) \<le> length log \<and> (\<forall>c. (local_index s, c) \<in> set log \<longrightarrow> c < sending_counter s)"
      if "live t' j Current s" for j s
      using live_rekey [OF step_rekey(4) that [unfolded step_rekey(2)]]
    proof (elim disjE conjE)
      assume "local_index s = next_local_index t" "sending_counter s = 0"
      moreover have "(next_local_index t, c) \<notin> set log" for c using old by fastforce
      ultimately show ?thesis by simp
    qed (use cnt above in auto)
    then show ?thesis using dist less_trans [OF old up] step_rekey(1,2) by (auto simp: send_inv_def)
  next
    case (step_accept i s slot pd p src)
    then show ?thesis using dist old cnt above live_accept [OF step_accept(3)]
      unfolding send_inv_def by (fastforce split: if_splits)
  next
    case (step_send i p)
    let ?s = "current_session (peers t ! i)"
    have lv: "live t i Current ?s" using step_send(3,5) by (simp add: live_def)
    have new: "(local_index ?s, sending_counter ?s) \<notin> set log" using above [OF lv] by blast
    have u: "unat (sending_counter ?s) + 1 < 2 ^ 64" using cnt [OF lv] assms(5) step_send(1) by simp
    have "unat (sending_counter s') \<le> length log + 1 \<and>
        (\<forall>c. (local_index s', c) \<in> set (log @ [(local_index ?s, sending_counter ?s)]) \<longrightarrow> c < sending_counter s')"
      if l: "live t' j Current s'" for j s'
    proof -
      obtain s0 where s0: "live t j Current s0" "s' = (if j = i then s0\<lparr>sending_counter := sending_counter s0 + 1\<rparr> else s0)"
        using live_count_up [OF step_send(3) l [unfolded step_send(2)]] by auto
      show ?thesis
      proof (cases "j = i")
        case True
        then have "s0 = ?s" using s0(1) by (simp add: live_def)
        then show ?thesis
          using s0(2) True cnt [OF lv] above [OF lv] word_less_succ64 [OF u] less_trans by fastforce
      next
        case False
        then have "local_index s0 \<noteq> local_index ?s" using index_invD(2) [OF assms(2) s0(1) lv] by blast
        then show ?thesis using cnt [OF s0(1)] above [OF s0(1)] s0(2) False by auto
      qed
    qed
    then show ?thesis using dist new old index_invD(1) [OF assms(2) lv] step_send(1,2) by (auto simp: send_inv_def)
  qed
qed

section \<open>Runs\<close>

lemma node_run_inv:
  assumes "node_run X priv pub t0 acts t" "no_sessions t0" "unat (next_local_index t0) + length (filter allots acts) < 2 ^ 32"
  shows "unat (next_local_index t) = unat (next_local_index t0) + length (filter allots acts) \<and> index_inv t
    \<and> accept_inv t (concat (map accepted_counter acts))
    \<and> (length (concat (map sent_nonce acts)) < 2 ^ 64 \<longrightarrow> send_inv t (concat (map sent_nonce acts)))"
  using assms
proof (induction rule: node_run.induct)
  case run_nil
  then show ?case using no_sessions_live [OF run_nil(1)] by (simp add: index_inv_def accept_inv_def send_inv_def)
next
  case (run_snoc acts t a t')
  have IH: "unat (next_local_index t) = unat (next_local_index t0) + length (filter allots acts)" "index_inv t"
    "accept_inv t (concat (map accepted_counter acts))"
    "length (concat (map sent_nonce acts)) < 2 ^ 64 \<Longrightarrow> send_inv t (concat (map sent_nonce acts))"
    using run_snoc.IH run_snoc.prems by auto
  have b: "unat (next_local_index t) + 1 < 2 ^ 32" if "allots a" using that run_snoc.prems(2) IH(1) by simp
  have "unat (next_local_index t') = unat (next_local_index t0) + length (filter allots (acts @ [a]))"
    using node_step_next [OF run_snoc.hyps(2)] IH(1) b word_less_succ(2) [of "next_local_index t"] by auto
  moreover note index_inv_step [OF run_snoc.hyps(2) IH(2) b] accept_inv_step [OF run_snoc.hyps(2) IH(2) b IH(3)]
    send_inv_step [OF run_snoc.hyps(2) IH(2) b IH(4)]
  ultimately show ?case by simp
qed

text \<open>Steps keep the peer table well-formed, and who the peers are.\<close>

definition identity :: "vpn_peer_t \<Rightarrow> string \<times> bytes \<times> vpn_cidr_t list" where
  "identity p = (peer_name p, public_key p, allowed_ips p)"

lemma accept_packet_eq:
  "\<exists>ep. accept_packet slot c src p = (slot_update slot (\<lambda>s. s\<lparr>replay_filter := replay_update_body (replay_filter s) c\<rparr>) p)\<lparr>endpoint := ep\<rparr>"
proof -
  let ?q = "slot_update slot (\<lambda>s. s\<lparr>replay_filter := the (replay_update (Some (replay_filter s)) c)\<rparr>) p"
  obtain rc ep where "peer_update_endpoint (Some ?q) (Some src) = (Inr rc, Some (?q\<lparr>endpoint := ep\<rparr>))"
    using peer_update_endpoint_eq by blast
  then show ?thesis by (intro exI [of _ ep]) (simp add: accept_packet_def replay_update_def)
qed

lemma peer_step_wf:
  "length sk = VPN_KEY_LEN \<Longrightarrow> length rk = VPN_KEY_LEN \<Longrightarrow> peer_wf p \<Longrightarrow>
     peer_wf (rekeyed now now' li ri sk rk ep p) \<and> identity (rekeyed now now' li ri sk rk ep p) = identity p"
  "peer_wf p \<Longrightarrow> peer_wf (accept_packet slot c src p) \<and> identity (accept_packet slot c src p) = identity p"
  "peer_wf p \<Longrightarrow> peer_wf (count_up p) \<and> identity (count_up p) = identity p"
proof -
  show "peer_wf (accept_packet slot c src p) \<and> identity (accept_packet slot c src p) = identity p" if "peer_wf p"
    using that accept_packet_eq [of slot c src p] by (cases slot) (auto simp: peer_wf_def session_wf_def identity_def)
qed (auto simp: rekeyed_def count_up_def peer_wf_def session_wf_def session_zero_def identity_def)

lemma table_step_wf:
  assumes "table_wf t" "i < length (peers t)" "peer_wf p \<and> identity p = identity (peers t ! i)"
  shows "table_wf (t\<lparr>peers := (peers t)[i := p]\<rparr>)" "map identity ((peers t)[i := p]) = map identity (peers t)"
  using table_wf_update [OF assms(1,2), of p] assms(2,3)
  by (simp_all add: identity_def map_update list_update_same_conv)

lemma node_step_wf:
  assumes "node_step X priv pub t a t'" "table_wf t"
  shows "table_wf t' \<and> map identity (peers t') = map identity (peers t)"
  using assms(1)
proof (cases rule: node_step.cases)
  case step_burn
  then show ?thesis using assms(2) by (simp add: table_wf_next)
next
  case (step_rekey b i m ck h sk rk rnd pkt src now now' ep)
  from table_step_wf [OF assms(2) step_rekey(4) peer_step_wf(1) [OF step_rekey(5,6) table_wf_nth [OF assms(2) step_rekey(4)]]]
  show ?thesis unfolding step_rekey(2) by (simp add: table_wf_def)
next
  case (step_accept i s slot pd p src)
  from table_step_wf [OF assms(2) step_accept(3) peer_step_wf(2) [OF table_wf_nth [OF assms(2) step_accept(3)]]]
  show ?thesis unfolding step_accept(2) by simp
next
  case (step_send i p)
  from table_step_wf [OF assms(2) step_send(3) peer_step_wf(3) [OF table_wf_nth [OF assms(2) step_send(3)]]]
  show ?thesis unfolding step_send(2) by simp
qed

lemma node_run_wf:
  "node_run X priv pub t acts t' \<Longrightarrow> table_wf t \<Longrightarrow> table_wf t' \<and> map identity (peers t') = map identity (peers t)"
  by (induction rule: node_run.induct) (auto dest: node_step_wf)

lemma node_run_no_peers:
  "node_run X priv pub t acts t' \<Longrightarrow> peers t = [] \<Longrightarrow> acts = [] \<and> t' = t"
  by (induction rule: node_run.induct) (auto elim: node_step.cases)

end
