(* ===== verification/Tunnel.thy ===== *)
theory Tunnel
  imports Node
begin

text \<open>
  The daemon as a whole: its event loop implements the steps of a node, from which the order properties
  of every run follow; a packet that enters the tunnel at one daemon leaves it at the other; start-up
  and shutdown.
\<close>

section \<open>The event loop refines the node\<close>

definition same_node :: "daemon \<Rightarrow> daemon \<Rightarrow> bool" where
  "same_node d d' \<longleftrightarrow> d_static_pub d' = d_static_pub d \<and> d_static_priv d' = d_static_priv d
     \<and> d_sock_fd d' = d_sock_fd d \<and> d_tun d' = d_tun d"

definition buffers_wf :: "daemon \<Rightarrow> bool" where
  "buffers_wf d \<longleftrightarrow> length (d_net_buf d) = VPN_MAX_PACKET_SIZE \<and> length (d_tun_buf d) = VPN_MAX_PACKET_SIZE
     \<and> length (d_plain_buf d) = VPN_MAX_PACKET_SIZE \<and> length (d_cipher_buf d) = VPN_MAX_PACKET_SIZE"

definition simulates :: "x25519 \<Rightarrow> daemon \<Rightarrow> sys_event list \<Rightarrow> daemon \<Rightarrow> node_action list \<Rightarrow> bool" where
  "simulates X d evs d' acts \<longleftrightarrow> same_node d d' \<and> daemon_wf d'
     \<and> node_run X (d_static_priv d) (d_static_pub d) (d_table d) acts (d_table d')
     \<and> evs = concat (map (act_events (d_sock_fd d) (d_tun d)) acts)"

lemma daemon_wf_same:
  "daemon_wf d \<Longrightarrow> same_node d d' \<Longrightarrow> buffers_wf d' \<Longrightarrow> table_wf (d_table d') \<Longrightarrow> daemon_wf d'"
  by (simp add: daemon_wf_def same_node_def buffers_wf_def)

lemma daemon_wf_buffers: "daemon_wf d \<Longrightarrow> buffers_wf d"
  by (simp add: daemon_wf_def buffers_wf_def)

lemma simulates_nil:
  "daemon_wf d \<Longrightarrow> same_node d d' \<Longrightarrow> buffers_wf d' \<Longrightarrow> d_table d' = d_table d \<Longrightarrow> simulates X d [] d' []"
  using daemon_wf_same [of d d'] run_nil by (simp add: simulates_def daemon_wf_def)

lemma simulates_one:
  assumes "daemon_wf d" "same_node d d'" "buffers_wf d'"
    and "node_step X (d_static_priv d) (d_static_pub d) (d_table d) a (d_table d')"
  shows "simulates X d (act_events (d_sock_fd d) (d_tun d) a) d' [a]"
proof -
  have "table_wf (d_table d')" using node_step_wf [OF assms(4)] assms(1) by (simp add: daemon_wf_def)
  then show ?thesis using daemon_wf_same [OF assms(1-3)] node_run_one [OF assms(4)] assms(2) by (simp add: simulates_def)
qed

lemma simulates_trans:
  "simulates X d evs d' acts \<Longrightarrow> simulates X d' evs' d'' acts' \<Longrightarrow> simulates X d (evs @ evs') d'' (acts @ acts')"
  using node_run_append by (auto simp: simulates_def same_node_def)

lemma simulates_wf: "simulates X d evs d' acts \<Longrightarrow> daemon_wf d'"
  by (simp add: simulates_def)

lemma simulates_le1:
  "simulates X d evs d' [] \<Longrightarrow> \<exists>acts. simulates X d evs d' acts \<and> length acts \<le> 1"
  "simulates X d evs d' [a] \<Longrightarrow> \<exists>acts. simulates X d evs d' acts \<and> length acts \<le> 1"
  by (rule exI, erule conjI, simp)+

lemma length_memcpy_0: "length p \<le> length b \<Longrightarrow> length (memcpy_at b 0 p) = length b"
  by (simp add: memcpy_at_def)

lemma mtu_word: "tun_wf t \<Longrightarrow> unat (word_of_int (tun_mtu t) :: u64) = nat (tun_mtu t)"
  by (simp add: tun_wf_def unsigned_of_int take_bit_int_eq_self)

lemma on_data_simulates:
  assumes "daemon_wf d" "on_data it packet src d = (d', evs)"
  shows "\<exists>acts. simulates X d evs d' acts \<and> length acts \<le> 1"
  using assms
proof (cases rule: on_data_cases)
  case (dropped buf)
  then show ?thesis using simulates_nil [OF assms(1), of d'] daemon_wf_buffers [OF assms(1)]
    by (intro simulates_le1(1)) (auto simp: same_node_def buffers_wf_def)
next
  case (accepted pd i slot p)
  let ?peer = "peers (d_table d) ! i"
  let ?a = "Accepted ?peer (slot_session slot ?peer) pd p"
  note ok = on_data_ok [OF assms(1) accepted, of it src]
  have b: "length (memcpy_at (d_plain_buf d) 0 p) = 2048" "take (length p) (memcpy_at (d_plain_buf d) 0 p) = p"
    using accepted(5) assms(1) by (simp_all add: daemon_wf_def memcpy_at_def)
  have "node_step X (d_static_priv d) (d_static_pub d) (d_table d) ?a (d_table d')"
    using step_accept [of i "d_table d" _ slot pd p X _ _ src] accepted(2-4) ok assms(2)
    by (simp add: data_session_def set_peer_def)
  moreover have "same_node d d'" "buffers_wf d'"
    using ok assms(2) daemon_wf_buffers [OF assms(1)] b(1) by (auto simp: same_node_def buffers_wf_def set_peer_def)
  moreover have "evs = act_events (d_sock_fd d) (d_tun d) ?a"
    using ok assms(2) b(2) mtu_word [of "d_tun d"] assms(1)
    by (cases "it_write it") (auto simp: tun_write_def daemon_wf_def)
  ultimately show ?thesis using simulates_le1(2) [OF simulates_one [OF assms(1)]] by blast
qed

lemma table_update_commute: "t\<lparr>next_local_index := n, peers := ps\<rparr> = t\<lparr>peers := ps, next_local_index := n\<rparr>"
  by (cases t) simp

lemma on_handshake_init_simulates:
  assumes "x25519_sizes X" "daemon_wf d" "on_handshake_init X it packet src d = (d', evs)"
  shows "\<exists>acts. simulates X d evs d' acts \<and> length acts \<le> 1"
  using assms
proof (cases rule: on_handshake_init_cases)
  case rejected
  then show ?thesis using simulates_nil [OF assms(2), of d'] daemon_wf_buffers [OF assms(2)]
    by (intro simulates_le1(1)) (auto simp: same_node_def)
next
  case no_response
  then have "node_step X (d_static_priv d) (d_static_pub d) (d_table d) Index_burnt (d_table d')"
    using step_burn [of "d_table d"] by (simp add: burn_index_def)
  then show ?thesis using simulates_one [OF assms(2), of d'] no_response daemon_wf_buffers [OF assms(2)]
    by (intro simulates_le1(2) [of X d evs d' Index_burnt]) (fastforce simp: same_node_def burn_index_def buffers_wf_def)
next
  case (accepted i m ck h sk rk ep pkt)
  let ?a = "Rekeyed (take 92 pkt) src"
  have "node_step X (d_static_priv d) (d_static_pub d) (d_table d) ?a (d_table d')"
    using step_rekey [OF accepted(1-5), of src "it_now it" "it_now' it" ep] accepted(6)
    by (simp add: set_peer_def burn_index_def table_update_commute)
  moreover have "same_node d d'" "buffers_wf d'"
    using accepted(6) daemon_wf_buffers [OF assms(2)] by (auto simp: same_node_def buffers_wf_def set_peer_def burn_index_def)
  moreover have "evs = act_events (d_sock_fd d) (d_tun d) ?a"
    using accepted(7) assms(2) by (cases "it_send_resp it") (auto simp: transport_send_def daemon_wf_def)
  ultimately show ?thesis using simulates_le1(2) [OF simulates_one [OF assms(2)]] by blast
qed

lemma inbound_simulates:
  assumes "x25519_sizes X" "daemon_wf d" "inbound X it d = (d', evs)"
  shows "\<exists>acts. simulates X d evs d' acts \<and> length acts \<le> 1"
proof (cases "\<exists>dg addr l. it_recv it = Inr (dg, addr, l) \<and> dg \<noteq> []")
  case True
  then obtain dg addr l where dg: "it_recv it = Inr (dg, addr, l)" "0 < length dg" by auto
  define d1 where "d1 = d\<lparr>d_net_buf := take 2048 dg @ drop (length dg) (d_net_buf d)\<rparr>"
  let ?src = "\<lparr>ep_addr = addr, ep_addr_len = l\<rparr>"
  have s1: "simulates X d [] d1 []"
    using daemon_wf_buffers [OF assms(2)] by (intro simulates_nil [OF assms(2)]) (auto simp: d1_def same_node_def buffers_wf_def)
  have eq: "(d', evs) = (case packet_peek_type (Some (take 2048 dg)) of
      PACKET_TYPE_HANDSHAKE_INIT \<Rightarrow> on_handshake_init X it (take 2048 dg) ?src d1
    | PACKET_TYPE_DATA \<Rightarrow> on_data it (take 2048 dg) ?src d1
    | PACKET_TYPE_KEEPALIVE \<Rightarrow> on_data it (take 2048 dg) ?src d1 | _ \<Rightarrow> (d1, []))"
    using inbound_datagram [OF assms(2) dg, of X] unfolding assms(3) by (simp add: Let_def flip: d1_def)
  have "\<exists>acts. simulates X d1 evs d' acts \<and> length acts \<le> 1"
    using eq on_handshake_init_simulates [OF assms(1) simulates_wf [OF s1], of it "take 2048 dg" ?src d' evs]
      on_data_simulates [OF simulates_wf [OF s1], of it "take 2048 dg" ?src d' evs X] s1
      simulates_le1(1) [OF simulates_nil [OF simulates_wf [OF s1], of d1 X]] daemon_wf_buffers [OF simulates_wf [OF s1]]
    by (auto simp: same_node_def split: packet_type_t.splits)
  then show ?thesis using simulates_trans [OF s1] by fastforce
next
  case False
  have "d' = d\<lparr>d_net_buf := d_net_buf d\<rparr> \<and> evs = []"
    using False assms(2,3) by (auto simp: inbound_def transport_recv_def daemon_wf_def memcpy_at_def split: sum.splits prod.splits if_splits)
  then show ?thesis using simulates_nil [OF assms(2), of d'] daemon_wf_buffers [OF assms(2)]
    by (intro simulates_le1(1)) (auto simp: same_node_def)
qed

lemma outbound_truncates:
  assumes "it_read it = Inr q"
  shows "outbound it d = outbound (it\<lparr>it_read := Inr (take 2048 q)\<rparr>) d"
proof -
  let ?it = "it\<lparr>it_read := Inr (take 2048 q)\<rparr>"
  have "tun_read (it_read ?it) tun buf VPN_MAX_PACKET_SIZE = tun_read (it_read it) tun buf VPN_MAX_PACKET_SIZE"
    "it_send_data ?it = it_send_data it" for tun buf
    using assms by (cases tun; cases buf; simp add: tun_read_def min_def)+
  then show ?thesis unfolding outbound_def by (simp only:)
qed

lemma outbound_drops:
  assumes "daemon_wf d" "it_read it = Inr p" "length p \<le> 2048"
    and "length p < 20 \<or> (case peer_find_by_dest_ip (Some (d_table d)) (ipv4_at p 16) of None \<Rightarrow> True
      | Some i \<Rightarrow> sess_state (current_session (peers (d_table d) ! i)) \<noteq> SESSION_STATE_ESTABLISHED)"
  shows "\<exists>b. length b = 2048 \<and> outbound it d = (d\<lparr>d_tun_buf := b\<rparr>, [])"
proof -
  have len: "length (d_tun_buf d) = 2048" using assms(1) by (simp add: daemon_wf_def)
  have ip: "ipv4_at (memcpy_at (d_tun_buf d) 0 p) 16 = ipv4_at p 16" if "20 \<le> length p"
    using that by (simp add: memcpy_at_def ipv4_at_prefix)
  have l: "length (memcpy_at (d_tun_buf d) 0 p) = 2048" using len assms(3) by (simp add: length_memcpy_0)
  show ?thesis
  proof (cases "tun_fd (d_tun d) < 0")
    case True
    then show ?thesis using len by (intro exI [of _ "d_tun_buf d"]) (simp add: outbound_def tun_read_def)
  next
    case False
    then show ?thesis using assms(2-4) l ip
      by (intro exI [of _ "memcpy_at (d_tun_buf d) 0 p"])
        (auto simp: outbound_def tun_read_def Let_def split: option.splits)
  qed
qed

lemma dest_ip_Some:
  "peer_find_by_dest_ip (Some t) ip = Some i \<Longrightarrow> i < length (peers t) \<and> peer_allows_source_ip (Some (peers t ! i)) ip"
  by (auto simp: peer_find_by_dest_ip_def dest: first_pos_Some)

lemma outbound_simulates:
  assumes "daemon_wf d" "outbound it d = (d', evs)"
  shows "\<exists>acts. simulates X d evs d' acts \<and> length acts \<le> 1 \<and> filter allots acts = []"
proof (cases "it_read it")
  case (Inl e)
  then have "d' = d\<lparr>d_tun_buf := d_tun_buf d\<rparr> \<and> evs = []"
    using assms(2) by (auto simp: outbound_def tun_read_def split: if_splits)
  then show ?thesis using simulates_nil [OF assms(1), of d'] daemon_wf_buffers [OF assms(1)]
    by (intro exI [of _ "[]"]) (auto simp: same_node_def)
next
  case (Inr q)
  define p where "p = take 2048 q"
  let ?it = "it\<lparr>it_read := Inr p\<rparr>"
  have len: "length p \<le> VPN_MAX_PACKET_SIZE" by (simp add: p_def)
  have out: "outbound ?it d = (d', evs)" using outbound_truncates [OF Inr] assms(2) by (simp add: p_def)
  show ?thesis
  proof (cases "tun_fd (d_tun d) \<ge> 0 \<and> 20 \<le> length p \<and> (\<exists>i. peer_find_by_dest_ip (Some (d_table d)) (ipv4_at p 16) = Some i
      \<and> sess_state (current_session (peers (d_table d) ! i)) = SESSION_STATE_ESTABLISHED)")
    case True
    then obtain i where i: "peer_find_by_dest_ip (Some (d_table d)) (ipv4_at p 16) = Some i"
      "sess_state (current_session (peers (d_table d) ! i)) = SESSION_STATE_ESTABLISHED" by blast
    let ?a = "Sent (peers (d_table d) ! i) p"
    obtain nb cb where ok: "length nb = 2048" "length cb = 2048" "(d', evs) =
        (set_peer (d\<lparr>d_tun_buf := p @ drop (length p) (d_tun_buf d), d_net_buf := nb, d_cipher_buf := cb\<rparr>) i
          (count_up (peers (d_table d) ! i)), act_events (d_sock_fd d) (d_tun d) ?a)"
      using outbound_ok [OF assms(1) _ _ _ _ i, of ?it] True len unfolding out by (simp only: act_events.simps) auto
    have "node_step X (d_static_priv d) (d_static_pub d) (d_table d) ?a (d_table d')"
      using step_send [of i "d_table d" p] dest_ip_Some [OF i(1)] i(2) ok(3) by (simp add: set_peer_def)
    moreover have "same_node d d'" "buffers_wf d'"
      using ok daemon_wf_buffers [OF assms(1)] by (auto simp: same_node_def buffers_wf_def set_peer_def p_def)
    ultimately show ?thesis using simulates_one [OF assms(1), of d' X ?a] ok(3) by (intro exI [of _ "[?a]"]) simp
  next
    case False
    have "\<exists>b. length b = 2048 \<and> (d', evs) = (d\<lparr>d_tun_buf := b\<rparr>, [])"
    proof (cases "tun_fd (d_tun d) < 0")
      case True
      then show ?thesis using out assms(1) by (intro exI [of _ "d_tun_buf d"]) (simp add: outbound_def tun_read_def daemon_wf_def)
    next
      case tun: False
      then show ?thesis using outbound_drops [OF assms(1), of ?it p] False out
        by (auto simp: p_def split: option.splits)
    qed
    then show ?thesis using simulates_nil [OF assms(1), of d'] daemon_wf_buffers [OF assms(1)]
      by (intro exI [of _ "[]"]) (auto simp: same_node_def buffers_wf_def)
  qed
qed

lemma handle_signal_simulates: "daemon_wf d \<Longrightarrow> simulates X d [] (if b then handle_signal d else d) []"
  using daemon_wf_buffers [of d] by (intro simulates_nil) (auto simp: handle_signal_def same_node_def buffers_wf_def)

lemma iterate_once_simulates:
  assumes "x25519_sizes X" "daemon_wf d" "iterate_once X it d = (d', evs, go)"
  shows "\<exists>acts. simulates X d evs d' acts \<and> length (filter allots acts) \<le> 1 \<and> length (concat (map sent_nonce acts)) \<le> 2"
proof -
  define d1 where "d1 = (if it_signal it then handle_signal d else d)"
  have s1: "simulates X d [] d1 []" unfolding d1_def by (rule handle_signal_simulates [OF assms(2)])
  have one: "length (concat (map sent_nonce acts)) \<le> length acts" for acts
  proof (induction acts)
    case (Cons a acts)
    then show ?case by (cases a) simp_all
  qed simp
  show ?thesis
  proof (cases "it_poll it")
    case (Inl e)
    then show ?thesis using s1 assms(3) by (intro exI [of _ "[]"]) (auto simp: iterate_once_def d1_def)
  next
    case (Inr r)
    obtain net tun where r: "r = (net, tun)" by (cases r)
    obtain d2 ev2 where d2: "(if net then inbound X it d1 else (d1, [])) = (d2, ev2)" by (meson surj_pair)
    obtain d3 ev3 where d3: "(if tun_fd (d_tun d2) \<ge> 0 \<and> tun then outbound it d2 else (d2, [])) = (d3, ev3)" by (meson surj_pair)
    have res: "d' = d3" "evs = ev2 @ ev3" using assms(3) Inr r d2 d3 by (simp_all add: iterate_once_def Let_def flip: d1_def)
    note nil = simulates_nil [OF _ _ daemon_wf_buffers]
    obtain acts2 where a2: "simulates X d1 ev2 d2 acts2" "length acts2 \<le> 1"
      using inbound_simulates [OF assms(1) simulates_wf [OF s1], of it d2 ev2] d2 nil [of d1 d1 X] simulates_wf [OF s1]
      by (cases net) (auto simp: same_node_def)
    obtain acts3 where a3: "simulates X d2 ev3 d3 acts3" "length acts3 \<le> 1" "filter allots acts3 = []"
      using outbound_simulates [OF simulates_wf [OF a2(1)], of it d3 ev3 X] d3 nil [of d2 d2 X] simulates_wf [OF a2(1)]
      by (cases "tun_fd (d_tun d2) \<ge> 0 \<and> tun") (auto simp: same_node_def)
    have "simulates X d evs d' (acts2 @ acts3)"
      using simulates_trans [OF s1 simulates_trans [OF a2(1) a3(1)]] res by simp
    moreover have "length (filter allots (acts2 @ acts3)) \<le> 1"
      using a2(2) a3(3) le_trans [OF length_filter_le] by simp
    moreover have "length (concat (map sent_nonce (acts2 @ acts3))) \<le> 2"
      using one [of "acts2 @ acts3"] a2(2) a3(2) by simp
    ultimately show ?thesis by blast
  qed
qed

lemma event_loop_simulates:
  assumes "x25519_sizes X" "daemon_wf d" "event_loop X its d = (d', evs, ended)"
  shows "\<exists>acts. simulates X d evs d' acts \<and> length (filter allots acts) \<le> length its
    \<and> length (concat (map sent_nonce acts)) \<le> 2 * length its"
  using assms(2,3)
proof (induction its arbitrary: d d' evs ended)
  case Nil
  then show ?case using simulates_nil [OF Nil(1) _ daemon_wf_buffers [OF Nil(1)], of X]
    by (intro exI [of _ "[]"]) (auto simp: same_node_def)
next
  case (Cons it its)
  obtain d1 ev1 go where one: "iterate_once X it d = (d1, ev1, go)" by (metis surj_pair)
  obtain acts1 where a1: "simulates X d ev1 d1 acts1" "length (filter allots acts1) \<le> 1" "length (concat (map sent_nonce acts1)) \<le> 2"
    using iterate_once_simulates [OF assms(1) Cons.prems(1) one] by blast
  show ?case
  proof (cases "d_running d \<and> go")
    case True
    obtain d2 ev2 e2 where rest: "event_loop X its d1 = (d2, ev2, e2)" by (metis surj_pair)
    obtain acts2 where a2: "simulates X d1 ev2 d2 acts2" "length (filter allots acts2) \<le> length its"
      "length (concat (map sent_nonce acts2)) \<le> 2 * length its"
      using Cons.IH [OF simulates_wf [OF a1(1)] rest] by blast
    have "d' = d2" "evs = ev1 @ ev2" using Cons.prems(2) True one rest by simp_all
    then show ?thesis using simulates_trans [OF a1(1) a2(1)] a1(2,3) a2(2,3) by (intro exI [of _ "acts1 @ acts2"]) simp
  next
    case False
    then consider "\<not> d_running d" | "d_running d" "\<not> go" by blast
    then show ?thesis
    proof cases
      case 1
      then show ?thesis using Cons.prems simulates_nil [OF Cons.prems(1) _ daemon_wf_buffers [OF Cons.prems(1)], of X]
        by (intro exI [of _ "[]"]) (auto simp: same_node_def)
    next
      case 2
      then show ?thesis using Cons.prems(2) one a1 by (intro exI [of _ acts1]) simp
    qed
  qed
qed

section \<open>Index lookup\<close>

lemma find_session_unique:
  assumes "i < length ps" "session_answers ri (slot_session slot (ps ! i))"
    and "\<And>j slot'. j < length ps \<Longrightarrow> session_answers ri (slot_session slot' (ps ! j)) \<Longrightarrow> j = i \<and> slot' = slot"
  shows "find_session ri ps = Some (i, slot)"
proof (cases "find_session ri ps")
  case None
  then show ?thesis using assms(1,2) nth_mem [OF assms(1)] unfolding find_session_None by (cases slot) auto
next
  case (Some r)
  then show ?thesis using assms(3) find_session_Some [of ri ps "fst r" "snd r"] by (cases r) auto
qed

lemma index_lookup:
  assumes "index_inv t"
  shows "peer_find_by_index (Some t) ri = Some (i, slot) \<longleftrightarrow>
    ri \<noteq> 0 \<and> i < length (peers t) \<and> session_answers ri (slot_session slot (peers t ! i))"
proof
  assume "peer_find_by_index (Some t) ri = Some (i, slot)"
  then show "ri \<noteq> 0 \<and> i < length (peers t) \<and> session_answers ri (slot_session slot (peers t ! i))"
    by (auto simp: peer_find_by_index_def dest: find_session_Some split: if_splits)
next
  assume a: "ri \<noteq> 0 \<and> i < length (peers t) \<and> session_answers ri (slot_session slot (peers t ! i))"
  have "find_session ri (peers t) = Some (i, slot)"
  proof (rule find_session_unique)
    fix j slot' assume "j < length (peers t)" "session_answers ri (slot_session slot' (peers t ! j))"
    then show "j = i \<and> slot' = slot"
      using index_invD(2) [OF assms, of j slot' _ i slot] a by (simp add: live_def session_answers_def)
  qed (use a in auto)
  then show "peer_find_by_index (Some t) ri = Some (i, slot)" using a by (simp add: peer_find_by_index_def)
qed

section \<open>A daemon for the witnesses\<close>

definition daemon_of :: "vpn_peer_table_t \<Rightarrow> daemon" where
  "daemon_of t = \<lparr>d_static_pub = replicate 32 2, d_static_priv = replicate 32 2, d_table = t, d_sock_fd = 3,
     d_tun = \<lparr>tun_fd = 4, tun_name = ''vpn0'', tun_mtu = 1440\<rparr>, d_net_buf = zeros VPN_MAX_PACKET_SIZE,
     d_tun_buf = zeros VPN_MAX_PACKET_SIZE, d_plain_buf = zeros VPN_MAX_PACKET_SIZE,
     d_cipher_buf = zeros VPN_MAX_PACKET_SIZE, d_running = True\<rparr>"

definition iteration_of :: "bytes \<Rightarrow> bytes \<Rightarrow> iteration" where
  "iteration_of datagram packet = \<lparr>it_poll = Inr (True, True), it_recv = Inr (datagram, Sockaddr_in 51820 1, 16),
     it_send_resp = Inr 92, it_write = Inr 20, it_read = Inr packet, it_send_data = Inl EAGAIN,
     it_rnd = replicate 32 7, it_now = 1000, it_now' = 1000, it_signal = False\<rparr>"

lemma daemon_of_wf: "table_wf t \<Longrightarrow> daemon_wf (daemon_of t)"
  by (simp add: daemon_wf_def daemon_of_def tun_wf_def)

text \<open>A table with one peer, whose session has the given indices and keys.\<close>

definition tunnel_table :: "u32 \<Rightarrow> u32 \<Rightarrow> bytes \<Rightarrow> bytes \<Rightarrow> vpn_peer_table_t" where
  "tunnel_table li ri sk rk = \<lparr>peers = [peer_zero\<lparr>public_key := replicate 32 1,
     allowed_ips := [\<lparr>network = 0, cidr_mask = 0, prefix_len = 0\<rparr>],
     current_session := session_zero\<lparr>local_index := li, peer_index := ri, sess_state := SESSION_STATE_ESTABLISHED,
       send_key := sk, recv_key := rk\<rparr>\<rparr>], next_local_index = 9\<rparr>"

lemma tunnel_table_wf: "length sk = 32 \<Longrightarrow> length rk = 32 \<Longrightarrow> table_wf (tunnel_table li ri sk rk)"
  by (simp add: tunnel_table_def table_wf_def peer_wf_def peer_zero_def cidr_wf_def prefix_mask_def session_wf_def session_zero_def)

lemma tunnel_table_simps:
  "ri' = li \<Longrightarrow> li \<noteq> 0 \<Longrightarrow> peer_find_by_index (Some (tunnel_table li ri sk rk)) ri' = Some (0, Current)"
  "peer_find_by_dest_ip (Some (tunnel_table li ri sk rk)) ip = Some 0"
  "peer_allows_source_ip (Some (peers (tunnel_table li ri sk rk) ! 0)) ip"
  by (simp_all add: tunnel_table_def peer_find_by_index_def session_answers_def peer_find_by_dest_ip_def
      peer_allows_source_ip_def vpn_cidr_match_def)

lemma sample_run:
  "no_sessions (d_table (daemon_of sample_table))"
  "unat (next_local_index (d_table (daemon_of sample_table))) + length [it] < 2 ^ 32"
  by (simp_all add: no_sessions_def daemon_of_def sample_table_def peer_zero_def session_zero_def)

section \<open>Deliveries\<close>

lemma transport_send_no_write: "Ev_write fd p \<notin> set (snd (transport_send r sock dest buf len))"
  by (auto simp: transport_send_def split: option.splits sum.splits)

lemma on_handshake_init_no_write: "Ev_write fd p \<notin> set (snd (on_handshake_init X it packet src d))"
  using transport_send_no_write by (auto simp: on_handshake_init_def Let_def split: sum.splits)

lemma outbound_no_write: "Ev_write fd p \<notin> set (snd (outbound it d))"
  using transport_send_no_write by (auto simp: outbound_def Let_def split: sum.splits prod.splits option.splits)

lemma on_data_write:
  assumes "daemon_wf d" "Ev_write fd p \<in> set (snd (on_data it packet src d))"
  shows "\<exists>pd i slot. packet_parse_data (Some packet) = Inr pd \<and> data_session d pd i slot
    \<and> replay_check (Some (replay_filter (slot_session slot (peers (d_table d) ! i)))) (pd_counter pd)
    \<and> vpn_seal (recv_key (slot_session slot (peers (d_table d) ! i))) (pd_counter pd) [] p = (pd_bytes pd, pd_auth_tag pd)
    \<and> 20 \<le> length p \<and> peer_allows_source_ip (Some (peers (d_table d) ! i)) (ipv4_at p 12) \<and> fd = nat (tun_fd (d_tun d))"
proof -
  obtain d' evs where e: "on_data it packet src d = (d', evs)" by (meson surj_pair)
  from assms(1) e show ?thesis
  proof (cases rule: on_data_cases)
    case (dropped buf)
    then show ?thesis using assms(2) e by simp
  next
    case (accepted pd i slot q)
    have "take (length q) (memcpy_at (d_plain_buf d) 0 q) = q" using accepted(5) assms(1) by (simp add: daemon_wf_def memcpy_at_def)
    then have "p = q \<and> fd = nat (tun_fd (d_tun d)) \<and> 20 \<le> length q
        \<and> peer_allows_source_ip (Some (peers (d_table d) ! i)) (ipv4_at q 12)"
      using on_data_ok [OF assms(1) accepted, of it src] assms(2)
      by (auto simp: tun_write_def split: if_splits sum.splits)
    then show ?thesis using accepted(1-4) by blast
  qed
qed

lemma inbound_write:
  assumes "daemon_wf d" "Ev_write fd p \<in> set (snd (inbound X it d))"
  shows "\<exists>dg addr l. it_recv it = Inr (dg, addr, l) \<and> Ev_write fd p \<in> set (snd (on_data it (take 2048 dg)
    \<lparr>ep_addr = addr, ep_addr_len = l\<rparr> (d\<lparr>d_net_buf := take 2048 dg @ drop (length dg) (d_net_buf d)\<rparr>)))"
proof (cases "\<exists>dg addr l. it_recv it = Inr (dg, addr, l) \<and> 0 < length dg")
  case True
  then obtain dg addr l where dg: "it_recv it = Inr (dg, addr, l)" "0 < length dg" by blast
  then show ?thesis using assms(2) on_handshake_init_no_write unfolding inbound_datagram [OF assms(1) dg] Let_def
    by (cases "packet_peek_type (Some (take 2048 dg))") auto
next
  case False
  then show ?thesis using assms by (auto simp: inbound_def transport_recv_def split: sum.splits prod.splits if_splits)
qed

section \<open>From one daemon to the other\<close>

lemma data_wf_data_packet: "20 \<le> length p \<Longrightarrow> length p \<le> 1440 \<Longrightarrow> data_wf (data_packet s p)"
  using small_limit [of "length p"] by (auto simp: data_wf_def data_packet_def vpn_seal_eq)

lemma peek_data_wire: "20 \<le> length p \<Longrightarrow> packet_peek_type (Some (data_wire (data_packet s p))) = PACKET_TYPE_DATA"
  by (auto simp: packet_peek_type_def data_wire_def data_packet_def)

text \<open>The state in which a received datagram is handled.\<close>

definition received :: "bytes \<Rightarrow> daemon \<Rightarrow> daemon" where
  "received dg d = d\<lparr>d_net_buf := take VPN_MAX_PACKET_SIZE dg @ drop (length dg) (d_net_buf d)\<rparr>"

lemma received_simps [simp]:
  "d_table (received dg d) = d_table d" "d_tun (received dg d) = d_tun d" "d_plain_buf (received dg d) = d_plain_buf d"
  "daemon_wf d \<Longrightarrow> daemon_wf (received dg d)"
  by (auto simp: received_def daemon_wf_def)

lemma inbound_data_wire:
  assumes "daemon_wf d" "it_recv it = Inr (data_wire (data_packet s p), addr, l)" "20 \<le> length p" "length p \<le> 1440"
  shows "inbound X it d = on_data it (data_wire (data_packet s p)) \<lparr>ep_addr = addr, ep_addr_len = l\<rparr> (received (data_wire (data_packet s p)) d)"
proof -
  have len: "length (data_wire (data_packet s p)) = 32 + length p" using length_data_wire small_limit assms(4) by simp
  have "take 2048 (data_wire (data_packet s p)) = data_wire (data_packet s p)" using len assms(4) by simp
  then show ?thesis using inbound_datagram [OF assms(1,2), of X] len peek_data_wire [OF assms(3), of s]
    by (simp add: Let_def received_def)
qed

lemma inbound_delivers:
  assumes "daemon_wf d" "it_recv it = Inr (data_wire (data_packet s p), addr, l)" "20 \<le> length p" "length p \<le> 1440"
    and "peer_find_by_index (Some (d_table d)) (peer_index s) = Some (j, slot)"
    and "recv_key (slot_session slot (peers (d_table d) ! j)) = send_key s"
    and "replay_check (Some (replay_filter (slot_session slot (peers (d_table d) ! j)))) (sending_counter s)"
  shows "\<exists>b b'. length b = VPN_MAX_PACKET_SIZE \<and> length b' = VPN_MAX_PACKET_SIZE \<and> inbound X it d =
    (set_peer (d\<lparr>d_net_buf := b, d_plain_buf := b'\<rparr>) j (accept_packet slot (sending_counter s) \<lparr>ep_addr = addr, ep_addr_len = l\<rparr>
       (peers (d_table d) ! j)),
     act_events (d_sock_fd d) (d_tun d) (Accepted (peers (d_table d) ! j) (slot_session slot (peers (d_table d) ! j)) (data_packet s p) p))"
proof -
  let ?w = "data_wire (data_packet s p)"
  have wf: "daemon_wf (received ?w d)" using assms(1) by simp
  have lim: "length p \<le> aead_limit" using assms(4) by (intro small_limit) simp
  have sess: "data_session (received ?w d) (data_packet s p) j slot" using assms(5) by (intro data_sessionI) (simp add: data_packet_def)
  have seal: "vpn_seal (recv_key (slot_session slot (peers (d_table (received ?w d)) ! j))) (pd_counter (data_packet s p)) [] p
      = (pd_bytes (data_packet s p), pd_auth_tag (data_packet s p))"
    using assms(6) by (simp add: data_packet_def pd_bytes_def)
  have fresh: "replay_check (Some (replay_filter (slot_session slot (peers (d_table (received ?w d)) ! j)))) (pd_counter (data_packet s p))"
    using assms(7) by (simp add: data_packet_def)
  have plain: "take (length p) (memcpy_at (d_plain_buf d) 0 p) = p" "length (memcpy_at (d_plain_buf d) 0 p) = 2048"
    using assms(1,4) by (simp_all add: daemon_wf_def memcpy_at_def)
  have net: "length (d_net_buf (received ?w d)) = 2048" using wf by (simp add: daemon_wf_def)
  have "tun_wf (d_tun d)" using assms(1) by (simp add: daemon_wf_def)
  note mtu = mtu_word [OF this]
  have "inbound X it d = (set_peer (d\<lparr>d_net_buf := d_net_buf (received ?w d), d_plain_buf := memcpy_at (d_plain_buf d) 0 p\<rparr>) j
      (accept_packet slot (sending_counter s) \<lparr>ep_addr = addr, ep_addr_len = l\<rparr> (peers (d_table d) ! j)),
      act_events (d_sock_fd d) (d_tun d) (Accepted (peers (d_table d) ! j) (slot_session slot (peers (d_table d) ! j)) (data_packet s p) p))"
    unfolding inbound_data_wire [OF assms(1-4)]
      on_data_ok [OF wf parse_data_wire [OF data_wf_data_packet [OF assms(3,4)]] sess fresh seal assms(4)]
    using assms(3) plain(1) mtu by (cases "it_write it") (auto simp: tun_write_def received_def data_packet_def)
  then show ?thesis using net plain(2) unfolding VPN_MAX_PACKET_SIZE_def by blast
qed

lemma find_session_cong:
  assumes "length ps = length qs" "\<And>k slot. k < length ps \<Longrightarrow> session_answers ri (slot_session slot (ps ! k)) = session_answers ri (slot_session slot (qs ! k))"
  shows "find_session ri ps = find_session ri qs"
  using assms
proof (induction ps qs rule: list_induct2)
  case (Cons p ps q qs)
  have "find_session ri ps = find_session ri qs" using Cons.prems [of "Suc _"] by (intro Cons.IH) simp
  then show ?case using Cons.prems [of 0 Current] Cons.prems [of 0 Previous] by simp
qed simp

lemma find_by_index_accept:
  "j < length (peers t) \<Longrightarrow>
   peer_find_by_index (Some (t\<lparr>peers := (peers t)[j := accept_packet slot c src (peers t ! j)]\<rparr>)) ri = peer_find_by_index (Some t) ri"
  unfolding peer_find_by_index_def
  by (simp, intro impI find_session_cong) (auto simp: nth_list_update slot_session_accept session_answers_def)

text \<open>A datagram that was delivered once is dropped when it comes again.\<close>

lemma inbound_replay:
  assumes "daemon_wf d" "it_recv it = Inr (data_wire (data_packet s p), addr, l)" "20 \<le> length p" "length p \<le> 1440"
    and "peer_find_by_index (Some (d_table d)) (peer_index s) = Some (j, slot)"
    and "\<not> replay_check (Some (replay_filter (slot_session slot (peers (d_table d) ! j)))) (sending_counter s)"
  shows "snd (inbound X it d) = []"
  unfolding inbound_data_wire [OF assms(1-4)] on_data_def parse_data_wire [OF data_wf_data_packet [OF assms(3,4)]]
  using assms(5,6) by (simp add: data_packet_def Let_def)

lemma inbound_once:
  assumes "daemon_wf b" "it_recv it = Inr (data_wire (data_packet s p), addr, l)" "it_recv it' = Inr (data_wire (data_packet s p), addr', l')"
    and "20 \<le> length p" "length p \<le> 1440" "peer_find_by_index (Some (d_table b)) (peer_index s) = Some (j, slot)"
    and "r = slot_session slot (peers (d_table b) ! j)" "recv_key r = send_key s" "replay_rel (replay_filter r) H"
    and "replay_check (Some (replay_filter r)) (sending_counter s)" "inbound X it b = (b', evs)"
  shows "evs = act_events (d_sock_fd b) (d_tun b) (Accepted (peers (d_table b) ! j) r (data_packet s p) p)" (is ?delivered)
    and "snd (inbound X it' b') = []" (is ?dropped)
proof -
  let ?peer = "peers (d_table b) ! j" and ?q = "accept_packet slot (sending_counter s) \<lparr>ep_addr = addr, ep_addr_len = l\<rparr> (peers (d_table b) ! j)"
  have j: "j < length (peers (d_table b))"
    using assms(6) by (auto simp: peer_find_by_index_def dest: find_session_Some split: if_splits)
  obtain nb pb where len: "length nb = 2048" "length pb = 2048" and ok: ?delivered
    and b': "b' = set_peer (b\<lparr>d_net_buf := nb, d_plain_buf := pb\<rparr>) j ?q"
    using inbound_delivers [OF assms(1,2,4,5,6), of X] assms(7,8,10,11) by auto
  have tab: "d_table b' = (d_table b)\<lparr>peers := (peers (d_table b))[j := ?q]\<rparr>" by (simp add: b' set_peer_def)
  have t: "table_wf (d_table b)" using assms(1) by (simp add: daemon_wf_def)
  have wf: "daemon_wf b'"
    using assms(1) len table_step_wf(1) [OF t j peer_step_wf(2) [OF table_wf_nth [OF t j]]] by (simp add: daemon_wf_def b' set_peer_def)
  have "\<not> replay_check_body (replay_update_body (replay_filter r) (sending_counter s)) (sending_counter s)"
    using rw.check_fresh [OF rw.marked_update [OF assms(9)]] by blast
  then have "\<not> replay_check (Some (replay_filter (slot_session slot (peers (d_table b') ! j)))) (sending_counter s)"
    using j assms(7) by (simp add: tab slot_session_accept replay_check_def)
  moreover have "peer_find_by_index (Some (d_table b')) (peer_index s) = Some (j, slot)"
    using assms(6) find_by_index_accept [OF j] by (simp add: tab)
  ultimately show ?dropped by (intro inbound_replay [OF wf assms(3-5)])
  show ?delivered by (rule ok)
qed

lemma sample_delivery:
  "\<exists>it d' evs. iterate_once X it (daemon_of (tunnel_table 5 6 (replicate 32 9) (replicate 32 8))) = (d', evs, True)
     \<and> Ev_write 4 (replicate 20 0) \<in> set evs"
proof -
  let ?b = "daemon_of (tunnel_table 5 6 (replicate 32 9) (replicate 32 8))"
  define s where "s = session_zero\<lparr>peer_index := 5, send_key := replicate 32 8\<rparr>"
  define it where "it = iteration_of (data_wire (data_packet s (replicate 20 0))) []"
  have "daemon_wf ?b" by (intro daemon_of_wf tunnel_table_wf) simp_all
  moreover have "it_recv it = Inr (data_wire (data_packet s (replicate 20 0)), Sockaddr_in 51820 1, 16)" by (simp add: it_def iteration_of_def)
  moreover have "replay_check (Some replay_filter_zero) 0" by (simp add: replay_check_def replay_check_body_def replay_filter_zero_def)
  ultimately have "\<exists>b b'. inbound X it ?b = (set_peer (?b\<lparr>d_net_buf := b, d_plain_buf := b'\<rparr>) 0
      (accept_packet Current 0 \<lparr>ep_addr = Sockaddr_in 51820 1, ep_addr_len = 16\<rparr> (peers (d_table ?b) ! 0)), [Ev_write 4 (replicate 20 0)])"
    using inbound_delivers [of ?b it s "replicate 20 0" "Sockaddr_in 51820 1" 16 0 Current X] tunnel_table_simps
    by (auto simp: daemon_of_def s_def tunnel_table_def session_zero_def)
  then obtain b' where i: "inbound X it ?b = (b', [Ev_write 4 (replicate 20 0)])" by auto
  obtain d' evs where "(if tun_fd (d_tun b') \<ge> 0 \<and> True then outbound it b' else (b', [])) = (d', evs)" by (meson surj_pair)
  moreover have "it_poll it = Inr (True, True)" "\<not> it_signal it" by (simp_all add: it_def iteration_of_def)
  ultimately have "iterate_once X it ?b = (d', [Ev_write 4 (replicate 20 0)] @ evs, True)"
    using i by (simp add: iterate_once_def split: if_splits)
  then show ?thesis by fastforce
qed

section \<open>Start-up, termination and shutdown\<close>

lemma startup_Some:
  assumes "startup X os os' rc rnd = (Some d, evs)"
  obtains sock e1 tun_rc e2 where "transport_open os None VPN_DEFAULT_PORT = (Inr sock, e1)"
    "tun_open os' (Some \<lparr>tun_fd = -1, tun_name = [], tun_mtu = 0\<rparr>) (Some VPN_DEFAULT_TUN_NAME) 1440 = (tun_rc, Some (d_tun d), e2)"
    "d_sock_fd d = int sock" "peers (d_table d) = []" "d_static_pub d = x_mult_base X (take 32 rnd)" "buffers_wf d" "tun_wf (d_tun d)"
    "evs = e1 @ e2 @ (case tun_rc of Inl _ \<Rightarrow> [] | Inr _ \<Rightarrow>
       snd (tun_set_ip os' (Some (d_tun d)) (Some ''10.0.0.1'') (Some ''255.255.255.0'')) @ snd (tun_set_up os' (Some (d_tun d))))"
    "tun_rc = Inr () \<longleftrightarrow> tun_fd (d_tun d) \<ge> 0" "d_running d"
proof -
  obtain tun_rc tun e2 where t: "tun_open os' (Some \<lparr>tun_fd = -1, tun_name = [], tun_mtu = 0\<rparr>) (Some VPN_DEFAULT_TUN_NAME) 1440 = (tun_rc, tun, e2)"
    by (metis surj_pair)
  have "\<not> (1440 < int VPN_MIN_IPV4_MTU \<or> 1440 > int VPN_MAX_PACKET_SIZE)" by simp
  then have "tun \<noteq> Some \<lparr>tun_fd = -1, tun_name = [], tun_mtu = 0\<rparr>" using t by (auto simp: tun_open_def Let_def split: sum.splits)
  then obtain dev where dev: "tun = Some dev" "tun_wf dev" "tun_rc = Inr () \<longleftrightarrow> tun_fd dev \<ge> 0" using tun_open_result [OF t] by auto
  obtain r e1 where o: "transport_open os None VPN_DEFAULT_PORT = (r, e1)" by (metis surj_pair)
  obtain sock where sock: "r = Inr sock" using assms o by (auto simp: startup_def Let_def split: sum.splits prod.splits)
  have rc: "vpn_crypto_init rc = Inr ()" using assms by (auto simp: startup_def split: sum.splits)
  note st = assms [unfolded startup_def rc sum.case keypair_eq Let_def prod.case o sock, simplified, unfolded t dev(1), simplified]
  show ?thesis
    by (rule that [OF o [unfolded sock], of tun_rc e2]) (use st t dev in \<open>auto simp: peer_table_init_def buffers_wf_def split: sum.split\<close>)
qed

lemma startup_wf: "x25519_sizes X \<Longrightarrow> startup X os os' rc rnd = (Some d, evs) \<Longrightarrow> daemon_wf d \<and> peers (d_table d) = []"
  by (erule startup_Some) (auto simp: daemon_wf_def buffers_wf_def length_base table_wf_def)

lemma startup_None:
  "startup X os os' rc rnd = (None, evs) \<Longrightarrow> evs = [] \<or> (\<exists>e. transport_open os None VPN_DEFAULT_PORT = (Inl e, evs))"
  by (auto simp: startup_def Let_def split: sum.splits prod.splits)

lemma act_events_fds: "fds_after (act_events sock tun a) S = S"
  by (cases a) simp_all

lemma simulates_fds: "simulates X d evs d' acts \<Longrightarrow> fds_after evs S = S"
proof -
  have "fds_after (concat (map (act_events sock tun) acts)) S = S" for sock tun
    by (induction acts) (simp_all add: act_events_fds)
  then show "simulates X d evs d' acts \<Longrightarrow> fds_after evs S = S" by (simp add: simulates_def)
qed

lemma running_kept:
  "d_running (fst (on_handshake_init X it packet src d)) = d_running d"
  "d_running (fst (on_data it packet src d)) = d_running d"
  by (auto simp: on_handshake_init_def on_data_def Let_def set_peer_def split: sum.splits option.splits prod.splits)

lemma running_halves: "d_running (fst (inbound X it d)) = d_running d" "d_running (fst (outbound it d)) = d_running d"
  by (auto simp: inbound_def outbound_def Let_def set_peer_def running_kept
      split: sum.splits option.splits prod.splits packet_type_t.splits)

lemma iterate_once_running: "d_running (fst (iterate_once X it d)) = (d_running d \<and> \<not> it_signal it)"
proof (cases "it_poll it")
  case (Inl e)
  then show ?thesis by (simp add: iterate_once_def handle_signal_def)
next
  case (Inr r)
  obtain net tun where r: "r = (net, tun)" by (cases r)
  define d1 where "d1 = (if it_signal it then handle_signal d else d)"
  obtain d2 ev2 where d2: "(if net then inbound X it d1 else (d1, [])) = (d2, ev2)" by (meson surj_pair)
  obtain d3 ev3 where d3: "(if tun_fd (d_tun d2) \<ge> 0 \<and> tun then outbound it d2 else (d2, [])) = (d3, ev3)" by (meson surj_pair)
  have "iterate_once X it d = (d3, ev2 @ ev3, True)" using Inr r d2 d3 by (simp add: iterate_once_def Let_def flip: d1_def)
  moreover have "d_running d3 = d_running d2" using d3 running_halves(2) [of it d2] by (auto split: if_splits)
  moreover have "d_running d2 = d_running d1" using d2 running_halves(1) [of X it d1] by (auto split: if_splits)
  ultimately show ?thesis by (simp add: d1_def handle_signal_def)
qed

lemma event_loop_stops:
  "\<not> d_running d \<or> (\<exists>it \<in> set its. it_signal it) \<Longrightarrow> snd (snd (event_loop X its d))"
proof (induction its arbitrary: d)
  case (Cons it its)
  show ?case
  proof (cases "d_running d")
    case True
    obtain d1 e1 go where one: "iterate_once X it d = (d1, e1, go)" by (metis surj_pair)
    then have "d_running d1 = (\<not> it_signal it)" using iterate_once_running [of X it d] True by simp
    then have "snd (snd (event_loop X its d1))" using Cons True by (intro Cons.IH) auto
    then show ?thesis using True one by (auto split: prod.splits bool.splits)
  qed simp
qed simp

lemma startup_fds:
  assumes "startup X os os' rc rnd = (Some d, evs)" "socket_fresh S (os, None, VPN_DEFAULT_PORT)"
    and "\<And>v6 nb sock. os_socket os v6 nb = Inr sock \<Longrightarrow> tun_fresh (insert sock S) (os', Some VPN_DEFAULT_TUN_NAME, 1440)"
  shows "fds_after (evs @ snd (shutdown d)) S = S"
  using assms(1)
proof (rule startup_Some)
  fix sock e1 tun_rc e2
  assume o: "transport_open os None VPN_DEFAULT_PORT = (Inr sock, e1)"
    and t: "tun_open os' (Some \<lparr>tun_fd = -1, tun_name = [], tun_mtu = 0\<rparr>) (Some VPN_DEFAULT_TUN_NAME) 1440 = (tun_rc, Some (d_tun d), e2)"
    and sock: "d_sock_fd d = int sock"
    and evs: "evs = e1 @ e2 @ (case tun_rc of Inl _ \<Rightarrow> [] | Inr _ \<Rightarrow>
       snd (tun_set_ip os' (Some (d_tun d)) (Some ''10.0.0.1'') (Some ''255.255.255.0'')) @ snd (tun_set_up os' (Some (d_tun d))))"
    and fd: "tun_rc = Inr () \<longleftrightarrow> tun_fd (d_tun d) \<ge> 0"
  have s: "fds_after e1 S = insert sock S" "sock \<notin> S" using udp.acquire_ok [OF assms(2)] o by auto
  obtain v6 nb where "os_socket os v6 nb = Inr sock"
    using o by (auto simp: transport_open_def open_socket_def Let_def split: sum.splits prod.splits if_splits)
  note fresh = assms(3) [OF this]
  have close: "snd (shutdown d) = [Ev_close sock] @ snd (tun_close (Some (d_tun d)))"
    using sock by (simp add: shutdown_def transport_close_def split: prod.split)
  show ?thesis
  proof (cases tun_rc)
    case (Inl e)
    then have "tun_acquire (os', Some VPN_DEFAULT_TUN_NAME, 1440) = (Inl e, e2)" using t by (simp add: tun_acquire_def)
    then show ?thesis using tun.acquire_fails [OF fresh] Inl fd s evs by (simp add: close tun_close_def)
  next
    case (Inr u)
    then have acq: "tun_acquire (os', Some VPN_DEFAULT_TUN_NAME, 1440) = (Inr (d_tun d), e2)" using t by (simp add: tun_acquire_def)
    have "os_open_tun os' = Inr (nat (tun_fd (d_tun d)))" by (rule tun_acquire_Inr [OF acq]) simp
    then have "c \<notin> insert (nat (tun_fd (d_tun d))) (insert sock S)" if "os_socket os' False False = Inr c" for c
      using fresh that by (auto simp: tun_fresh_def)
    note ctl = control_socket_closed [OF this]
    show ?thesis using tun.acquire_ok [OF fresh acq] tun.release_closes [OF acq] ctl s evs Inr by (auto simp: close)
  qed
qed

section \<open>Properties\<close>

text \<open>
  C3: the event loop refines the node. Whatever datagrams, packets, errors and signals its iterations
  bring, the daemon stays well-formed, its peers keep their names, keys and allowed addresses, the
  changes of the peer table are a run of node steps, and the daemon sends and writes exactly what these
  steps show.
\<close>

theorem event_loop_refines_node:
  assumes "x25519_sizes X" "daemon_wf d" "event_loop X its d = (d', evs, ended)"
  shows "daemon_wf d' \<and> map identity (peers (d_table d')) = map identity (peers (d_table d))
    \<and> (\<exists>acts. node_run X (d_static_priv d) (d_static_pub d) (d_table d) acts (d_table d')
          \<and> evs = concat (map (act_events (d_sock_fd d) (d_tun d)) acts))"
proof -
  obtain acts where a: "simulates X d evs d' acts" using event_loop_simulates [OF assms] by blast
  moreover have "table_wf (d_table d)" using assms(2) by (simp add: daemon_wf_def)
  ultimately show ?thesis using node_run_wf by (auto simp: simulates_def)
qed

theorem event_loop_refines_node_witness:
  "\<exists>d' evs ended acts. event_loop x25519_sum [iteration_of [4, 0, 0] (replicate 20 0)] (daemon_of sample_table) = (d', evs, ended)
     \<and> daemon_wf d' \<and> node_run x25519_sum (replicate 32 2) (replicate 32 2) sample_table acts (d_table d')"
proof -
  obtain d' evs ended where e: "event_loop x25519_sum [iteration_of [4, 0, 0] (replicate 20 0)] (daemon_of sample_table) = (d', evs, ended)"
    by (metis surj_pair)
  from event_loop_refines_node [OF x25519_sum_sizes daemon_of_wf [OF sample_table_wf] e] e show ?thesis
    by (auto simp: daemon_of_def)
qed

text \<open>
  C4: no replay and no nonce reuse. From a table without sessions on, and until the 32-bit session
  indices are used up, no run of the event loop accepts a counter twice in a session, in whatever order
  packets arrive, are repeated, and handshakes replace sessions; and it never seals two packets of a
  session with the same nonce.
\<close>

theorem event_loop_counters_once:
  assumes "x25519_sizes X" "daemon_wf d" "no_sessions (d_table d)" "event_loop X its d = (d', evs, ended)"
    and "unat (next_local_index (d_table d)) + length its < 2 ^ 32"
  shows "\<exists>acts. node_run X (d_static_priv d) (d_static_pub d) (d_table d) acts (d_table d')
    \<and> evs = concat (map (act_events (d_sock_fd d) (d_tun d)) acts)
    \<and> distinct (concat (map accepted_counter acts)) \<and> distinct (concat (map sent_nonce acts))"
proof -
  obtain acts where a: "simulates X d evs d' acts" "length (filter allots acts) \<le> length its"
    "length (concat (map sent_nonce acts)) \<le> 2 * length its"
    using event_loop_simulates [OF assms(1,2,4)] by blast
  have run: "node_run X (d_static_priv d) (d_static_pub d) (d_table d) acts (d_table d')"
    "evs = concat (map (act_events (d_sock_fd d) (d_tun d)) acts)" using a(1) by (simp_all add: simulates_def)
  have "unat (next_local_index (d_table d)) + length (filter allots acts) < 2 ^ 32" "length (concat (map sent_nonce acts)) < 2 ^ 64"
    using a(2,3) assms(5) by simp_all
  then show ?thesis using node_run_inv [OF run(1) assms(3)] run by (auto simp: accept_inv_def send_inv_def)
qed

theorem event_loop_counters_once_witness:
  "no_sessions sample_table \<and> (\<exists>d' evs ended acts.
     event_loop x25519_sum [iteration_of [4, 0, 0] (replicate 20 0)] (daemon_of sample_table) = (d', evs, ended)
     \<and> distinct (concat (map accepted_counter acts)) \<and> distinct (concat (map sent_nonce acts))
     \<and> node_run x25519_sum (replicate 32 2) (replicate 32 2) sample_table acts (d_table d'))"
proof -
  obtain d' evs ended where e: "event_loop x25519_sum [iteration_of [4, 0, 0] (replicate 20 0)] (daemon_of sample_table) = (d', evs, ended)"
    by (metis surj_pair)
  from event_loop_counters_once [OF x25519_sum_sizes daemon_of_wf [OF sample_table_wf] sample_run(1) e sample_run(2)] e sample_run(1) show ?thesis
    by (auto simp: daemon_of_def)
qed

text \<open>
  C9: in every state that such a run reaches, the receiver index of a packet leads to the one session
  that has it, current or previous, of whichever peer; the lookup that stops at the first match
  therefore never confuses two sessions.
\<close>

theorem event_loop_index_lookup:
  assumes "x25519_sizes X" "daemon_wf d" "no_sessions (d_table d)" "event_loop X its d = (d', evs, ended)"
    and "unat (next_local_index (d_table d)) + length its < 2 ^ 32"
  shows "peer_find_by_index (Some (d_table d')) ri = Some (i, slot) \<longleftrightarrow>
    ri \<noteq> 0 \<and> i < length (peers (d_table d')) \<and> session_answers ri (slot_session slot (peers (d_table d') ! i))"
proof -
  obtain acts where a: "simulates X d evs d' acts" "length (filter allots acts) \<le> length its"
    using event_loop_simulates [OF assms(1,2,4)] by blast
  then have "node_run X (d_static_priv d) (d_static_pub d) (d_table d) acts (d_table d')"
    "unat (next_local_index (d_table d)) + length (filter allots acts) < 2 ^ 32" using assms(5) by (simp_all add: simulates_def)
  then show ?thesis using index_lookup node_run_inv [OF _ assms(3)] by blast
qed

theorem event_loop_index_lookup_witness:
  "no_sessions sample_table \<and> (\<exists>d' evs ended.
     event_loop x25519_sum [iteration_of [4, 0, 0] (replicate 20 0)] (daemon_of sample_table) = (d', evs, ended)
     \<and> (\<forall>ri i slot. peer_find_by_index (Some (d_table d')) ri = Some (i, slot) \<longleftrightarrow>
          ri \<noteq> 0 \<and> i < length (peers (d_table d')) \<and> session_answers ri (slot_session slot (peers (d_table d') ! i))))"
proof -
  obtain d' evs ended where e: "event_loop x25519_sum [iteration_of [4, 0, 0] (replicate 20 0)] (daemon_of sample_table) = (d', evs, ended)"
    by (metis surj_pair)
  from event_loop_index_lookup [OF x25519_sum_sizes daemon_of_wf [OF sample_table_wf] sample_run(1) e sample_run(2)] e sample_run(1) show ?thesis
    by (auto simp: daemon_of_def)
qed

text \<open>
  C2: nothing reaches the TUN device unless it is authentic, fresh and routed. If an iteration writes a
  packet, then it received a datagram that parses as a data packet for an established session, whose
  counter the session had not seen, that is the sealing of the packet under the session's key, and the
  packet's source address is among those allowed for the session's peer.
\<close>

theorem tun_writes_authentic:
  assumes "daemon_wf d" "iterate_once X it d = (d', evs, go)" "Ev_write fd p \<in> set evs"
  shows "\<exists>dg addr l pd i slot. it_recv it = Inr (dg, addr, l)
    \<and> packet_parse_data (Some (take VPN_MAX_PACKET_SIZE dg)) = Inr pd \<and> data_session d pd i slot
    \<and> replay_check (Some (replay_filter (slot_session slot (peers (d_table d) ! i)))) (pd_counter pd)
    \<and> vpn_seal (recv_key (slot_session slot (peers (d_table d) ! i))) (pd_counter pd) [] p = (pd_bytes pd, pd_auth_tag pd)
    \<and> 20 \<le> length p \<and> peer_allows_source_ip (Some (peers (d_table d) ! i)) (ipv4_at p 12) \<and> fd = nat (tun_fd (d_tun d))"
proof -
  define d1 where "d1 = (if it_signal it then handle_signal d else d)"
  have d1: "daemon_wf d1" "d_table d1 = d_table d" "d_tun d1 = d_tun d" using assms(1) by (simp_all add: d1_def handle_signal_def daemon_wf_def)
  have "Ev_write fd p \<in> set (snd (inbound X it d1))"
    using assms(2,3) outbound_no_write unfolding iterate_once_def Let_def d1_def [symmetric]
    by (auto split: sum.splits prod.splits if_splits) (metis outbound_no_write snd_conv)+
  then obtain dg addr l where dg: "it_recv it = Inr (dg, addr, l)" and w: "Ev_write fd p \<in> set (snd (on_data it (take 2048 dg)
      \<lparr>ep_addr = addr, ep_addr_len = l\<rparr> (d1\<lparr>d_net_buf := take 2048 dg @ drop (length dg) (d_net_buf d1)\<rparr>)))"
    using inbound_write [OF d1(1)] by blast
  have "daemon_wf (d1\<lparr>d_net_buf := take 2048 dg @ drop (length dg) (d_net_buf d1)\<rparr>)"
    using d1(1) by (auto simp: daemon_wf_def)
  from on_data_write [OF this w] show ?thesis using dg d1(2,3) by (auto simp: data_session_def)
qed

theorem tun_writes_authentic_witness:
  "\<exists>it d' evs dg addr l pd i slot. iterate_once x25519_sum it (daemon_of (tunnel_table 5 6 (replicate 32 9) (replicate 32 8))) = (d', evs, True)
     \<and> Ev_write 4 (replicate 20 0) \<in> set evs \<and> it_recv it = Inr (dg, addr, l)
     \<and> data_session (daemon_of (tunnel_table 5 6 (replicate 32 9) (replicate 32 8))) pd i slot"
proof -
  have "daemon_wf (daemon_of (tunnel_table 5 6 (replicate 32 9) (replicate 32 8)))" by (intro daemon_of_wf tunnel_table_wf) simp_all
  moreover obtain it d' evs where "iterate_once x25519_sum it (daemon_of (tunnel_table 5 6 (replicate 32 9) (replicate 32 8))) = (d', evs, True)"
    "Ev_write 4 (replicate 20 0) \<in> set evs" using sample_delivery by blast
  ultimately show ?thesis using tun_writes_authentic by meson
qed

text \<open>
  C1: the tunnel delivers, once. If two daemons share a session (the sender's key is the receiver's,
  the receiver's index leads to it and its filter has not seen the counter), then a packet of up to 1440
  bytes read from the TUN device of one is sent as one datagram, and when this datagram arrives at the
  other, from whatever address, exactly the packet is written to its TUN device, provided its source
  address is allowed; when the datagram arrives again, nothing is written or sent.
\<close>

theorem tunnel_delivers_once:
  assumes "daemon_wf a" "daemon_wf b" "tun_fd (d_tun a) \<ge> 0" "tun_fd (d_tun b) \<ge> 0"
    and "it_read it = Inr p" "20 \<le> length p" "length p \<le> 1440" "length p \<le> nat (tun_mtu (d_tun b))"
    and "peer_find_by_dest_ip (Some (d_table a)) (ipv4_at p 16) = Some i" "s = current_session (peers (d_table a) ! i)"
    and "sess_state s = SESSION_STATE_ESTABLISHED"
    and "peer_find_by_index (Some (d_table b)) (peer_index s) = Some (j, slot)" "r = slot_session slot (peers (d_table b) ! j)"
    and "recv_key r = send_key s" "replay_rel (replay_filter r) H" "replay_check (Some (replay_filter r)) (sending_counter s)"
    and "peer_allows_source_ip (Some (peers (d_table b) ! j)) (ipv4_at p 12)"
  shows "\<exists>datagram addr n. snd (outbound it a) = [Ev_sendto (nat (d_sock_fd a)) datagram addr n] \<and>
    (\<forall>it' it'' src src'. it_recv it' = Inr (datagram, src) \<longrightarrow> it_recv it'' = Inr (datagram, src') \<longrightarrow>
       (case inbound X it' b of (b', evs) \<Rightarrow> evs = [Ev_write (nat (tun_fd (d_tun b))) p] \<and> snd (inbound X it'' b') = []))"
proof -
  let ?w = "data_wire (data_packet s p)"
  have "snd (outbound it a) = [Ev_sendto (nat (d_sock_fd a)) ?w (ep_addr (endpoint (peers (d_table a) ! i))) (ep_addr_len (endpoint (peers (d_table a) ! i)))]"
    using outbound_ok [OF assms(1,3,5,6) _ assms(9)] assms(7,10,11) by auto
  moreover have "case inbound X it' b of (b', evs) \<Rightarrow> evs = [Ev_write (nat (tun_fd (d_tun b))) p] \<and> snd (inbound X it'' b') = []"
    if "it_recv it' = Inr (?w, addr, l)" "it_recv it'' = Inr (?w, addr', l')" for it' it'' addr l addr' l'
    using inbound_once [OF assms(2) that assms(6,7,12-16)] assms(4,6,8,17) by (cases "inbound X it' b") auto
  ultimately show ?thesis by fastforce
qed

theorem tunnel_delivers_once_witness:
  "\<exists>datagram addr n. snd (outbound (iteration_of [] (replicate 20 0)) (daemon_of (tunnel_table 6 5 (replicate 32 8) (replicate 32 9))))
      = [Ev_sendto 3 datagram addr n] \<and>
    (\<forall>it' it'' src src'. it_recv it' = Inr (datagram, src) \<longrightarrow> it_recv it'' = Inr (datagram, src') \<longrightarrow>
       (case inbound x25519_sum it' (daemon_of (tunnel_table 5 6 (replicate 32 9) (replicate 32 8))) of
          (b', evs) \<Rightarrow> evs = [Ev_write 4 (replicate 20 0)] \<and> snd (inbound x25519_sum it'' b') = []))"
proof -
  let ?a = "daemon_of (tunnel_table 6 5 (replicate 32 8) (replicate 32 9))"
  let ?b = "daemon_of (tunnel_table 5 6 (replicate 32 9) (replicate 32 8))"
  have wf: "daemon_wf ?a" "daemon_wf ?b" by (intro daemon_of_wf tunnel_table_wf; simp)+
  have "replay_check (Some replay_filter_zero) 0" by (simp add: replay_check_def replay_check_body_def replay_filter_zero_def)
  then show ?thesis
    using tunnel_delivers_once [OF wf, of "iteration_of [] (replicate 20 0)" "replicate 20 0" 0 _ 0 Current _ "{}" x25519_sum]
      tunnel_table_simps replay_rel_zero
    by (simp add: daemon_of_def iteration_of_def) (simp add: tunnel_table_def session_zero_def)
qed

text \<open>
  C8: the program ends, and cleanly. If the kernel hands out descriptors that are not in use, and SIGINT
  or SIGTERM arrives in some iteration, the program exits, with status 1 if the start-up failed and 0
  else, and on every path the descriptors it opened are closed.
\<close>

theorem vpn_main_exits_clean:
  assumes "x25519_sizes X" "\<exists>it \<in> set its. it_signal it"
    and "\<And>v6 nb fd. os_socket os v6 nb = Inr fd \<Longrightarrow> fd \<notin> S"
    and "\<And>v6 nb fd fd'. os_socket os v6 nb = Inr fd \<Longrightarrow> os_open_tun os' = Inr fd' \<Longrightarrow> fd' \<notin> insert fd S"
    and "\<And>v6 nb fd v6' nb' fd'. os_socket os v6 nb = Inr fd \<Longrightarrow> os_socket os' v6' nb' = Inr fd' \<Longrightarrow>
      fd' \<notin> insert fd S \<and> Inr fd' \<noteq> os_open_tun os'"
  shows "\<exists>evs. vpn_main X os os' rc rnd its = (Some (if fst (startup X os os' rc rnd) = None then 1 else 0), evs) \<and> fds_after evs S = S"
proof -
  have fresh: "socket_fresh S (os, None, VPN_DEFAULT_PORT)" using assms(3) by (auto simp: socket_fresh_def)
  have tfresh: "tun_fresh (insert fd S) (os', Some VPN_DEFAULT_TUN_NAME, 1440)" if "os_socket os v6 nb = Inr fd" for v6 nb fd
    using assms(4,5) [OF that] by (fastforce simp: tun_fresh_def)
  obtain r evs where st: "startup X os os' rc rnd = (r, evs)" by (metis surj_pair)
  show ?thesis
  proof (cases r)
    case None
    then have "fds_after evs S = S" using startup_None st udp.acquire_fails [OF fresh] by fastforce
    then show ?thesis using st None by (simp add: vpn_main_def)
  next
    case (Some d)
    note st = st [unfolded Some]
    have wf: "daemon_wf d" using startup_wf [OF assms(1) st] by simp
    obtain d' evs' ended where loop: "event_loop X its d = (d', evs', ended)" by (metis surj_pair)
    have ended using event_loop_stops [of d its X] assms(2) loop by simp
    obtain acts where sim: "simulates X d evs' d' acts" using event_loop_simulates [OF assms(1) wf loop] by blast
    have "snd (shutdown d') = snd (shutdown d)" using sim by (simp add: shutdown_def simulates_def same_node_def split: prod.split)
    then have "fds_after (evs @ evs' @ snd (shutdown d')) S = S"
      using startup_fds [OF st fresh tfresh] simulates_fds [OF sim] by simp
    then show ?thesis using st loop \<open>ended\<close> by (simp add: vpn_main_def)
  qed
qed

theorem vpn_main_exits_clean_witness:
  "\<exists>evs. vpn_main x25519_sum (os_ready 3 9) (os_ready 5 4) 0 (replicate 32 2) [(iteration_of [4, 0, 0] [])\<lparr>it_signal := True\<rparr>]
     = (Some (if fst (startup x25519_sum (os_ready 3 9) (os_ready 5 4) 0 (replicate 32 2)) = None then 1 else 0), evs)
   \<and> fds_after evs {0, 1, 2} = {0, 1, 2}"
  by (rule vpn_main_exits_clean [OF x25519_sum_sizes]) (auto simp: os_ready_def)


text \<open>
  C35: as started, the daemon carries no traffic. \<open>main\<close> adds no peer to the table it initialises, and no
  packet can: whatever arrives, the event loop neither sends a datagram nor writes to the TUN device,
  and the table is still empty at the end.
\<close>

theorem daemon_without_peers:
  assumes "x25519_sizes X" "startup X os os' rc rnd = (Some d, evs0)" "event_loop X its d = (d', evs, ended)"
  shows "evs = [] \<and> d_table d' = d_table d \<and> peers (d_table d') = []"
proof -
  have d: "daemon_wf d" "peers (d_table d) = []" using startup_wf [OF assms(1,2)] by simp_all
  obtain acts where sim: "simulates X d evs d' acts" using event_loop_simulates [OF assms(1) d(1) assms(3)] by blast
  then have "node_run X (d_static_priv d) (d_static_pub d) (d_table d) acts (d_table d')" by (simp add: simulates_def)
  from node_run_no_peers [OF this d(2)] have "acts = [] \<and> d_table d' = d_table d" .
  then show ?thesis using sim d(2) by (simp add: simulates_def)
qed

theorem daemon_without_peers_witness:
  "\<exists>d evs0 d' evs ended. startup x25519_sum (os_ready 3 9) (os_ready 5 4) 0 (replicate 32 2) = (Some d, evs0)
     \<and> event_loop x25519_sum [iteration_of [1, 0, 0, 0] (replicate 20 0)] d = (d', evs, ended) \<and> evs = [] \<and> peers (d_table d') = []"
proof -
  have "\<exists>d evs0. startup x25519_sum (os_ready 3 9) (os_ready 5 4) 0 (replicate 32 2) = (Some d, evs0)"
    by (simp add: startup_def vpn_crypto_init_def transport_open_def bind_address_def open_socket_def os_ready_def Let_def split: prod.splits)
  then obtain d evs0 where s: "startup x25519_sum (os_ready 3 9) (os_ready 5 4) 0 (replicate 32 2) = (Some d, evs0)" by blast
  obtain d' evs ended where e: "event_loop x25519_sum [iteration_of [1, 0, 0, 0] (replicate 20 0)] d = (d', evs, ended)" by (metis surj_pair)
  from daemon_without_peers [OF x25519_sum_sizes s e] s e show ?thesis by blast
qed

end
