(* ===== verification/Logging.thy ===== *)
theory Logging
  imports CLib
begin

text \<open>
  The log, \<open>src/src/logging.c\<close>: the threshold, which is the state of the component, and the text that a
  call prints. The formatted time and the formatted message (\<open>strftime\<close>, \<open>vfprintf\<close>) are arguments.
\<close>

section \<open>Model\<close>

datatype log_level_t = LOG_LEVEL_DEBUG | LOG_LEVEL_INFO | LOG_LEVEL_WARN | LOG_LEVEL_ERROR | LOG_LEVEL_NONE

fun log_level_code :: "log_level_t \<Rightarrow> nat" where
  "log_level_code LOG_LEVEL_DEBUG = 0"
| "log_level_code LOG_LEVEL_INFO = 1"
| "log_level_code LOG_LEVEL_WARN = 2"
| "log_level_code LOG_LEVEL_ERROR = 3"
| "log_level_code LOG_LEVEL_NONE = 4"

definition log_set_level :: "log_level_t \<Rightarrow> log_level_t \<Rightarrow> log_level_t" where
  "log_set_level current_log_level level = level"

definition log_get_level :: "log_level_t \<Rightarrow> log_level_t" where
  "log_get_level current_log_level = current_log_level"

fun level_to_string :: "log_level_t \<Rightarrow> string" where
  "level_to_string LOG_LEVEL_DEBUG = ''DEBUG''"
| "level_to_string LOG_LEVEL_INFO = ''INFO ''"
| "level_to_string LOG_LEVEL_WARN = ''WARN ''"
| "level_to_string LOG_LEVEL_ERROR = ''ERROR''"
| "level_to_string _ = ''UNKNOWN''"

definition log_filename :: "string \<Rightarrow> string" where
  "log_filename file =
     (let base = (case strrchr file (CHR ''/'') of None \<Rightarrow> strrchr file (CHR 0x5C) | Some t \<Rightarrow> Some t)
      in case base of None \<Rightarrow> file | Some t \<Rightarrow> tl t)"

definition log_message :: "log_level_t \<Rightarrow> string \<Rightarrow> log_level_t \<Rightarrow> string \<Rightarrow> nat \<Rightarrow> string \<Rightarrow> string" where
  "log_message current_log_level time_str level file line text =
     (if log_level_code level < log_level_code current_log_level \<or> log_level_code level \<ge> log_level_code LOG_LEVEL_NONE then []
      else ''['' @ time_str @ ''] ['' @ level_to_string level @ ''] ['' @ log_filename file @ '':'' @ dec_string line @ ''] ''
        @ text @ [CHR 0x0A])"

text \<open>The threshold that \<open>main\<close> sets from its arguments.\<close>

definition main_log_level :: "string list \<Rightarrow> log_level_t" where
  "main_log_level argv =
     (if length argv > 1 \<and> argv ! 1 = ''--debug'' then LOG_LEVEL_DEBUG else LOG_LEVEL_INFO)"

section \<open>Lemmas\<close>

lemma strrchr_Some: "strrchr s c = Some t \<Longrightarrow> \<exists>u. s = u @ t \<and> hd t = c \<and> t \<noteq> [] \<and> c \<notin> set (tl t)"
proof (induction s)
  case (Cons x xs)
  have none: "strrchr ys c = None \<Longrightarrow> c \<notin> set ys" for ys by (induction ys) (auto split: option.splits if_splits)
  show ?case
  proof (cases "strrchr xs c")
    case None
    then show ?thesis using Cons.prems none [of xs] by (intro exI [of _ "[]"]) (auto split: if_splits)
  next
    case (Some r)
    then show ?thesis using Cons by (auto intro: exI [of _ "x # _"])
  qed
qed simp

lemma strrchr_None_iff: "strrchr s c = None \<longleftrightarrow> c \<notin> set s"
  by (induction s) (auto split: option.splits)

text \<open>The file name in a log line is the end of the path, without directories.\<close>

lemma log_filename_basename: "\<exists>u. file = u @ log_filename file" "CHR ''/'' \<notin> set (log_filename file)"
proof -
  show "CHR ''/'' \<notin> set (log_filename file)"
  proof (cases "strrchr file (CHR ''/'')")
    case None
    then have "CHR ''/'' \<notin> set file" by (simp add: strrchr_None_iff)
    moreover have "set (tl t) \<subseteq> set file" if "strrchr file (CHR 0x5C) = Some t" for t
      using strrchr_Some [OF that] by (auto dest: list.set_sel(2))
    ultimately show ?thesis using None by (auto simp: log_filename_def split: option.splits)
  qed (auto simp: log_filename_def dest: strrchr_Some)
  have tail: "\<exists>u. file = u @ tl t" if "strrchr file c = Some t" for c t
    using strrchr_Some [OF that] by (metis append_assoc append_Cons append_Nil hd_Cons_tl)
  show "\<exists>u. file = u @ log_filename file"
    using tail by (auto simp: log_filename_def split: option.splits)
qed

lemma log_message_silent:
  "log_message cur now level file line text = [] \<longleftrightarrow> level = LOG_LEVEL_NONE \<or> log_level_code level < log_level_code cur"
  by (cases level) (auto simp: log_message_def)

end
