(* ===== verification/Fe25519.thy ===== *)
theory Fe25519
  imports Word_Arith
begin

text \<open>
  libsodium's arithmetic in the field of Curve25519 with five limbs of 51 bits,
  \<open>include/sodium/private/ed25519_ref10_fe_51.h\<close> and \<open>crypto_core/ed25519/ref10/fe_51/fe.h\<close>. An array of
  five words is a tuple; an operation returns what the code stores in its first argument. The sequence
  of carries that \<open>fe25519_mul\<close>, \<open>fe25519_sq\<close> and \<open>fe25519_sq2\<close> have in common is one function.
\<close>

unbundle bit_operations_syntax

section \<open>Model\<close>

type_synonym fe25519 = "u64 \<times> u64 \<times> u64 \<times> u64 \<times> u64"
type_synonym fe25519_wide = "u128 \<times> u128 \<times> u128 \<times> u128 \<times> u128"

definition fe25519_0 :: fe25519 where
  "fe25519_0 = (0, 0, 0, 0, 0)"

definition fe25519_1 :: fe25519 where
  "fe25519_1 = (1, 0, 0, 0, 0)"

definition fe25519_add :: "fe25519 \<Rightarrow> fe25519 \<Rightarrow> fe25519" where
  "fe25519_add f g =
     (case (f, g) of ((f0, f1, f2, f3, f4), (g0, g1, g2, g3, g4)) \<Rightarrow>
      (f0 + g0, f1 + g1, f2 + g2, f3 + g3, f4 + g4))"

text \<open>The first half of \<open>fe25519_sub\<close> carries the subtrahend, the second subtracts it from the minuend plus \<open>2 p\<close>.\<close>

definition fe25519_sub_carry :: "fe25519 \<Rightarrow> fe25519" where
  "fe25519_sub_carry h =
     (case h of (h0, h1, h2, h3, h4) \<Rightarrow>
      (let mask = 0x7ffffffffffff;
          h1 = h1 + drop_bit 51 h0; h0 = h0 AND mask;
          h2 = h2 + drop_bit 51 h1; h1 = h1 AND mask;
          h3 = h3 + drop_bit 51 h2; h2 = h2 AND mask;
          h4 = h4 + drop_bit 51 h3; h3 = h3 AND mask;
          h0 = h0 + 19 * drop_bit 51 h4; h4 = h4 AND mask
      in (h0, h1, h2, h3, h4)))"

definition fe25519_sub_from :: "fe25519 \<Rightarrow> fe25519 \<Rightarrow> fe25519" where
  "fe25519_sub_from f h =
     (case (f, h) of ((f0, f1, f2, f3, f4), (h0, h1, h2, h3, h4)) \<Rightarrow>
      ((f0 + 0xfffffffffffda) - h0, (f1 + 0xffffffffffffe) - h1, (f2 + 0xffffffffffffe) - h2,
      (f3 + 0xffffffffffffe) - h3, (f4 + 0xffffffffffffe) - h4))"

definition fe25519_sub :: "fe25519 \<Rightarrow> fe25519 \<Rightarrow> fe25519" where
  "fe25519_sub f g = fe25519_sub_from f (fe25519_sub_carry g)"

definition fe25519_neg :: "fe25519 \<Rightarrow> fe25519" where
  "fe25519_neg f = fe25519_sub fe25519_0 f"

text \<open>\<open>(uint64_t) (-(int64_t) b)\<close> for an unsigned 32-bit \<open>b\<close>.\<close>

definition swap_mask :: "u32 \<Rightarrow> u64" where
  "swap_mask b = - ucast b"

definition fe25519_cmov :: "fe25519 \<Rightarrow> fe25519 \<Rightarrow> u32 \<Rightarrow> fe25519" where
  "fe25519_cmov f g b =
     (case (f, g) of ((f0, f1, f2, f3, f4), (g0, g1, g2, g3, g4)) \<Rightarrow>
      (let mask = swap_mask b;
          x0 = (f0 XOR g0) AND mask; x1 = (f1 XOR g1) AND mask; x2 = (f2 XOR g2) AND mask;
          x3 = (f3 XOR g3) AND mask; x4 = (f4 XOR g4) AND mask
      in (f0 XOR x0, f1 XOR x1, f2 XOR x2, f3 XOR x3, f4 XOR x4)))"

definition fe25519_cswap :: "fe25519 \<Rightarrow> fe25519 \<Rightarrow> u32 \<Rightarrow> fe25519 \<times> fe25519" where
  "fe25519_cswap f g b =
     (case (f, g) of ((f0, f1, f2, f3, f4), (g0, g1, g2, g3, g4)) \<Rightarrow>
      (let mask = swap_mask b;
          x0 = (f0 XOR g0) AND mask; x1 = (f1 XOR g1) AND mask; x2 = (f2 XOR g2) AND mask;
          x3 = (f3 XOR g3) AND mask; x4 = (f4 XOR g4) AND mask
      in ((f0 XOR x0, f1 XOR x1, f2 XOR x2, f3 XOR x3, f4 XOR x4),
          (g0 XOR x0, g1 XOR x1, g2 XOR x2, g3 XOR x3, g4 XOR x4))))"

definition fe25519_copy :: "fe25519 \<Rightarrow> fe25519" where
  "fe25519_copy f = f"

definition fe25519_carry :: "fe25519_wide \<Rightarrow> fe25519" where
  "fe25519_carry r =
     (case r of (r0, r1, r2, r3, r4) \<Rightarrow>
      (let mask = 0x7ffffffffffff :: u64;
          r00 = ucast r0 AND mask; r1 = r1 + drop_bit 51 r0;
          r01 = ucast r1 AND mask; r2 = r2 + drop_bit 51 r1;
          r02 = ucast r2 AND mask; r3 = r3 + drop_bit 51 r2;
          r03 = ucast r3 AND mask; r4 = r4 + drop_bit 51 r3;
          r04 = ucast r4 AND mask;
          r00 = r00 + 19 * ucast (drop_bit 51 r4);
          r01 = r01 + drop_bit 51 r00; r00 = r00 AND mask;
          r02 = r02 + drop_bit 51 r01; r01 = r01 AND mask
      in (r00, r01, r02, r03, r04)))"

definition fe25519_mul_wide :: "fe25519 \<Rightarrow> fe25519 \<Rightarrow> fe25519_wide" where
  "fe25519_mul_wide f g =
     (case (f, g) of ((f0, f1, f2, f3, f4), (g0, g1, g2, g3, g4)) \<Rightarrow>
      (let f1_19 = 19 * f1; f2_19 = 19 * f2; f3_19 = 19 * f3; f4_19 = 19 * f4
      in (ucast f0 * ucast g0 + ucast f1_19 * ucast g4 + ucast f2_19 * ucast g3 + ucast f3_19 * ucast g2 + ucast f4_19 * ucast g1,
          ucast f0 * ucast g1 + ucast f1 * ucast g0 + ucast f2_19 * ucast g4 + ucast f3_19 * ucast g3 + ucast f4_19 * ucast g2,
          ucast f0 * ucast g2 + ucast f1 * ucast g1 + ucast f2 * ucast g0 + ucast f3_19 * ucast g4 + ucast f4_19 * ucast g3,
          ucast f0 * ucast g3 + ucast f1 * ucast g2 + ucast f2 * ucast g1 + ucast f3 * ucast g0 + ucast f4_19 * ucast g4,
          ucast f0 * ucast g4 + ucast f1 * ucast g3 + ucast f2 * ucast g2 + ucast f3 * ucast g1 + ucast f4 * ucast g0)))"

definition fe25519_mul :: "fe25519 \<Rightarrow> fe25519 \<Rightarrow> fe25519" where
  "fe25519_mul f g = fe25519_carry (fe25519_mul_wide f g)"

definition fe25519_sq_wide :: "fe25519 \<Rightarrow> fe25519_wide" where
  "fe25519_sq_wide f =
     (case f of (f0, f1, f2, f3, f4) \<Rightarrow>
      (let f0_2 = push_bit 1 f0; f1_2 = push_bit 1 f1; f1_38 = 38 * f1; f2_38 = 38 * f2; f3_38 = 38 * f3;
          f3_19 = 19 * f3; f4_19 = 19 * f4
      in (ucast f0 * ucast f0 + ucast f1_38 * ucast f4 + ucast f2_38 * ucast f3,
          ucast f0_2 * ucast f1 + ucast f2_38 * ucast f4 + ucast f3_19 * ucast f3,
          ucast f0_2 * ucast f2 + ucast f1 * ucast f1 + ucast f3_38 * ucast f4,
          ucast f0_2 * ucast f3 + ucast f1_2 * ucast f2 + ucast f4_19 * ucast f4,
          ucast f0_2 * ucast f4 + ucast f1_2 * ucast f3 + ucast f2 * ucast f2)))"

definition fe25519_sq :: "fe25519 \<Rightarrow> fe25519" where
  "fe25519_sq f = fe25519_carry (fe25519_sq_wide f)"

definition fe25519_sq2 :: "fe25519 \<Rightarrow> fe25519" where
  "fe25519_sq2 f =
     (case fe25519_sq_wide f of (r0, r1, r2, r3, r4) \<Rightarrow>
        fe25519_carry (push_bit 1 r0, push_bit 1 r1, push_bit 1 r2, push_bit 1 r3, push_bit 1 r4))"

definition fe25519_mul32 :: "fe25519 \<Rightarrow> u32 \<Rightarrow> fe25519" where
  "fe25519_mul32 f n =
     (case f of (f0, f1, f2, f3, f4) \<Rightarrow>
      (let mask = 0x7ffffffffffff :: u64; sn = ucast n :: u128;
          a = ucast f0 * sn; h0 = ucast a AND mask;
          a = ucast f1 * sn + ucast (ucast (drop_bit 51 a) :: u64); h1 = ucast a AND mask;
          a = ucast f2 * sn + ucast (ucast (drop_bit 51 a) :: u64); h2 = ucast a AND mask;
          a = ucast f3 * sn + ucast (ucast (drop_bit 51 a) :: u64); h3 = ucast a AND mask;
          a = ucast f4 * sn + ucast (ucast (drop_bit 51 a) :: u64); h4 = ucast a AND mask;
          h0 = h0 + ucast (drop_bit 51 a * 19)
      in (h0, h1, h2, h3, h4)))"

definition fe25519_frombytes :: "bytes \<Rightarrow> fe25519" where
  "fe25519_frombytes s =
     (let mask = 0x7ffffffffffff
      in (load64_le s AND mask,
          drop_bit 3 (load64_le (drop 6 s)) AND mask,
          drop_bit 6 (load64_le (drop 12 s)) AND mask,
          drop_bit 1 (load64_le (drop 19 s)) AND mask,
          drop_bit 12 (load64_le (drop 24 s)) AND mask))"

text \<open>
  \<open>fe25519_reduce\<close> works on 128-bit limbs. One pass carries from limb to limb; the code writes it out
  three times with the carry out of the top limb multiplied by 19, and once without.
\<close>

definition fe25519_pass :: "fe25519_wide \<Rightarrow> fe25519_wide \<times> u128" where
  "fe25519_pass t =
     (case t of (t0, t1, t2, t3, t4) \<Rightarrow>
      (let mask = 0x7ffffffffffff;
          t1 = t1 + drop_bit 51 t0; t0 = t0 AND mask;
          t2 = t2 + drop_bit 51 t1; t1 = t1 AND mask;
          t3 = t3 + drop_bit 51 t2; t2 = t2 AND mask;
          t4 = t4 + drop_bit 51 t3; t3 = t3 AND mask
      in ((t0, t1, t2, t3, t4 AND mask), drop_bit 51 t4)))"

definition fe25519_pass_19 :: "fe25519_wide \<Rightarrow> fe25519_wide" where
  "fe25519_pass_19 t = (case fe25519_pass t of ((t0, t1, t2, t3, t4), c) \<Rightarrow> (t0 + 19 * c, t1, t2, t3, t4))"

definition fe25519_reduce :: "fe25519 \<Rightarrow> fe25519" where
  "fe25519_reduce f =
     (case f of (f0, f1, f2, f3, f4) \<Rightarrow>
      (let t = fe25519_pass_19 (fe25519_pass_19 (ucast f0, ucast f1, ucast f2, ucast f3, ucast f4))
      in case t of (t0, t1, t2, t3, t4) \<Rightarrow>
         (case fe25519_pass_19 (t0 + 19, t1, t2, t3, t4) of (t0, t1, t2, t3, t4) \<Rightarrow>
            (case fst (fe25519_pass (t0 + (0x8000000000000 - 19), t1 + (0x8000000000000 - 1), t2 + (0x8000000000000 - 1),
                t3 + (0x8000000000000 - 1), t4 + (0x8000000000000 - 1))) of
               (t0, t1, t2, t3, t4) \<Rightarrow> (ucast t0, ucast t1, ucast t2, ucast t3, ucast t4)))))"

definition fe25519_tobytes :: "fe25519 \<Rightarrow> bytes" where
  "fe25519_tobytes h =
     (case fe25519_reduce h of (t0, t1, t2, t3, t4) \<Rightarrow>
        store64_le (t0 OR push_bit 51 t1) @ store64_le (drop_bit 13 t1 OR push_bit 38 t2) @
        store64_le (drop_bit 26 t2 OR push_bit 25 t3) @ store64_le (drop_bit 39 t3 OR push_bit 12 t4))"

definition fe25519_isnegative :: "fe25519 \<Rightarrow> u8" where
  "fe25519_isnegative f = fe25519_tobytes f ! 0 AND 1"

section \<open>Inversion (ed25519_ref10.c)\<close>

text \<open>\<open>for (i = 0; i < n; ++i) fe25519_sq(t, t);\<close>\<close>

fun fe25519_sq_times :: "nat \<Rightarrow> fe25519 \<Rightarrow> fe25519" where
  "fe25519_sq_times 0 t = t"
| "fe25519_sq_times (Suc n) t = fe25519_sq_times n (fe25519_sq t)"

definition fe25519_invert :: "fe25519 \<Rightarrow> fe25519" where
  "fe25519_invert z =
     (let t0 = fe25519_sq z;
          t1 = fe25519_sq t0;
          t1 = fe25519_sq t1;
          t1 = fe25519_mul z t1;
          t0 = fe25519_mul t0 t1;
          t2 = fe25519_sq t0;
          t1 = fe25519_mul t1 t2;
          t2 = fe25519_sq t1;
          t2 = fe25519_sq_times 4 t2;
          t1 = fe25519_mul t2 t1;
          t2 = fe25519_sq t1;
          t2 = fe25519_sq_times 9 t2;
          t2 = fe25519_mul t2 t1;
          t3 = fe25519_sq t2;
          t3 = fe25519_sq_times 19 t3;
          t2 = fe25519_mul t3 t2;
          t2 = fe25519_sq_times 10 t2;
          t1 = fe25519_mul t2 t1;
          t2 = fe25519_sq t1;
          t2 = fe25519_sq_times 49 t2;
          t2 = fe25519_mul t2 t1;
          t3 = fe25519_sq t2;
          t3 = fe25519_sq_times 99 t3;
          t2 = fe25519_mul t3 t2;
          t2 = fe25519_sq_times 50 t2;
          t1 = fe25519_mul t2 t1;
          t1 = fe25519_sq_times 5 t1
      in fe25519_mul t1 t0)"

section \<open>Values\<close>

definition p25519 :: nat where
  "p25519 = 2 ^ 255 - 19"

fun fe_val :: "fe25519 \<Rightarrow> nat" where
  "fe_val (a, b, c, d, e) = unat a + 2 ^ 51 * unat b + 2 ^ 102 * unat c + 2 ^ 153 * unat d + 2 ^ 204 * unat e"

fun wide_val :: "fe25519_wide \<Rightarrow> nat" where
  "wide_val (a, b, c, d, e) = unat a + 2 ^ 51 * unat b + 2 ^ 102 * unat c + 2 ^ 153 * unat d + 2 ^ 204 * unat e"

fun fe_bounded :: "nat \<Rightarrow> fe25519 \<Rightarrow> bool" where
  "fe_bounded n (a, b, c, d, e) \<longleftrightarrow> unat a < 2 ^ n \<and> unat b < 2 ^ n \<and> unat c < 2 ^ n \<and> unat d < 2 ^ n \<and> unat e < 2 ^ n"

end
