(* ===== verification/X25519.thy ===== *)
theory X25519
  imports Fe25519 Sodium_Utils
begin

text \<open>
  The multiplication of a point of Curve25519 by a scalar: a model of
  \<open>crypto_scalarmult_curve25519_ref10\<close> (x25519_ref10.c), and the
  reference that it is compared with, the Montgomery ladder of RFC 7748 on integers modulo the prime.
\<close>

unbundle bit_operations_syntax

section \<open>Points of small order\<close>

definition blacklist :: "bytes list" where
  "blacklist =
     [[0x00, 0x00, 0x00, 0x00, 0x00, 0x00, 0x00, 0x00, 0x00, 0x00, 0x00,
       0x00, 0x00, 0x00, 0x00, 0x00, 0x00, 0x00, 0x00, 0x00, 0x00, 0x00,
       0x00, 0x00, 0x00, 0x00, 0x00, 0x00, 0x00, 0x00, 0x00, 0x00],
      [0x01, 0x00, 0x00, 0x00, 0x00, 0x00, 0x00, 0x00, 0x00, 0x00, 0x00,
       0x00, 0x00, 0x00, 0x00, 0x00, 0x00, 0x00, 0x00, 0x00, 0x00, 0x00,
       0x00, 0x00, 0x00, 0x00, 0x00, 0x00, 0x00, 0x00, 0x00, 0x00],
      [0xe0, 0xeb, 0x7a, 0x7c, 0x3b, 0x41, 0xb8, 0xae, 0x16, 0x56, 0xe3,
       0xfa, 0xf1, 0x9f, 0xc4, 0x6a, 0xda, 0x09, 0x8d, 0xeb, 0x9c, 0x32,
       0xb1, 0xfd, 0x86, 0x62, 0x05, 0x16, 0x5f, 0x49, 0xb8, 0x00],
      [0x5f, 0x9c, 0x95, 0xbc, 0xa3, 0x50, 0x8c, 0x24, 0xb1, 0xd0, 0xb1,
       0x55, 0x9c, 0x83, 0xef, 0x5b, 0x04, 0x44, 0x5c, 0xc4, 0x58, 0x1c,
       0x8e, 0x86, 0xd8, 0x22, 0x4e, 0xdd, 0xd0, 0x9f, 0x11, 0x57],
      [0xec, 0xff, 0xff, 0xff, 0xff, 0xff, 0xff, 0xff, 0xff, 0xff, 0xff,
       0xff, 0xff, 0xff, 0xff, 0xff, 0xff, 0xff, 0xff, 0xff, 0xff, 0xff,
       0xff, 0xff, 0xff, 0xff, 0xff, 0xff, 0xff, 0xff, 0xff, 0x7f],
      [0xed, 0xff, 0xff, 0xff, 0xff, 0xff, 0xff, 0xff, 0xff, 0xff, 0xff,
       0xff, 0xff, 0xff, 0xff, 0xff, 0xff, 0xff, 0xff, 0xff, 0xff, 0xff,
       0xff, 0xff, 0xff, 0xff, 0xff, 0xff, 0xff, 0xff, 0xff, 0x7f],
      [0xee, 0xff, 0xff, 0xff, 0xff, 0xff, 0xff, 0xff, 0xff, 0xff, 0xff,
       0xff, 0xff, 0xff, 0xff, 0xff, 0xff, 0xff, 0xff, 0xff, 0xff, 0xff,
       0xff, 0xff, 0xff, 0xff, 0xff, 0xff, 0xff, 0xff, 0xff, 0x7f]]"

text \<open>
  The loops collect in \<open>c[i]\<close> the differences to the entry \<open>i\<close>, the top bit of the last byte left out; \<open>c[i] - 1\<close>
  as an unsigned int has bit 8 set exactly if \<open>c[i]\<close> is 0.
\<close>

definition small_order_diff :: "bytes \<Rightarrow> bytes \<Rightarrow> u8" where
  "small_order_diff s b = fold (\<lambda>j c. c OR (s ! j XOR b ! j)) [0..<31] 0 OR ((s ! 31 AND 0x7f) XOR b ! 31)"

definition has_small_order :: "bytes \<Rightarrow> u32" where
  "has_small_order s = drop_bit 8 (fold (\<lambda>b k. k OR (ucast (small_order_diff s b) - 1)) blacklist 0) AND 1"

section \<open>The ladder\<close>

type_synonym ladder_state = "fe25519 \<times> fe25519 \<times> fe25519 \<times> fe25519 \<times> u32"

definition clamp :: "bytes \<Rightarrow> bytes" where
  "clamp n =
     (let t = take 32 n;
          t = t[0 := t ! 0 AND 248];
          t = t[31 := t ! 31 AND 127]
      in t[31 := t ! 31 OR 64])"

definition scalar_bit :: "bytes \<Rightarrow> nat \<Rightarrow> u32" where
  "scalar_bit t pos = drop_bit (pos mod 8) (ucast (t ! (pos div 8))) AND 1"

definition ladder_core :: "fe25519 \<Rightarrow> fe25519 \<times> fe25519 \<Rightarrow> fe25519 \<times> fe25519 \<Rightarrow> fe25519 \<times> fe25519 \<times> fe25519 \<times> fe25519" where
  "ladder_core x1 P Q =
     (case (P, Q) of ((x2, z2), (x3, z3)) \<Rightarrow>
      (let tmp0 = fe25519_sub x3 z3;
          tmp1 = fe25519_sub x2 z2;
          x2 = fe25519_add x2 z2;
          z2 = fe25519_add x3 z3;
          z3 = fe25519_mul tmp0 x2;
          z2 = fe25519_mul z2 tmp1;
          tmp0 = fe25519_sq tmp1;
          tmp1 = fe25519_sq x2;
          x3 = fe25519_add z3 z2;
          z2 = fe25519_sub z3 z2;
          x2 = fe25519_mul tmp1 tmp0;
          tmp1 = fe25519_sub tmp1 tmp0;
          z2 = fe25519_sq z2;
          z3 = fe25519_mul32 tmp1 121666;
          x3 = fe25519_sq x3;
          tmp0 = fe25519_add tmp0 z3;
          z3 = fe25519_mul x1 z2;
          z2 = fe25519_mul tmp1 tmp0
      in (x2, z2, x3, z3)))"

definition ladder_step :: "bytes \<Rightarrow> fe25519 \<Rightarrow> nat \<Rightarrow> ladder_state \<Rightarrow> ladder_state" where
  "ladder_step t x1 pos st =
     (case st of (x2, z2, x3, z3, swap) \<Rightarrow>
      (let b = scalar_bit t pos;
          swap = swap XOR b;
          (x2, x3) = fe25519_cswap x2 x3 swap;
          (z2, z3) = fe25519_cswap z2 z3 swap;
          swap = b;
          (x2, z2, x3, z3) = ladder_core x1 (x2, z2) (x3, z3)
      in (x2, z2, x3, z3, swap)))"

text \<open>The loop from \<open>pos = 254\<close> down to 0; the argument is the number of positions left.\<close>

fun ladder_loop :: "bytes \<Rightarrow> fe25519 \<Rightarrow> nat \<Rightarrow> ladder_state \<Rightarrow> ladder_state" where
  "ladder_loop t x1 0 st = st"
| "ladder_loop t x1 (Suc pos) st = ladder_loop t x1 pos (ladder_step t x1 pos st)"

definition crypto_scalarmult_curve25519_ref10 :: "bytes \<Rightarrow> bytes \<Rightarrow> bytes option" where
  "crypto_scalarmult_curve25519_ref10 n p =
     (if has_small_order p \<noteq> 0 then None
      else
        let t = clamp n;
            x1 = fe25519_frombytes p
        in case ladder_loop t x1 255 (fe25519_1, fe25519_0, fe25519_copy x1, fe25519_1, 0) of
             (x2, z2, x3, z3, swap) \<Rightarrow>
               (let (x2, x3) = fe25519_cswap x2 x3 swap;
                    (z2, z3) = fe25519_cswap z2 z3 swap;
                    z2 = fe25519_invert z2;
                    x2 = fe25519_mul x2 z2
                in Some (fe25519_tobytes x2)))"

section \<open>The reference\<close>

text \<open>
  A point is a fraction \<open>x / z\<close> modulo the prime. \<open>mont_dbl\<close> doubles one, \<open>mont_add u\<close> adds two whose difference is \<open>u\<close>;
  \<open>mont_ladder u k\<close> holds the multiples \<open>k\<close> and \<open>k + 1\<close> of the point \<open>u\<close>.
\<close>

definition mont_dbl :: "int \<times> int \<Rightarrow> int \<times> int" where
  "mont_dbl P =
     (case P of (x, z) \<Rightarrow>
      (let aa = (x + z) ^ 2; bb = (x - z) ^ 2; e = aa - bb
       in (aa * bb mod int p25519, e * (aa + 121665 * e) mod int p25519)))"

definition mont_add :: "int \<Rightarrow> int \<times> int \<Rightarrow> int \<times> int \<Rightarrow> int \<times> int" where
  "mont_add u P Q =
     (case (P, Q) of ((x2, z2), (x3, z3)) \<Rightarrow>
      (let da = (x3 - z3) * (x2 + z2); cb = (x3 + z3) * (x2 - z2)
       in ((da + cb) ^ 2 mod int p25519, u * (da - cb) ^ 2 mod int p25519)))"

fun mont_ladder :: "int \<Rightarrow> nat \<Rightarrow> (int \<times> int) \<times> (int \<times> int)" where
  "mont_ladder u k =
     (if k = 0 then ((1, 0), (u, 1))
      else case mont_ladder u (k div 2) of
        (P, Q) \<Rightarrow> if odd k then (mont_add u P Q, mont_dbl Q) else (mont_dbl P, mont_add u P Q))"

declare mont_ladder.simps [simp del]

definition x25519_spec :: "nat \<Rightarrow> nat \<Rightarrow> nat" where
  "x25519_spec k u =
     (case fst (mont_ladder (int u mod int p25519) k) of (x, z) \<Rightarrow> nat (x * z ^ (p25519 - 2) mod int p25519))"

definition clamp_nat :: "nat \<Rightarrow> nat" where
  "clamp_nat k = k mod 2 ^ 254 div 8 * 8 + 2 ^ 254"

end
