(* ===== verification/Fe25519_Correct.thy ===== *)
theory Fe25519_Correct
  imports Fe25519
begin

text \<open>
  The field operations of \<open>Fe25519\<close> compute modulo \<open>2 ^ 255 - 19\<close>: on limbs within their bounds no 64-bit
  or 128-bit operation overflows, the results are within bounds again, and their values are the sum,
  difference, product and square of the arguments.
\<close>

unbundle bit_operations_syntax

section \<open>Masks and carries\<close>

lemma and_51_eq: "(w :: 'a::len word) AND 0x7ffffffffffff = take_bit 51 w"
  by (simp add: take_bit_eq_mask mask_eq_exp_minus_1)

lemma unat_and_51: "unat ((w :: 'a::len word) AND 0x7ffffffffffff) = unat w mod 2 ^ 51"
  unfolding and_51_eq by (simp add: unsigned_take_bit_eq take_bit_eq_mod [of 51 "unat w"])

lemma unat_ucast_and_51: "unat (ucast (w :: u128) AND 0x7ffffffffffff :: u64) = unat w mod 2 ^ 51"
  unfolding unat_and_51 by (simp add: unsigned_ucast_eq take_bit_eq_mod [of 64 "unat w"] mod_mod_cancel)

lemma div_51_less: "x < c * 2 ^ 51 \<Longrightarrow> x div 2 ^ 51 < (c :: nat)"
  by (rule less_mult_imp_div_less)

lemma carry_u64:
  assumes "unat h < 2 ^ 63"
  shows "unat (h + drop_bit 51 g :: u64) = unat h + unat g div 2 ^ 51"
proof -
  have "unat g div 2 ^ 51 < 2 ^ 13" by (rule div_51_less) (use unat_u64_less [of g] in simp)
  then have "unat h + unat (drop_bit 51 g) < 2 ^ 64" using assms unfolding unat_drop_bit by simp
  then show ?thesis unfolding unat_drop_bit [symmetric] by (rule unat_add_u64)
qed

lemma unat_u128_less: "unat (w :: u128) < 2 ^ 128"
  using unsigned_less [of w, where ?'a = nat] by simp

lemma carry_u128:
  assumes "unat h < 2 ^ 127"
  shows "unat (h + drop_bit 51 g :: u128) = unat h + unat g div 2 ^ 51"
proof -
  have "unat g div 2 ^ 51 < 2 ^ 77" by (rule div_51_less) (use unat_u128_less [of g] in simp)
  then have "unat h + unat (drop_bit 51 g) < 2 ^ 128" using assms unfolding unat_drop_bit by simp
  then show ?thesis unfolding unat_drop_bit [symmetric] by (rule unat_add_u128)
qed

lemma unat_19_u64: "unat c < 2 ^ 59 \<Longrightarrow> unat (19 * c :: u64) = 19 * unat c"
  using unat_mult_u64 [of 19 c] by simp

lemma p25519_eq: "2 ^ 255 = p25519 + 19"
  by (simp add: p25519_def)

text \<open>One pass of carries from the lowest limb to the highest.\<close>

lemma fe_pass_arith:
  fixes h0 h1 h2 h3 h4 l0 l1 l2 l3 l4 c0 c1 c2 c3 c4 :: nat
  assumes "h0 = c0 * 2 ^ 51 + l0" "h1 + c0 = c1 * 2 ^ 51 + l1" "h2 + c1 = c2 * 2 ^ 51 + l2"
    "h3 + c2 = c3 * 2 ^ 51 + l3" "h4 + c3 = c4 * 2 ^ 51 + l4"
  shows "h0 + 2 ^ 51 * h1 + 2 ^ 102 * h2 + 2 ^ 153 * h3 + 2 ^ 204 * h4
    = l0 + 2 ^ 51 * l1 + 2 ^ 102 * l2 + 2 ^ 153 * l3 + 2 ^ 204 * l4 + 2 ^ 255 * c4"
  using assms by simp

lemma fold_19:
  fixes v l c :: nat
  assumes "v = l + 2 ^ 255 * c"
  shows "v = l + 19 * c + p25519 * c" "(l + 19 * c) mod p25519 = v mod p25519"
proof -
  show "v = l + 19 * c + p25519 * c" using assms unfolding p25519_eq by (simp add: algebra_simps)
  then show "(l + 19 * c) mod p25519 = v mod p25519" by simp
qed

section \<open>Addition and subtraction\<close>

lemma fe25519_add_val:
  assumes "fe_bounded m f" "fe_bounded n g" "m < 63" "n < 63"
  shows "fe_val (fe25519_add f g) = fe_val f + fe_val g" "m \<le> k \<Longrightarrow> n \<le> k \<Longrightarrow> fe_bounded (Suc k) (fe25519_add f g)"
proof -
  obtain f0 f1 f2 f3 f4 where f: "f = (f0, f1, f2, f3, f4)" by (cases f)
  obtain g0 g1 g2 g3 g4 where g: "g = (g0, g1, g2, g3, g4)" by (cases g)
  have le: "(2 :: nat) ^ m \<le> 2 ^ 63" "(2 :: nat) ^ n \<le> 2 ^ 63" using assms(3,4) by (intro power_increasing; simp)+
  have add: "unat (a + b) = unat a + unat b" if "unat a < 2 ^ m" "unat b < 2 ^ n" for a b :: u64
    using that le by (intro unat_add_u64) simp
  note bounds = assms(1,2) [unfolded f g fe_bounded.simps]
  show "fe_val (fe25519_add f g) = fe_val f + fe_val g" using bounds by (simp add: f g fe25519_add_def add algebra_simps)
  show "fe_bounded (Suc k) (fe25519_add f g)" if "m \<le> k" "n \<le> k"
  proof -
    have "(2 :: nat) ^ m \<le> 2 ^ k" "(2 :: nat) ^ n \<le> 2 ^ k" using that by (intro power_increasing; simp)+
    then have "unat a + unat b < 2 ^ Suc k" if "unat a < 2 ^ m" "unat b < 2 ^ n" for a b :: u64
      using that unfolding power_Suc by linarith
    then show ?thesis using bounds by (simp add: f g fe25519_add_def add)
  qed
qed

lemma fe25519_sub_carry_val:
  assumes "fe_bounded 54 g" "fe25519_sub_carry g = (h0, h1, h2, h3, h4)"
  shows "fe_val (h0, h1, h2, h3, h4) mod p25519 = fe_val g mod p25519"
    and "unat h0 < 2 ^ 51 + 171" "unat h1 < 2 ^ 51" "unat h2 < 2 ^ 51" "unat h3 < 2 ^ 51" "unat h4 < 2 ^ 51"
proof -
  obtain g0 g1 g2 g3 g4 where g: "g = (g0, g1, g2, g3, g4)" by (cases g)
  define k1 where "k1 = g1 + drop_bit 51 g0"
  define k2 where "k2 = g2 + drop_bit 51 k1"
  define k3 where "k3 = g3 + drop_bit 51 k2"
  define k4 where "k4 = g4 + drop_bit 51 k3"
  note b = assms(1) [unfolded g fe_bounded.simps]
  have K1: "unat k1 = unat g1 + unat g0 div 2 ^ 51" unfolding k1_def using b by (intro carry_u64) simp
  have K2: "unat k2 = unat g2 + unat k1 div 2 ^ 51" unfolding k2_def using b by (intro carry_u64) simp
  have K3: "unat k3 = unat g3 + unat k2 div 2 ^ 51" unfolding k3_def using b by (intro carry_u64) simp
  have K4: "unat k4 = unat g4 + unat k3 div 2 ^ 51" unfolding k4_def using b by (intro carry_u64) simp
  have c0: "unat g0 div 2 ^ 51 < 9" by (rule div_51_less) (use b in simp)
  have c1: "unat k1 div 2 ^ 51 < 9" by (rule div_51_less) (use b c0 K1 in simp)
  have c2: "unat k2 div 2 ^ 51 < 9" by (rule div_51_less) (use b c1 K2 in simp)
  have c3: "unat k3 div 2 ^ 51 < 9" by (rule div_51_less) (use b c2 K3 in simp)
  have c4: "unat k4 div 2 ^ 51 < 9" by (rule div_51_less) (use b c3 K4 in simp)
  have h: "h0 = (g0 AND 0x7ffffffffffff) + 19 * drop_bit 51 k4" "h1 = k1 AND 0x7ffffffffffff"
    "h2 = k2 AND 0x7ffffffffffff" "h3 = k3 AND 0x7ffffffffffff" "h4 = k4 AND 0x7ffffffffffff"
    using assms(2) by (simp_all add: g fe25519_sub_carry_def Let_def k1_def k2_def k3_def k4_def)
  have t: "unat (19 * drop_bit 51 k4) = 19 * (unat k4 div 2 ^ 51)"
    using unat_19_u64 [of "drop_bit 51 k4"] c4 by (simp add: unat_drop_bit)
  have H0: "unat h0 = unat g0 mod 2 ^ 51 + 19 * (unat k4 div 2 ^ 51)"
    unfolding h using c4 t by (subst unat_add_u64) (simp_all add: unat_and_51)
  show "unat h0 < 2 ^ 51 + 171" using H0 c4 mod_less_divisor [of "2 ^ 51" "unat g0"] by simp
  show "unat h1 < 2 ^ 51" "unat h2 < 2 ^ 51" "unat h3 < 2 ^ 51" "unat h4 < 2 ^ 51" unfolding h unat_and_51 by simp_all
  have "fe_val g = unat g0 mod 2 ^ 51 + 2 ^ 51 * (unat k1 mod 2 ^ 51) + 2 ^ 102 * (unat k2 mod 2 ^ 51) + 2 ^ 153 * (unat k3 mod 2 ^ 51)
      + 2 ^ 204 * (unat k4 mod 2 ^ 51) + 2 ^ 255 * (unat k4 div 2 ^ 51)"
    unfolding g fe_val.simps by (rule fe_pass_arith [of _ "unat g0 div 2 ^ 51" _ _ "unat k1 div 2 ^ 51" _ _ "unat k2 div 2 ^ 51" _ _ "unat k3 div 2 ^ 51"])
      (simp_all only: K1 [symmetric] K2 [symmetric] K3 [symmetric] K4 [symmetric] div_mult_mod_eq)
  from fold_19(2) [OF this] show "fe_val (h0, h1, h2, h3, h4) mod p25519 = fe_val g mod p25519"
    unfolding fe_val.simps H0 unfolding h unat_and_51 by (simp only: ac_simps)
qed

lemma sub_word:
  fixes f h c :: u64
  assumes "unat h \<le> unat c" "unat f + unat c < 2 ^ 64"
  shows "unat ((f + c) - h) = unat f + (unat c - unat h)"
proof -
  have "unat (f + c) = unat f + unat c" using assms(2) by (rule unat_add_u64)
  moreover from this have "h \<le> f + c" using assms(1) by (simp add: word_le_nat_alt)
  ultimately show ?thesis using assms(1) by (simp add: unat_sub)
qed

text \<open>An element as an integer modulo the prime.\<close>

definition fe_res :: "fe25519 \<Rightarrow> int" where
  "fe_res f = int (fe_val f) mod int p25519"

lemma fe_res_eqI: "fe_val f mod p25519 = n mod p25519 \<Longrightarrow> fe_res f = int n mod int p25519"
  by (simp add: fe_res_def flip: zmod_int)

lemma sub_limbs_arith:
  fixes f0 f1 f2 f3 f4 h0 h1 h2 h3 h4 e0 e1 e2 e3 e4 :: nat
  assumes "e0 + h0 = 0xfffffffffffda" "e1 + h1 = 0xffffffffffffe" "e2 + h2 = 0xffffffffffffe" "e3 + h3 = 0xffffffffffffe"
    "e4 + h4 = 0xffffffffffffe"
  shows "(f0 + e0) + 2 ^ 51 * (f1 + e1) + 2 ^ 102 * (f2 + e2) + 2 ^ 153 * (f3 + e3) + 2 ^ 204 * (f4 + e4)
      + (h0 + 2 ^ 51 * h1 + 2 ^ 102 * h2 + 2 ^ 153 * h3 + 2 ^ 204 * h4)
    = (f0 + 2 ^ 51 * f1 + 2 ^ 102 * f2 + 2 ^ 153 * f3 + 2 ^ 204 * f4) + 2 * p25519"
  using assms by (simp add: p25519_def)

lemma fe25519_sub_val:
  assumes "fe_bounded n f" "fe_bounded 54 g" "52 \<le> n" "n < 63"
  shows "fe_res (fe25519_sub f g) = (fe_res f - fe_res g) mod int p25519" "fe_bounded (Suc n) (fe25519_sub f g)"
proof -
  obtain f0 f1 f2 f3 f4 where f: "f = (f0, f1, f2, f3, f4)" by (cases f)
  obtain h0 h1 h2 h3 h4 where h: "fe25519_sub_carry g = (h0, h1, h2, h3, h4)" by (cases "fe25519_sub_carry g")
  note c = fe25519_sub_carry_val [OF assms(2) h]
  have b: "unat f0 < 2 ^ n" "unat f1 < 2 ^ n" "unat f2 < 2 ^ n" "unat f3 < 2 ^ n" "unat f4 < 2 ^ n" using assms(1) by (simp_all add: f)
  have le: "(2 :: nat) ^ n \<le> 2 ^ 62" "(2 :: nat) ^ 52 \<le> 2 ^ n" using assms(3,4) by (intro power_increasing; simp)+
  have s0: "unat ((f0 + 0xfffffffffffda) - h0) = unat f0 + (0xfffffffffffda - unat h0)"
    using sub_word [of h0 "0xfffffffffffda" f0] b le c(2) by simp
  have s: "unat ((x + 0xffffffffffffe) - y) = unat x + (0xffffffffffffe - unat y)" if "unat x < 2 ^ n" "unat y < 2 ^ 51" for x y :: u64
    using sub_word [of y "0xffffffffffffe" x] that le by simp
  have eq: "fe_val (fe25519_sub f g) + fe_val (h0, h1, h2, h3, h4) = fe_val f + 2 * p25519"
    unfolding fe25519_sub_def h fe25519_sub_from_def f prod.case fe_val.simps s0 s [OF b(2) c(3)] s [OF b(3) c(4)] s [OF b(4) c(5)]
      s [OF b(5) c(6)]
    by (rule sub_limbs_arith) (use c(2-6) in simp_all)
  have "int (fe_val (fe25519_sub f g)) = int (fe_val f) - int (fe_val (h0, h1, h2, h3, h4)) + 2 * int p25519"
    using eq by linarith
  then have "fe_res (fe25519_sub f g) = (int (fe_val f) - int (fe_val (h0, h1, h2, h3, h4))) mod int p25519"
    unfolding fe_res_def by simp
  also have "\<dots> = (int (fe_val f) - int (fe_val g)) mod int p25519"
    using arg_cong [OF c(1), of int] unfolding zmod_int by (rule mod_diff_cong [OF refl])
  finally show "fe_res (fe25519_sub f g) = (fe_res f - fe_res g) mod int p25519"
    unfolding fe_res_def by (simp add: mod_diff_eq)
  have "unat ((x + 0xffffffffffffe) - y) < 2 ^ Suc n" if "unat x < 2 ^ n" "unat y < 2 ^ 51" for x y :: u64
    using that le(2) unfolding s [OF that] by simp
  moreover have "unat ((f0 + 0xfffffffffffda) - h0) < 2 ^ Suc n" using b(1) le(2) unfolding s0 by simp
  ultimately show "fe_bounded (Suc n) (fe25519_sub f g)"
    unfolding fe25519_sub_def h fe25519_sub_from_def f prod.case fe_bounded.simps using b c(3-6) by blast
qed

section \<open>Multiplication\<close>

lemma fe_carry_arith:
  fixes l0 l1 l2 l3 l4 c m0 m1 q0 q1 n0 n1 :: nat
  assumes "m0 = l0 + 19 * c" "m0 = q0 * 2 ^ 51 + n0" "m1 = l1 + q0" "m1 = q1 * 2 ^ 51 + n1"
  shows "n0 + 2 ^ 51 * n1 + 2 ^ 102 * (l2 + q1) + 2 ^ 153 * l3 + 2 ^ 204 * l4
    = l0 + 2 ^ 51 * l1 + 2 ^ 102 * l2 + 2 ^ 153 * l3 + 2 ^ 204 * l4 + 19 * c"
  using assms by simp

lemma fe25519_carry_val:
  assumes "unat r0 < 2 ^ 116" "unat r1 < 2 ^ 116" "unat r2 < 2 ^ 116" "unat r3 < 2 ^ 116" "unat r4 < 6 * 2 ^ 108"
  shows "fe_val (fe25519_carry (r0, r1, r2, r3, r4)) mod p25519 = wide_val (r0, r1, r2, r3, r4) mod p25519"
    and "fe_bounded 52 (fe25519_carry (r0, r1, r2, r3, r4))"
proof -
  define k1 where "k1 = r1 + drop_bit 51 r0"
  define k2 where "k2 = r2 + drop_bit 51 k1"
  define k3 where "k3 = r3 + drop_bit 51 k2"
  define k4 where "k4 = r4 + drop_bit 51 k3"
  define m0 :: u64 where "m0 = (ucast r0 AND 0x7ffffffffffff) + 19 * ucast (drop_bit 51 k4)"
  define m1 where "m1 = (ucast k1 AND 0x7ffffffffffff) + drop_bit 51 m0"
  have K1: "unat k1 = unat r1 + unat r0 div 2 ^ 51" unfolding k1_def using assms by (intro carry_u128) simp
  have K2: "unat k2 = unat r2 + unat k1 div 2 ^ 51" unfolding k2_def using assms by (intro carry_u128) simp
  have K3: "unat k3 = unat r3 + unat k2 div 2 ^ 51" unfolding k3_def using assms by (intro carry_u128) simp
  have K4: "unat k4 = unat r4 + unat k3 div 2 ^ 51" unfolding k4_def using assms by (intro carry_u128) simp
  have c3: "unat k3 div 2 ^ 51 < 2 ^ 77" by (rule div_51_less) (use unat_u128_less [of k3] in simp)
  have c4: "unat k4 div 2 ^ 51 < 13 * 2 ^ 56" by (rule div_51_less) (use assms(5) c3 K4 in simp)
  have u4: "unat (ucast (drop_bit 51 k4) :: u64) = unat k4 div 2 ^ 51"
    using unat_ucast_u64 [of "drop_bit 51 k4"] c4 by (simp add: unat_drop_bit)
  have t: "unat (19 * ucast (drop_bit 51 k4) :: u64) = 19 * (unat k4 div 2 ^ 51)"
    using unat_mult_u64 [of 19 "ucast (drop_bit 51 k4)"] c4 unfolding u4 by simp
  have M0: "unat m0 = unat r0 mod 2 ^ 51 + 19 * (unat k4 div 2 ^ 51)"
    unfolding m0_def t [symmetric] unat_ucast_and_51 [symmetric]
    by (rule unat_add_u64) (use c4 in \<open>simp add: t unat_ucast_and_51\<close>)
  have l: "unat (ucast w AND 0x7ffffffffffff :: u64) < 2 ^ 51" for w :: u128 by (simp add: unat_ucast_and_51)
  have l63: "x < 2 ^ 63" if "x < 2 ^ 51" for x :: nat using that by simp
  have M1: "unat m1 = unat k1 mod 2 ^ 51 + unat m0 div 2 ^ 51"
    unfolding m1_def unat_ucast_and_51 [symmetric] by (rule carry_u64 [OF l63 [OF l]])
  have M2: "unat ((ucast k2 AND 0x7ffffffffffff) + drop_bit 51 m1) = unat k2 mod 2 ^ 51 + unat m1 div 2 ^ 51"
    unfolding unat_ucast_and_51 [symmetric] by (rule carry_u64 [OF l63 [OF l]])
  have h: "fe25519_carry (r0, r1, r2, r3, r4) = (m0 AND 0x7ffffffffffff, m1 AND 0x7ffffffffffff,
      (ucast k2 AND 0x7ffffffffffff) + drop_bit 51 m1, ucast k3 AND 0x7ffffffffffff, ucast k4 AND 0x7ffffffffffff)"
    by (simp add: fe25519_carry_def Let_def k1_def k2_def k3_def k4_def m0_def m1_def)
  have "wide_val (r0, r1, r2, r3, r4) = unat r0 mod 2 ^ 51 + 2 ^ 51 * (unat k1 mod 2 ^ 51) + 2 ^ 102 * (unat k2 mod 2 ^ 51)
      + 2 ^ 153 * (unat k3 mod 2 ^ 51) + 2 ^ 204 * (unat k4 mod 2 ^ 51) + 2 ^ 255 * (unat k4 div 2 ^ 51)"
    unfolding wide_val.simps by (rule fe_pass_arith [of _ "unat r0 div 2 ^ 51" _ _ "unat k1 div 2 ^ 51" _ _ "unat k2 div 2 ^ 51" _ _ "unat k3 div 2 ^ 51"])
      (simp_all only: K1 [symmetric] K2 [symmetric] K3 [symmetric] K4 [symmetric] div_mult_mod_eq)
  note fold = fold_19(2) [OF this]
  have "fe_val (fe25519_carry (r0, r1, r2, r3, r4)) = unat r0 mod 2 ^ 51 + 2 ^ 51 * (unat k1 mod 2 ^ 51) + 2 ^ 102 * (unat k2 mod 2 ^ 51)
      + 2 ^ 153 * (unat k3 mod 2 ^ 51) + 2 ^ 204 * (unat k4 mod 2 ^ 51) + 19 * (unat k4 div 2 ^ 51)"
    unfolding h fe_val.simps M2 unat_ucast_and_51 unfolding unat_and_51 by (rule fe_carry_arith [OF M0 _ M1]) (simp_all only: div_mult_mod_eq)
  with fold show "fe_val (fe25519_carry (r0, r1, r2, r3, r4)) mod p25519 = wide_val (r0, r1, r2, r3, r4) mod p25519" by simp
  have "unat m0 div 2 ^ 51 < 2 ^ 13" by (rule div_51_less) (use unat_u64_less [of m0] in simp)
  then have "unat m1 div 2 ^ 51 < 2" using mod_less_divisor [of "2 ^ 51" "unat k1"] by (intro div_51_less) (simp add: M1)
  then have "unat ((ucast k2 AND 0x7ffffffffffff) + drop_bit 51 m1) < 2 ^ 52"
    unfolding M2 using mod_less_divisor [of "2 ^ 51" "unat k2"] by simp
  moreover have "x mod 2 ^ 51 < 2 ^ 52" for x :: nat by (rule less_trans [OF mod_less_divisor]) simp_all
  ultimately show "fe_bounded 52 (fe25519_carry (r0, r1, r2, r3, r4))"
    unfolding h fe_bounded.simps unat_ucast_and_51 unfolding unat_and_51 by blast
qed

text \<open>Sums of products in 128 bits.\<close>

lemma unat_mul_add:
  fixes acc :: u128 and a b :: u64
  assumes "unat acc < 2 ^ 126" "unat a < 2 ^ 60" "unat b < 2 ^ 60"
  shows "unat (acc + ucast a * ucast b) = unat acc + unat a * unat b"
  using unat_add_u128 [of acc "ucast a * ucast b"] assms mult_bound [OF assms(2,3)] by (simp add: unat_mul_u128)

lemma mul_5_bound:
  fixes a1 :: nat
  assumes "a1 < 2 ^ 60" "a2 < 2 ^ 60" "a3 < 2 ^ 60" "a4 < 2 ^ 60" "a5 < 2 ^ 60" "b1 < 2 ^ 55" "b2 < 2 ^ 55" "b3 < 2 ^ 55" "b4 < 2 ^ 55" "b5 < 2 ^ 55"
  shows "a1 * b1 + a2 * b2 + a3 * b3 + a4 * b4 + a5 * b5 < 5 * 2 ^ 115"
  using mult_bound [OF assms(1,6)] mult_bound [OF assms(2,7)] mult_bound [OF assms(3,8)] mult_bound [OF assms(4,9)] mult_bound [OF assms(5,10)]
  by simp

lemma unat_mul_5:
  fixes a1 a2 a3 a4 a5 b1 b2 b3 b4 b5 :: u64
  assumes "unat a1 < 2 ^ 60" "unat a2 < 2 ^ 60" "unat a3 < 2 ^ 60" "unat a4 < 2 ^ 60" "unat a5 < 2 ^ 60"
    "unat b1 < 2 ^ 55" "unat b2 < 2 ^ 55" "unat b3 < 2 ^ 55" "unat b4 < 2 ^ 55" "unat b5 < 2 ^ 55"
  shows "unat (ucast a1 * ucast b1 + ucast a2 * ucast b2 + ucast a3 * ucast b3 + ucast a4 * ucast b4 + ucast a5 * ucast b5 :: u128)
    = unat a1 * unat b1 + unat a2 * unat b2 + unat a3 * unat b3 + unat a4 * unat b4 + unat a5 * unat b5"
proof -
  note total = mul_5_bound [OF assms]
  have up: "x < 2 ^ 60" if "x < 2 ^ 55" for x :: nat using that by simp
  show ?thesis using total
    by (simp add: unat_mul_add [OF _ assms(2) up [OF assms(7)]] unat_mul_add [OF _ assms(3) up [OF assms(8)]]
        unat_mul_add [OF _ assms(4) up [OF assms(9)]] unat_mul_add [OF _ assms(5) up [OF assms(10)]] unat_mul_u128)
qed

text \<open>The schoolbook product with the limbs above the fifth folded back.\<close>

lemma mul_mod_p25519:
  fixes f0 f1 f2 f3 f4 g0 g1 g2 g3 g4 B P :: nat
  assumes "B ^ 5 = P + 19"
  shows "(f0 + B * f1 + B ^ 2 * f2 + B ^ 3 * f3 + B ^ 4 * f4) * (g0 + B * g1 + B ^ 2 * g2 + B ^ 3 * g3 + B ^ 4 * g4)
    = (f0 * g0 + 19 * (f1 * g4 + f2 * g3 + f3 * g2 + f4 * g1)) + B * (f0 * g1 + f1 * g0 + 19 * (f2 * g4 + f3 * g3 + f4 * g2))
      + B ^ 2 * (f0 * g2 + f1 * g1 + f2 * g0 + 19 * (f3 * g4 + f4 * g3)) + B ^ 3 * (f0 * g3 + f1 * g2 + f2 * g1 + f3 * g0 + 19 * (f4 * g4))
      + B ^ 4 * (f0 * g4 + f1 * g3 + f2 * g2 + f3 * g1 + f4 * g0)
      + P * ((f1 * g4 + f2 * g3 + f3 * g2 + f4 * g1) + B * (f2 * g4 + f3 * g3 + f4 * g2) + B ^ 2 * (f3 * g4 + f4 * g3) + B ^ 3 * (f4 * g4))"
proof -
  define c5 where "c5 = f1 * g4 + f2 * g3 + f3 * g2 + f4 * g1"
  define c6 where "c6 = f2 * g4 + f3 * g3 + f4 * g2"
  define c7 where "c7 = f3 * g4 + f4 * g3"
  have "(f0 + B * f1 + B ^ 2 * f2 + B ^ 3 * f3 + B ^ 4 * f4) * (g0 + B * g1 + B ^ 2 * g2 + B ^ 3 * g3 + B ^ 4 * g4)
    = f0 * g0 + B * (f0 * g1 + f1 * g0) + B ^ 2 * (f0 * g2 + f1 * g1 + f2 * g0) + B ^ 3 * (f0 * g3 + f1 * g2 + f2 * g1 + f3 * g0)
      + B ^ 4 * (f0 * g4 + f1 * g3 + f2 * g2 + f3 * g1 + f4 * g0) + B ^ 5 * (c5 + B * c6 + B ^ 2 * c7 + B ^ 3 * (f4 * g4))"
    unfolding c5_def c6_def c7_def by (simp add: algebra_simps eval_nat_numeral)
  then show ?thesis unfolding assms c5_def c6_def c7_def by (simp add: algebra_simps)
qed

lemma radix_powers: "(2 :: nat) ^ 102 = (2 ^ 51) ^ 2" "(2 :: nat) ^ 153 = (2 ^ 51) ^ 3" "(2 :: nat) ^ 204 = (2 ^ 51) ^ 4"
  by (simp_all flip: power_mult)

text \<open>A small multiple of a limb.\<close>

lemma unat_limb_mult:
  assumes "unat f < 2 ^ 54" "unat c \<le> 38"
  shows "unat (c * f :: u64) = unat c * unat f" "unat c * unat f < 2 ^ 60"
proof -
  have "unat c * unat f \<le> 38 * 2 ^ 54" using assms by (intro mult_le_mono) simp_all
  then show "unat c * unat f < 2 ^ 60" by simp
  then show "unat (c * f) = unat c * unat f" by (intro unat_mult_u64) simp
qed

lemma fe25519_mul_wide_val:
  assumes "fe_bounded 54 (f0, f1, f2, f3, f4)" "fe_bounded 54 (g0, g1, g2, g3, g4)"
    and "fe25519_mul_wide (f0, f1, f2, f3, f4) (g0, g1, g2, g3, g4) = (r0, r1, r2, r3, r4)"
  shows "unat r0 = unat f0 * unat g0 + 19 * (unat f1 * unat g4 + unat f2 * unat g3 + unat f3 * unat g2 + unat f4 * unat g1)"
    and "unat r1 = unat f0 * unat g1 + unat f1 * unat g0 + 19 * (unat f2 * unat g4 + unat f3 * unat g3 + unat f4 * unat g2)"
    and "unat r2 = unat f0 * unat g2 + unat f1 * unat g1 + unat f2 * unat g0 + 19 * (unat f3 * unat g4 + unat f4 * unat g3)"
    and "unat r3 = unat f0 * unat g3 + unat f1 * unat g2 + unat f2 * unat g1 + unat f3 * unat g0 + 19 * (unat f4 * unat g4)"
    and "unat r4 = unat f0 * unat g4 + unat f1 * unat g3 + unat f2 * unat g2 + unat f3 * unat g1 + unat f4 * unat g0"
proof -
  have m: "unat (19 * x :: u64) = 19 * unat x" "19 * unat x < 2 ^ 60" if "unat x < 2 ^ 54" for x :: u64
    using unat_limb_mult [of x 19] that by simp_all
  have f: "unat f0 < 2 ^ 54" "unat f1 < 2 ^ 54" "unat f2 < 2 ^ 54" "unat f3 < 2 ^ 54" "unat f4 < 2 ^ 54" using assms(1) by simp_all
  have up: "x < 2 ^ 60" "x < 2 ^ 55" if "x < 2 ^ 54" for x :: nat using that by simp_all
  have g: "unat g0 < 2 ^ 55" "unat g1 < 2 ^ 55" "unat g2 < 2 ^ 55" "unat g3 < 2 ^ 55" "unat g4 < 2 ^ 55" using assms(2) by simp_all
  have F: "unat f0 < 2 ^ 60" "unat f1 < 2 ^ 60" "unat f2 < 2 ^ 60" "unat f3 < 2 ^ 60" "unat f4 < 2 ^ 60" using f up by blast+
  have N: "unat (19 * f1) < 2 ^ 60" "unat (19 * f2) < 2 ^ 60" "unat (19 * f3) < 2 ^ 60" "unat (19 * f4) < 2 ^ 60" using m f by simp_all
  note r = assms(3) [unfolded fe25519_mul_wide_def Let_def prod.case prod.inject]
  show "unat r0 = unat f0 * unat g0 + 19 * (unat f1 * unat g4 + unat f2 * unat g3 + unat f3 * unat g2 + unat f4 * unat g1)"
    using r unat_mul_5 [OF F(1) N g(1,5,4,3,2)] m(1) f by (simp add: algebra_simps)
  show "unat r1 = unat f0 * unat g1 + unat f1 * unat g0 + 19 * (unat f2 * unat g4 + unat f3 * unat g3 + unat f4 * unat g2)"
    using r unat_mul_5 [OF F(1,2) N(2-4) g(2,1,5,4,3)] m(1) f by (simp add: algebra_simps)
  show "unat r2 = unat f0 * unat g2 + unat f1 * unat g1 + unat f2 * unat g0 + 19 * (unat f3 * unat g4 + unat f4 * unat g3)"
    using r unat_mul_5 [OF F(1,2,3) N(3,4) g(3,2,1,5,4)] m(1) f by (simp add: algebra_simps)
  show "unat r3 = unat f0 * unat g3 + unat f1 * unat g2 + unat f2 * unat g1 + unat f3 * unat g0 + 19 * (unat f4 * unat g4)"
    using r unat_mul_5 [OF F(1,2,3,4) N(4) g(4,3,2,1,5)] m(1) f by (simp add: algebra_simps)
  show "unat r4 = unat f0 * unat g4 + unat f1 * unat g3 + unat f2 * unat g2 + unat f3 * unat g1 + unat f4 * unat g0"
    using r unat_mul_5 [OF F g(5,4,3,2,1)] by simp
qed

lemma fe25519_mul_val:
  assumes "fe_bounded 54 f" "fe_bounded 54 g"
  shows "fe_res (fe25519_mul f g) = fe_res f * fe_res g mod int p25519" "fe_bounded 52 (fe25519_mul f g)"
proof -
  obtain f0 f1 f2 f3 f4 where f: "f = (f0, f1, f2, f3, f4)" by (cases f)
  obtain g0 g1 g2 g3 g4 where g: "g = (g0, g1, g2, g3, g4)" by (cases g)
  obtain r0 r1 r2 r3 r4 where r: "fe25519_mul_wide f g = (r0, r1, r2, r3, r4)" by (cases "fe25519_mul_wide f g")
  note w = fe25519_mul_wide_val [OF assms [unfolded f g] r [unfolded f g]]
  have b: "x * y < 2 ^ 108" if "x < 2 ^ 54" "y < 2 ^ 54" for x y :: nat using mult_bound [OF that] by simp
  have p: "unat x * unat y < 2 ^ 108" if "x \<in> {f0, f1, f2, f3, f4}" "y \<in> {g0, g1, g2, g3, g4}" for x y
    using that assms by (intro b) (auto simp: f g)
  have b0: "unat r0 < 2 ^ 116"
    unfolding w using p [of f0 g0] p [of f1 g4] p [of f2 g3] p [of f3 g2] p [of f4 g1] by simp
  have b1: "unat r1 < 2 ^ 116"
    unfolding w using p [of f0 g1] p [of f1 g0] p [of f2 g4] p [of f3 g3] p [of f4 g2] by simp
  have b2: "unat r2 < 2 ^ 116"
    unfolding w using p [of f0 g2] p [of f1 g1] p [of f2 g0] p [of f3 g4] p [of f4 g3] by simp
  have b3: "unat r3 < 2 ^ 116"
    unfolding w using p [of f0 g3] p [of f1 g2] p [of f2 g1] p [of f3 g0] p [of f4 g4] by simp
  have b4: "unat r4 < 6 * 2 ^ 108"
    unfolding w using p [of f0 g4] p [of f1 g3] p [of f2 g2] p [of f3 g1] p [of f4 g0] by simp
  note c = fe25519_carry_val [OF b0 b1 b2 b3 b4]
  have "fe_val f * fe_val g = wide_val (r0, r1, r2, r3, r4) + p25519 * ((unat f1 * unat g4 + unat f2 * unat g3 + unat f3 * unat g2 + unat f4 * unat g1)
      + 2 ^ 51 * (unat f2 * unat g4 + unat f3 * unat g3 + unat f4 * unat g2) + (2 ^ 51) ^ 2 * (unat f3 * unat g4 + unat f4 * unat g3)
      + (2 ^ 51) ^ 3 * (unat f4 * unat g4))"
    unfolding f g fe_val.simps wide_val.simps radix_powers w by (rule mul_mod_p25519) (simp add: p25519_def)
  then have "fe_val (fe25519_mul f g) mod p25519 = fe_val f * fe_val g mod p25519"
    using c(1) unfolding fe25519_mul_def r by simp
  then show "fe_res (fe25519_mul f g) = fe_res f * fe_res g mod int p25519"
    using fe_res_eqI [of "fe25519_mul f g" "fe_val f * fe_val g"] by (simp add: fe_res_def mod_mult_eq)
  show "fe_bounded 52 (fe25519_mul f g)" unfolding fe25519_mul_def r by (rule c(2))
qed

end
