(* ===== verification/Fe25519_Ops.thy ===== *)
theory Fe25519_Ops
  imports Fe25519_Correct
begin

text \<open>
  Squaring, doubling of a square, multiplication by a small number, negation, and the conditional move
  and swap of field elements.
\<close>

unbundle bit_operations_syntax

section \<open>Squares\<close>

lemma unat_double_limb: "unat (f :: u64) < 2 ^ 54 \<Longrightarrow> unat (push_bit 1 f) = 2 * unat f"
  using unat_limb_mult(1) [of f 2] by (simp add: push_bit_eq_mult mult.commute [of f])

lemma unat_mul_3:
  fixes a1 a2 a3 b1 b2 b3 :: u64
  assumes "unat a1 < 2 ^ 60" "unat a2 < 2 ^ 60" "unat a3 < 2 ^ 60" "unat b1 < 2 ^ 55" "unat b2 < 2 ^ 55" "unat b3 < 2 ^ 55"
  shows "unat (ucast a1 * ucast b1 + ucast a2 * ucast b2 + ucast a3 * ucast b3 :: u128)
    = unat a1 * unat b1 + unat a2 * unat b2 + unat a3 * unat b3"
  using unat_mul_5 [of a1 a2 a3 0 0 b1 b2 b3 0 0] assms by simp

text \<open>Squaring is the multiplication with equal arguments, with the symmetric products taken together.\<close>

lemma fe25519_sq_wide_eq:
  assumes "fe_bounded 54 f"
  shows "fe25519_sq_wide f = fe25519_mul_wide f f"
proof -
  obtain f0 f1 f2 f3 f4 where f: "f = (f0, f1, f2, f3, f4)" by (cases f)
  obtain r0 r1 r2 r3 r4 where r: "fe25519_mul_wide f f = (r0, r1, r2, r3, r4)" by (cases "fe25519_mul_wide f f")
  note w = fe25519_mul_wide_val [OF assms [unfolded f] assms [unfolded f] r [unfolded f]]
  have b: "unat f0 < 2 ^ 54" "unat f1 < 2 ^ 54" "unat f2 < 2 ^ 54" "unat f3 < 2 ^ 54" "unat f4 < 2 ^ 54" using assms by (simp_all add: f)
  have u: "unat f0 < 2 ^ 55" "unat f1 < 2 ^ 55" "unat f2 < 2 ^ 55" "unat f3 < 2 ^ 55" "unat f4 < 2 ^ 55" using b by simp_all
  have u60: "unat f0 < 2 ^ 60" "unat f1 < 2 ^ 60" "unat f2 < 2 ^ 60" using b by simp_all
  have d: "unat (push_bit 1 x) = 2 * unat x" "unat (push_bit 1 x) < 2 ^ 60" if "unat x < 2 ^ 54" for x :: u64
    using unat_double_limb [OF that] that by simp_all
  have m: "unat (19 * x :: u64) = 19 * unat x" "unat (19 * x :: u64) < 2 ^ 60" if "unat x < 2 ^ 54" for x :: u64
    using unat_limb_mult [of x 19] that by simp_all
  have n: "unat (38 * x :: u64) = 38 * unat x" "unat (38 * x :: u64) < 2 ^ 60" if "unat x < 2 ^ 54" for x :: u64
    using unat_limb_mult [of x 38] that by simp_all
  have "unat (ucast f0 * ucast f0 + ucast (38 * f1) * ucast f4 + ucast (38 * f2) * ucast f3 :: u128) = unat r0"
    unfolding w unat_mul_3 [OF u60(1) n(2) [OF b(2)] n(2) [OF b(3)] u(1,5,4)] n(1) [OF b(2)] n(1) [OF b(3)] by simp
  moreover have "unat (ucast (push_bit 1 f0) * ucast f1 + ucast (38 * f2) * ucast f4 + ucast (19 * f3) * ucast f3 :: u128) = unat r1"
    unfolding w unat_mul_3 [OF d(2) [OF b(1)] n(2) [OF b(3)] m(2) [OF b(4)] u(2,5,4)] d(1) [OF b(1)] n(1) [OF b(3)] m(1) [OF b(4)] by simp
  moreover have "unat (ucast (push_bit 1 f0) * ucast f2 + ucast f1 * ucast f1 + ucast (38 * f3) * ucast f4 :: u128) = unat r2"
    unfolding w unat_mul_3 [OF d(2) [OF b(1)] u60(2) n(2) [OF b(4)] u(3,2,5)] d(1) [OF b(1)] n(1) [OF b(4)] by simp
  moreover have "unat (ucast (push_bit 1 f0) * ucast f3 + ucast (push_bit 1 f1) * ucast f2 + ucast (19 * f4) * ucast f4 :: u128) = unat r3"
    unfolding w unat_mul_3 [OF d(2) [OF b(1)] d(2) [OF b(2)] m(2) [OF b(5)] u(4,3,5)] d(1) [OF b(1)] d(1) [OF b(2)] m(1) [OF b(5)] by simp
  moreover have "unat (ucast (push_bit 1 f0) * ucast f4 + ucast (push_bit 1 f1) * ucast f3 + ucast f2 * ucast f2 :: u128) = unat r4"
    unfolding w unat_mul_3 [OF d(2) [OF b(1)] d(2) [OF b(2)] u60(3) u(5,4,3)] d(1) [OF b(1)] d(1) [OF b(2)] by simp
  ultimately show ?thesis unfolding r unfolding f fe25519_sq_wide_def Let_def prod.case by (simp add: word_unat_eq_iff)
qed

lemma fe25519_sq_val:
  assumes "fe_bounded 54 f"
  shows "fe_res (fe25519_sq f) = fe_res f ^ 2 mod int p25519" "fe_bounded 52 (fe25519_sq f)"
  using fe25519_mul_val [OF assms assms] unfolding fe25519_sq_def fe25519_sq_wide_eq [OF assms] fe25519_mul_def power2_eq_square
  by simp_all

text \<open>\<open>fe25519_sq2\<close> doubles the products before it carries, so its argument has one bit less.\<close>

lemma fe25519_sq2_val:
  assumes "fe_bounded 53 f"
  shows "fe_res (fe25519_sq2 f) = 2 * fe_res f ^ 2 mod int p25519" "fe_bounded 52 (fe25519_sq2 f)"
proof -
  obtain f0 f1 f2 f3 f4 where f: "f = (f0, f1, f2, f3, f4)" by (cases f)
  obtain r0 r1 r2 r3 r4 where r: "fe25519_mul_wide f f = (r0, r1, r2, r3, r4)" by (cases "fe25519_mul_wide f f")
  have b54: "fe_bounded 54 f" using assms by (simp add: f)
  note w = fe25519_mul_wide_val [OF b54 [unfolded f] b54 [unfolded f] r [unfolded f]]
  have p: "unat x * unat y < 2 ^ 106" if "x \<in> {f0, f1, f2, f3, f4}" "y \<in> {f0, f1, f2, f3, f4}" for x y
  proof -
    have "unat x < 2 ^ 53" "unat y < 2 ^ 53" using that assms by (auto simp: f)
    from mult_bound [OF this] show ?thesis by simp
  qed
  have b0: "unat r0 < 77 * 2 ^ 106" unfolding w using p [of f0 f0] p [of f1 f4] p [of f2 f3] p [of f3 f2] p [of f4 f1] by simp
  have b1: "unat r1 < 77 * 2 ^ 106" unfolding w using p [of f0 f1] p [of f1 f0] p [of f2 f4] p [of f3 f3] p [of f4 f2] by simp
  have b2: "unat r2 < 77 * 2 ^ 106" unfolding w using p [of f0 f2] p [of f1 f1] p [of f2 f0] p [of f3 f4] p [of f4 f3] by simp
  have b3: "unat r3 < 77 * 2 ^ 106" unfolding w using p [of f0 f3] p [of f1 f2] p [of f2 f1] p [of f3 f0] p [of f4 f4] by simp
  have b4: "unat r4 < 5 * 2 ^ 106" unfolding w using p [of f0 f4] p [of f1 f3] p [of f2 f2] p [of f3 f1] p [of f4 f0] by simp
  have dbl: "unat (push_bit 1 x) = 2 * unat x" if "unat x < 77 * 2 ^ 106" for x :: u128
    using unat_add_u128 [of x x] that by (simp add: push_bit_eq_mult mult_2_right)
  have r4': "unat r4 < 77 * 2 ^ 106" using b4 by simp
  note D = dbl [OF b0] dbl [OF b1] dbl [OF b2] dbl [OF b3] dbl [OF r4']
  have "unat (push_bit 1 r0) < 2 ^ 116" "unat (push_bit 1 r1) < 2 ^ 116" "unat (push_bit 1 r2) < 2 ^ 116" "unat (push_bit 1 r3) < 2 ^ 116"
    "unat (push_bit 1 r4) < 6 * 2 ^ 108" unfolding D using b0 b1 b2 b3 b4 by simp_all
  note c = fe25519_carry_val [OF this]
  have s2: "fe25519_sq2 f = fe25519_carry (push_bit 1 r0, push_bit 1 r1, push_bit 1 r2, push_bit 1 r3, push_bit 1 r4)"
    unfolding fe25519_sq2_def fe25519_sq_wide_eq [OF b54] r by simp
  have "unat r0 < 2 ^ 116" "unat r1 < 2 ^ 116" "unat r2 < 2 ^ 116" "unat r3 < 2 ^ 116" "unat r4 < 6 * 2 ^ 108"
    using b0 b1 b2 b3 b4 by simp_all
  note c1 = fe25519_carry_val(1) [OF this]
  have "wide_val (push_bit 1 r0, push_bit 1 r1, push_bit 1 r2, push_bit 1 r3, push_bit 1 r4) = 2 * wide_val (r0, r1, r2, r3, r4)"
    unfolding wide_val.simps D by simp
  with c(1) have "fe_val (fe25519_sq2 f) mod p25519 = 2 * wide_val (r0, r1, r2, r3, r4) mod p25519" unfolding s2 by (simp only:)
  also have "\<dots> = 2 * (fe_val (fe25519_mul f f) mod p25519) mod p25519" unfolding fe25519_mul_def r c1 by (simp only: mod_mult_right_eq)
  finally have "fe_val (fe25519_sq2 f) mod p25519 = 2 * fe_val (fe25519_mul f f) mod p25519" by (simp only: mod_mult_right_eq)
  from fe_res_eqI [OF this] have "fe_res (fe25519_sq2 f) = 2 * fe_res (fe25519_mul f f) mod int p25519"
    by (simp add: fe_res_def mod_mult_right_eq)
  then show "fe_res (fe25519_sq2 f) = 2 * fe_res f ^ 2 mod int p25519"
    unfolding fe25519_mul_val(1) [OF b54 b54] by (simp add: mod_mult_right_eq power2_eq_square)
  show "fe_bounded 52 (fe25519_sq2 f)" unfolding s2 by (rule c(2))
qed

section \<open>Multiplication by a 32-bit number\<close>

lemma mul32_arith:
  fixes a0 a1 a2 a3 a4 c0 c1 c2 c3 c4 l0 l1 l2 l3 l4 f0 f1 f2 f3 f4 n :: nat
  assumes "f0 * n = c0 * 2 ^ 51 + l0" "f1 * n + c0 = c1 * 2 ^ 51 + l1" "f2 * n + c1 = c2 * 2 ^ 51 + l2"
    "f3 * n + c2 = c3 * 2 ^ 51 + l3" "f4 * n + c3 = c4 * 2 ^ 51 + l4"
  shows "(f0 + 2 ^ 51 * f1 + 2 ^ 102 * f2 + 2 ^ 153 * f3 + 2 ^ 204 * f4) * n
    = l0 + 2 ^ 51 * l1 + 2 ^ 102 * l2 + 2 ^ 153 * l3 + 2 ^ 204 * l4 + 2 ^ 255 * c4"
  using fe_pass_arith [OF assms] by (simp add: algebra_simps)

lemma fe25519_mul32_val:
  assumes "fe_bounded 54 f"
  shows "fe_res (fe25519_mul32 f n) = fe_res f * int (unat n) mod int p25519" "fe_bounded 52 (fe25519_mul32 f n)"
proof -
  obtain f0 f1 f2 f3 f4 where f: "f = (f0, f1, f2, f3, f4)" by (cases f)
  have b: "unat f0 < 2 ^ 54" "unat f1 < 2 ^ 54" "unat f2 < 2 ^ 54" "unat f3 < 2 ^ 54" "unat f4 < 2 ^ 54" using assms by (simp_all add: f)
  have sn: "unat (ucast n :: u128) = unat n" 
    unfolding unsigned_ucast_eq by (rule take_bit_nat_eq_self) (rule less_trans [OF unat_u32_less], simp)
  have prod: "unat (ucast x * ucast n :: u128) = unat x * unat n" "unat x * unat n < 2 ^ 86" if "unat x < 2 ^ 54" for x :: u64
  proof -
    have "unat n < 2 ^ 32" using unat_u32_less [of n] by simp
    from mult_bound [OF that this] show "unat x * unat n < 2 ^ 86" by simp
    then show "unat (ucast x * ucast n :: u128) = unat x * unat n" by (simp add: unat_word_ariths sn)
  qed
  have step: "unat (ucast x * ucast n + ucast (ucast (drop_bit 51 a) :: u64) :: u128) = unat x * unat n + unat a div 2 ^ 51"
      "unat x * unat n + unat a div 2 ^ 51 < 2 ^ 87"
    if "unat x < 2 ^ 54" "unat a < 2 ^ 87" for x :: u64 and a :: u128
  proof -
    have c: "unat a div 2 ^ 51 < 2 ^ 36" by (rule div_51_less) (use that(2) in simp)
    then have "unat (ucast (drop_bit 51 a) :: u64) = unat a div 2 ^ 51"
      using unat_ucast_u64 [of "drop_bit 51 a"] by (simp add: unat_drop_bit)
    then show "unat (ucast x * ucast n + ucast (ucast (drop_bit 51 a) :: u64) :: u128) = unat x * unat n + unat a div 2 ^ 51"
      using unat_add_u128 [of "ucast x * ucast n" "ucast (ucast (drop_bit 51 a) :: u64)"] prod [OF that(1)] c by simp
    show "unat x * unat n + unat a div 2 ^ 51 < 2 ^ 87" using prod(2) [OF that(1)] c by simp
  qed
  define a0 :: u128 where "a0 = ucast f0 * ucast n"
  define a1 :: u128 where "a1 = ucast f1 * ucast n + ucast (ucast (drop_bit 51 a0) :: u64)"
  define a2 :: u128 where "a2 = ucast f2 * ucast n + ucast (ucast (drop_bit 51 a1) :: u64)"
  define a3 :: u128 where "a3 = ucast f3 * ucast n + ucast (ucast (drop_bit 51 a2) :: u64)"
  define a4 :: u128 where "a4 = ucast f4 * ucast n + ucast (ucast (drop_bit 51 a3) :: u64)"
  have A0: "unat a0 = unat f0 * unat n" "unat a0 < 2 ^ 87" using prod [OF b(1)] by (simp_all add: a0_def)
  have A1: "unat a1 = unat f1 * unat n + unat a0 div 2 ^ 51" "unat a1 < 2 ^ 87" using step [OF b(2) A0(2)] by (simp_all only: a1_def)
  have A2: "unat a2 = unat f2 * unat n + unat a1 div 2 ^ 51" "unat a2 < 2 ^ 87" using step [OF b(3) A1(2)] by (simp_all only: a2_def)
  have A3: "unat a3 = unat f3 * unat n + unat a2 div 2 ^ 51" "unat a3 < 2 ^ 87" using step [OF b(4) A2(2)] by (simp_all only: a3_def)
  have A4: "unat a4 = unat f4 * unat n + unat a3 div 2 ^ 51" "unat a4 < 2 ^ 87" using step [OF b(5) A3(2)] by (simp_all only: a4_def)
  have c4: "unat a4 div 2 ^ 51 < 2 ^ 36" by (rule div_51_less) (use A4(2) in simp)
  have "unat (drop_bit 51 a4 * 19) = unat a4 div 2 ^ 51 * 19" using c4 by (simp add: unat_word_ariths unat_drop_bit)
  then have t: "unat (ucast (drop_bit 51 a4 * 19) :: u64) = 19 * (unat a4 div 2 ^ 51)"
    using unat_ucast_u64 [of "drop_bit 51 a4 * 19"] c4 by simp
  have h: "fe25519_mul32 f n = ((ucast a0 AND 0x7ffffffffffff) + ucast (drop_bit 51 a4 * 19), ucast a1 AND 0x7ffffffffffff,
      ucast a2 AND 0x7ffffffffffff, ucast a3 AND 0x7ffffffffffff, ucast a4 AND 0x7ffffffffffff)"
    by (simp add: f fe25519_mul32_def Let_def a0_def a1_def a2_def a3_def a4_def)
  have h0: "unat ((ucast a0 AND 0x7ffffffffffff) + ucast (drop_bit 51 a4 * 19) :: u64) = unat a0 mod 2 ^ 51 + 19 * (unat a4 div 2 ^ 51)"
    unfolding t [symmetric] unat_ucast_and_51 [symmetric]
    by (rule unat_add_u64) (use c4 t in \<open>simp add: unat_ucast_and_51\<close>)
  have "fe_val f * unat n = unat a0 mod 2 ^ 51 + 2 ^ 51 * (unat a1 mod 2 ^ 51) + 2 ^ 102 * (unat a2 mod 2 ^ 51) + 2 ^ 153 * (unat a3 mod 2 ^ 51)
      + 2 ^ 204 * (unat a4 mod 2 ^ 51) + 2 ^ 255 * (unat a4 div 2 ^ 51)"
    unfolding f fe_val.simps
    by (rule mul32_arith [of _ _ "unat a0 div 2 ^ 51" _ _ "unat a1 div 2 ^ 51" _ _ "unat a2 div 2 ^ 51" _ _ "unat a3 div 2 ^ 51"]) (simp_all only: A0(1) [symmetric] A1(1) [symmetric] A2(1) [symmetric] A3(1) [symmetric] A4(1) [symmetric] div_mult_mod_eq)
  from fold_19(2) [OF this] have "fe_val (fe25519_mul32 f n) mod p25519 = fe_val f * unat n mod p25519"
    unfolding h fe_val.simps h0 unat_ucast_and_51 by (simp only: ac_simps)
  from fe_res_eqI [OF this] show "fe_res (fe25519_mul32 f n) = fe_res f * int (unat n) mod int p25519"
    by (simp add: fe_res_def mod_mult_left_eq)
  have "x mod 2 ^ 51 < 2 ^ 52" for x :: nat by (rule less_trans [OF mod_less_divisor]) simp_all
  moreover have "unat a0 mod 2 ^ 51 + 19 * (unat a4 div 2 ^ 51) < 2 ^ 52" using c4 mod_less_divisor [of "2 ^ 51" "unat a0"] by simp
  ultimately show "fe_bounded 52 (fe25519_mul32 f n)" unfolding h fe_bounded.simps h0 unat_ucast_and_51 by blast
qed

end
