(* ===== verification/Fe25519_Bytes.thy ===== *)
theory Fe25519_Bytes
  imports Fe25519_Correct
begin

text \<open>
  Field elements and their 32-byte encodings: \<open>fe25519_frombytes\<close> reads the number modulo \<open>2 ^ 255\<close>,
  \<open>fe25519_reduce\<close> gives the one representation below the prime, whatever the limbs, and
  \<open>fe25519_tobytes\<close> writes it.
\<close>

unbundle bit_operations_syntax

section \<open>Passes of carries\<close>

fun wide_bounded :: "nat \<Rightarrow> fe25519_wide \<Rightarrow> bool" where
  "wide_bounded n (a, b, c, d, e) \<longleftrightarrow> unat a < 2 ^ n \<and> unat b < 2 ^ n \<and> unat c < 2 ^ n \<and> unat d < 2 ^ n \<and> unat e < 2 ^ n"

lemma wide_val_less: "wide_bounded 51 t \<Longrightarrow> wide_val t < 2 ^ 255"
  by (cases t) simp

lemma wide_val_less_65: "wide_bounded 65 t \<Longrightarrow> wide_val t < 2 ^ 270"
  by (cases t) simp

lemma fe25519_pass_val:
  assumes "wide_bounded 65 t" "fe25519_pass t = (r, c)"
  shows "wide_val t = wide_val r + 2 ^ 255 * unat c" "wide_bounded 51 r"
proof -
  obtain t0 t1 t2 t3 t4 where t: "t = (t0, t1, t2, t3, t4)" by (cases t)
  have b: "unat t1 < 2 ^ 127" "unat t2 < 2 ^ 127" "unat t3 < 2 ^ 127" "unat t4 < 2 ^ 127" using assms(1) by (simp_all add: t)
  define u1 where "u1 = t1 + drop_bit 51 t0"
  define u2 where "u2 = t2 + drop_bit 51 u1"
  define u3 where "u3 = t3 + drop_bit 51 u2"
  define u4 where "u4 = t4 + drop_bit 51 u3"
  have U: "unat u1 = unat t1 + unat t0 div 2 ^ 51" "unat u2 = unat t2 + unat u1 div 2 ^ 51" "unat u3 = unat t3 + unat u2 div 2 ^ 51"
      "unat u4 = unat t4 + unat u3 div 2 ^ 51"
    unfolding u1_def u2_def u3_def u4_def by (rule carry_u128 [OF b(1)] carry_u128 [OF b(2)] carry_u128 [OF b(3)] carry_u128 [OF b(4)])+
  have r: "r = (t0 AND 0x7ffffffffffff, u1 AND 0x7ffffffffffff, u2 AND 0x7ffffffffffff, u3 AND 0x7ffffffffffff, u4 AND 0x7ffffffffffff)"
      "c = drop_bit 51 u4"
    using assms(2) by (simp_all add: t fe25519_pass_def Let_def u1_def u2_def u3_def u4_def)
  show "wide_val t = wide_val r + 2 ^ 255 * unat c"
    unfolding r t wide_val.simps unat_and_51 unat_drop_bit
    by (rule fe_pass_arith [of _ "unat t0 div 2 ^ 51" _ _ "unat u1 div 2 ^ 51" _ _ "unat u2 div 2 ^ 51" _ _ "unat u3 div 2 ^ 51"])
      (simp_all only: U [symmetric] div_mult_mod_eq)
  show "wide_bounded 51 r" unfolding r wide_bounded.simps unat_and_51 by simp
qed

lemma div_mod_unique:
  fixes v l c m :: nat
  assumes "v = l + m * c" "l < m"
  shows "v div m = c" "v mod m = l"
  using assms by simp_all

lemma fe25519_pass_div_mod:
  assumes "wide_bounded 65 t" "fe25519_pass t = (r, c)"
  shows "wide_val r = wide_val t mod 2 ^ 255" "unat c = wide_val t div 2 ^ 255" "wide_bounded 51 r"
  using div_mod_unique [OF fe25519_pass_val(1) [OF assms] wide_val_less [OF fe25519_pass_val(2) [OF assms]]]
    fe25519_pass_val(2) [OF assms] by (simp_all only:)

text \<open>With the carry out of the top folded back, the value is kept modulo the prime.\<close>

lemma fe25519_pass_19_val:
  assumes "wide_bounded 65 t"
  shows "wide_val (fe25519_pass_19 t) = wide_val t mod 2 ^ 255 + 19 * (wide_val t div 2 ^ 255)" "wide_bounded 52 (fe25519_pass_19 t)"
    "wide_val t < 2 ^ 255 + 2 ^ 25 \<Longrightarrow> wide_bounded 51 (fe25519_pass_19 t)"
proof -
  obtain r0 r1 r2 r3 r4 c where r: "fe25519_pass t = ((r0, r1, r2, r3, r4), c)" by (metis prod.collapse)
  note d = fe25519_pass_div_mod [OF assms r]
  have b: "unat r0 < 2 ^ 51" "unat r1 < 2 ^ 51" "unat r2 < 2 ^ 51" "unat r3 < 2 ^ 51" "unat r4 < 2 ^ 51" using d(3) by simp_all
  have "unat c < 2 ^ 15" unfolding d(2) by (rule less_mult_imp_div_less) (use wide_val_less_65 [OF assms] in simp)
  then have s: "unat (r0 + 19 * c) = unat r0 + 19 * unat c" using b(1) by (simp add: unat_word_ariths)
  show "wide_val (fe25519_pass_19 t) = wide_val t mod 2 ^ 255 + 19 * (wide_val t div 2 ^ 255)"
    unfolding d(1) [symmetric] d(2) [symmetric] fe25519_pass_19_def r prod.case wide_val.simps s by (simp only: ac_simps)
  show "wide_bounded 52 (fe25519_pass_19 t)"
    unfolding fe25519_pass_19_def r prod.case wide_bounded.simps s using b \<open>unat c < 2 ^ 15\<close> by simp
  assume lt: "wide_val t < 2 ^ 255 + 2 ^ 25"
  have "unat r0 + 19 * unat c < 2 ^ 51"
  proof (cases "wide_val t < 2 ^ 255")
    case True
    then have "unat c = 0" unfolding d(2) by (rule div_less)
    then show ?thesis using b(1) by simp
  next
    case False
    with lt have "wide_val t mod 2 ^ 255 < 2 ^ 25" "wide_val t div 2 ^ 255 = 1"
      using div_mod_unique [of "wide_val t" "wide_val t - 2 ^ 255" "2 ^ 255" 1] by simp_all
    then show ?thesis unfolding d(1) [symmetric] d(2) [symmetric] by simp
  qed
  then show "wide_bounded 51 (fe25519_pass_19 t)"
    unfolding fe25519_pass_19_def r prod.case wide_bounded.simps s using b by simp
qed

section \<open>Full reduction\<close>

lemma fold_19_mod: "((v :: nat) mod 2 ^ 255 + 19 * (v div 2 ^ 255)) mod p25519 = v mod p25519"
  by (rule fold_19(2)) (simp only: mod_mult_div_eq)

lemma third_pass:
  fixes v :: nat
  assumes "v < 2 ^ 255"
  shows "(v + 19) mod 2 ^ 255 + 19 * ((v + 19) div 2 ^ 255) + (2 ^ 255 - 19) = v mod p25519 + 2 ^ 255"
proof (cases "v < p25519")
  case True
  then have "v + 19 < 2 ^ 255" unfolding p25519_eq by simp
  then show ?thesis using True by simp
next
  case False
  define w where "w = v - p25519"
  have v: "v = w + p25519" using False by (simp add: w_def)
  have w: "w < 19" using assms unfolding v p25519_eq by simp
  have "v + 19 = w + 2 ^ 255 * 1" unfolding v p25519_eq by simp
  from div_mod_unique [OF this] w have "(v + 19) div 2 ^ 255 = 1" "(v + 19) mod 2 ^ 255 = w" by simp_all
  moreover have "v mod p25519 = w" unfolding v using w by (simp add: p25519_def)
  ultimately show ?thesis by simp
qed

lemma first_passes_bound:
  fixes v w :: nat
  assumes "v < 2 ^ 270" "w = v mod 2 ^ 255 + 19 * (v div 2 ^ 255)"
  shows "w < 2 ^ 255 + 2 ^ 25"
proof -
  have "v div 2 ^ 255 < 2 ^ 15" by (rule less_mult_imp_div_less) (use assms(1) in simp)
  moreover have "v mod 2 ^ 255 < 2 ^ 255" by (rule mod_less_divisor) simp
  ultimately show ?thesis unfolding assms(2) by simp
qed

lemma wide_add_limbs:
  assumes "wide_bounded 51 (t0, t1, t2, t3, t4)" "unat a \<le> 2 ^ 51" "unat b \<le> 2 ^ 51"
  shows "wide_val (t0 + a, t1 + b, t2 + b, t3 + b, t4 + b)
      = wide_val (t0, t1, t2, t3, t4) + (unat a + 2 ^ 51 * unat b + 2 ^ 102 * unat b + 2 ^ 153 * unat b + 2 ^ 204 * unat b)"
    "wide_bounded 65 (t0 + a, t1 + b, t2 + b, t3 + b, t4 + b)"
proof -
  have t: "unat t0 < 2 ^ 51" "unat t1 < 2 ^ 51" "unat t2 < 2 ^ 51" "unat t3 < 2 ^ 51" "unat t4 < 2 ^ 51" using assms(1) by simp_all
  have s: "unat (x + y) = unat x + unat y" if "unat x < 2 ^ 51" "unat y \<le> 2 ^ 51" for x y :: u128
    by (rule unat_add_u128) (use that in simp)
  note S = s [OF t(1) assms(2)] s [OF t(2) assms(3)] s [OF t(3) assms(3)] s [OF t(4) assms(3)] s [OF t(5) assms(3)]
  show "wide_val (t0 + a, t1 + b, t2 + b, t3 + b, t4 + b)
      = wide_val (t0, t1, t2, t3, t4) + (unat a + 2 ^ 51 * unat b + 2 ^ 102 * unat b + 2 ^ 153 * unat b + 2 ^ 204 * unat b)"
    unfolding wide_val.simps S by (simp add: algebra_simps)
  show "wide_bounded 65 (t0 + a, t1 + b, t2 + b, t3 + b, t4 + b)"
    unfolding wide_bounded.simps S using t assms(2,3) by simp
qed

lemma fe25519_reduce_val: "fe_val (fe25519_reduce f) = fe_val f mod p25519" "fe_bounded 51 (fe25519_reduce f)"
proof -
  obtain f0 f1 f2 f3 f4 where f: "f = (f0, f1, f2, f3, f4)" by (cases f)
  define t where "t = (ucast f0 :: u128, ucast f1 :: u128, ucast f2 :: u128, ucast f3 :: u128, ucast f4 :: u128)"
  have b: "wide_bounded 65 t" unfolding t_def wide_bounded.simps unat_ucast_u128
    by (intro conjI less_trans [OF unat_u64_less]) simp_all
  have v: "wide_val t = fe_val f" by (simp add: t_def f)
  define t1 where "t1 = fe25519_pass_19 t"
  note p1 = fe25519_pass_19_val [OF b, folded t1_def]
  have b1: "wide_bounded 65 t1" using p1(2) by (cases t1) simp
  define t2 where "t2 = fe25519_pass_19 t1"
  note p2 = fe25519_pass_19_val [OF b1, folded t2_def]
  have b2: "wide_bounded 51 t2" by (rule p2(3)) (rule first_passes_bound [OF wide_val_less_65 [OF b] p1(1)])
  obtain x0 x1 x2 x3 x4 where x: "t2 = (x0, x1, x2, x3, x4)" by (cases t2)
  have a: "wide_val (x0 + 19, x1, x2, x3, x4) = wide_val t2 + 19" "wide_bounded 65 (x0 + 19, x1, x2, x3, x4)"
    using wide_add_limbs [OF b2 [unfolded x], of 19 0] by (simp_all add: x)
  define t3 where "t3 = fe25519_pass_19 (x0 + 19, x1, x2, x3, x4)"
  note p3 = fe25519_pass_19_val [OF a(2), folded t3_def]
  have b3: "wide_bounded 51 t3" by (rule p3(3)) (use a(1) wide_val_less [OF b2] in \<open>simp add: x\<close>)
  obtain y0 y1 y2 y3 y4 where y: "t3 = (y0, y1, y2, y3, y4)" by (cases t3)
  define t4 where "t4 = (y0 + (0x8000000000000 - 19), y1 + (0x8000000000000 - 1), y2 + (0x8000000000000 - 1), y3 + (0x8000000000000 - 1),
    y4 + (0x8000000000000 - 1))"
  note q = wide_add_limbs [OF b3 [unfolded y], of "0x8000000000000 - 19" "0x8000000000000 - 1", folded t4_def]
  obtain z0 z1 z2 z3 z4 c where z: "fe25519_pass t4 = ((z0, z1, z2, z3, z4), c)" by (metis prod.collapse)
  have b4: "wide_bounded 65 t4" by (rule q(2)) simp_all
  note p4 = fe25519_pass_div_mod [OF b4 z]
  have "wide_val t4 = wide_val t3 + (2 ^ 255 - 19)" unfolding y by (subst q(1)) simp_all
  also have "\<dots> = wide_val t2 mod p25519 + 2 ^ 255"
    unfolding p3(1) a(1) by (rule third_pass [OF wide_val_less [OF b2]])
  finally have "wide_val t4 mod 2 ^ 255 = wide_val t2 mod p25519"
    using mod_less_divisor [of p25519 "wide_val t2"] p25519_eq by (simp add: p25519_def)
  also have "\<dots> = fe_val f mod p25519" unfolding p2(1) fold_19_mod p1(1) v ..
  finally have val: "wide_val (z0, z1, z2, z3, z4) = fe_val f mod p25519" unfolding p4(1) .
  have r: "fe25519_reduce f = (ucast z0, ucast z1, ucast z2, ucast z3, ucast z4)"
    unfolding fe25519_reduce_def f prod.case Let_def t_def [symmetric] t1_def [symmetric] t2_def [symmetric] x t3_def [symmetric] y
      t4_def [symmetric] z fst_conv ..
  have zb: "unat z0 < 2 ^ 51" "unat z1 < 2 ^ 51" "unat z2 < 2 ^ 51" "unat z3 < 2 ^ 51" "unat z4 < 2 ^ 51" using p4(3) by simp_all
  then have u: "unat (ucast z0 :: u64) = unat z0" "unat (ucast z1 :: u64) = unat z1" "unat (ucast z2 :: u64) = unat z2"
      "unat (ucast z3 :: u64) = unat z3" "unat (ucast z4 :: u64) = unat z4"
    by (intro unat_ucast_u64; simp)+
  show "fe_val (fe25519_reduce f) = fe_val f mod p25519" using val unfolding r fe_val.simps u wide_val.simps .
  show "fe_bounded 51 (fe25519_reduce f)" unfolding r fe_bounded.simps u using zb by simp
qed

section \<open>Reading\<close>

lemma le_nat_less: "le_nat s < 256 ^ length s"
proof (induction s)
  case (Cons b s)
  then show ?case using unat_u8_less [of b] by (simp del: unat_u8_less)
qed simp

lemma le_nat_split: "k \<le> length s \<Longrightarrow> le_nat s = le_nat (take k s) + 256 ^ k * le_nat (drop k s)"
  using le_nat_append [of "take k s" "drop k s"] by simp

lemma le_nat_take_drop:
  assumes "k \<le> length s"
  shows "le_nat (take k s) = le_nat s mod 256 ^ k" "le_nat (drop k s) = le_nat s div 256 ^ k"
  using div_mod_unique [OF le_nat_split [OF assms]] le_nat_less [of "take k s"] assms by simp_all

lemma load64_le_limb:
  assumes "k + 8 \<le> length s" "a \<le> 13"
  shows "unat (drop_bit a (load64_le (drop k s)) AND 0x7ffffffffffff) = le_nat s div 2 ^ (8 * k + a) mod 2 ^ 51"
proof -
  define x where "x = le_nat s div 256 ^ k"
  have "unat (load64_le (drop k s)) = x mod 2 ^ (a + (64 - a))"
    using assms by (simp add: unat_load64_le le_nat_take_drop x_def)
  then have "unat (drop_bit a (load64_le (drop k s)) AND 0x7ffffffffffff) = x div 2 ^ a mod 2 ^ (64 - a) mod 2 ^ 51"
    unfolding unat_and_51 unat_drop_bit by (simp only: div_exp_mod_exp_eq)
  also have "\<dots> = x div 2 ^ a mod 2 ^ 51"
    by (rule mod_mod_cancel) (rule le_imp_power_dvd, use assms(2) in simp)
  finally show ?thesis by (simp add: x_def div_mult2_eq power_add power_mult)
qed

lemma limbs_of_nat:
  fixes n :: nat
  shows "n mod 2 ^ 51 + 2 ^ 51 * (n div 2 ^ 51 mod 2 ^ 51) + 2 ^ 102 * (n div 2 ^ 102 mod 2 ^ 51) + 2 ^ 153 * (n div 2 ^ 153 mod 2 ^ 51)
    + 2 ^ 204 * (n div 2 ^ 204 mod 2 ^ 51) = n mod 2 ^ 255"
proof -
  have s: "n mod 2 ^ (k + 51) = 2 ^ k * (n div 2 ^ k mod 2 ^ 51) + n mod 2 ^ k" for k
    unfolding power_add by (rule mod_mult2_eq)
  show ?thesis using s [of 51] s [of 102] s [of 153] s [of 204] by simp
qed

lemma fe25519_frombytes_val:
  assumes "length s = 32"
  shows "fe_val (fe25519_frombytes s) = le_nat s mod 2 ^ 255" "fe_bounded 51 (fe25519_frombytes s)"
proof -
  have L: "unat (drop_bit a (load64_le (drop k s)) AND 0x7ffffffffffff) = le_nat s div 2 ^ n mod 2 ^ 51"
    if "k \<le> 24" "a \<le> 13" "n = 8 * k + a" for k a n
    using load64_le_limb [of k s a] that assms by simp
  have L: "unat (load64_le s AND 0x7ffffffffffff) = le_nat s mod 2 ^ 51"
      "unat (drop_bit 3 (load64_le (drop 6 s)) AND 0x7ffffffffffff) = le_nat s div 2 ^ 51 mod 2 ^ 51"
      "unat (drop_bit 6 (load64_le (drop 12 s)) AND 0x7ffffffffffff) = le_nat s div 2 ^ 102 mod 2 ^ 51"
      "unat (drop_bit 1 (load64_le (drop 19 s)) AND 0x7ffffffffffff) = le_nat s div 2 ^ 153 mod 2 ^ 51"
      "unat (drop_bit 12 (load64_le (drop 24 s)) AND 0x7ffffffffffff) = le_nat s div 2 ^ 204 mod 2 ^ 51"
    subgoal using L [of 0 0 0] by simp
    subgoal by (rule L) simp_all
    subgoal by (rule L) simp_all
    subgoal by (rule L) simp_all
    subgoal by (rule L) simp_all
    done
  show "fe_val (fe25519_frombytes s) = le_nat s mod 2 ^ 255"
    unfolding fe25519_frombytes_def Let_def fe_val.simps L by (rule limbs_of_nat)
  show "fe_bounded 51 (fe25519_frombytes s)"
    unfolding fe25519_frombytes_def Let_def fe_bounded.simps L by simp
qed

section \<open>Writing\<close>

lemma word_limbs_arith:
  fixes t0 t1 t2 t3 t4 m1 m2 m3 q1 q2 q3 :: nat
  assumes "t1 = q1 * 2 ^ 13 + m1" "t2 = q2 * 2 ^ 26 + m2" "t3 = q3 * 2 ^ 39 + m3"
  shows "(t0 + 2 ^ 51 * m1) + 2 ^ 64 * (q1 + 2 ^ 38 * m2) + 2 ^ 128 * (q2 + 2 ^ 25 * m3) + 2 ^ 192 * (q3 + 2 ^ 12 * t4)
    = t0 + 2 ^ 51 * t1 + 2 ^ 102 * t2 + 2 ^ 153 * t3 + 2 ^ 204 * t4"
  unfolding assms by simp

lemma le_nat_store64_4:
  "le_nat (store64_le a @ store64_le b @ store64_le c @ store64_le d) = unat a + 2 ^ 64 * unat b + 2 ^ 128 * unat c + 2 ^ 192 * unat d"
  by (simp add: le_nat_append store64_le_eq le_nat_le64_write)

lemma fe25519_tobytes_val: "le_nat (fe25519_tobytes h) = fe_val h mod p25519" "length (fe25519_tobytes h) = 32"
proof -
  obtain t0 t1 t2 t3 t4 where t: "fe25519_reduce h = (t0, t1, t2, t3, t4)" by (cases "fe25519_reduce h")
  have b: "unat t0 < 2 ^ 51" "unat t1 < 2 ^ 51" "unat t2 < 2 ^ 51" "unat t3 < 2 ^ 51" "unat t4 < 2 ^ 51"
    using fe25519_reduce_val(2) [of h] by (simp_all add: t)
  have d: "unat (drop_bit 13 t1) < 2 ^ 38" "unat (drop_bit 26 t2) < 2 ^ 25" "unat (drop_bit 39 t3) < 2 ^ 12"
    unfolding unat_drop_bit by (rule less_mult_imp_div_less, use b in simp)+
  have w0: "unat (t0 OR push_bit 51 t1) = unat t0 + 2 ^ 51 * (unat t1 mod 2 ^ 13)"
    using unat_or_push [OF b(1), of t1] by simp
  have w1: "unat (drop_bit 13 t1 OR push_bit 38 t2) = unat t1 div 2 ^ 13 + 2 ^ 38 * (unat t2 mod 2 ^ 26)"
    using unat_or_push [OF d(1), of t2] unfolding unat_drop_bit by simp
  have w2: "unat (drop_bit 26 t2 OR push_bit 25 t3) = unat t2 div 2 ^ 26 + 2 ^ 25 * (unat t3 mod 2 ^ 39)"
    using unat_or_push [OF d(2), of t3] unfolding unat_drop_bit by simp
  have w3: "unat (drop_bit 39 t3 OR push_bit 12 t4) = unat t3 div 2 ^ 39 + 2 ^ 12 * unat t4"
    using unat_or_push [OF d(3), of t4] b(5) unfolding unat_drop_bit by simp
  have "le_nat (fe25519_tobytes h) = fe_val (t0, t1, t2, t3, t4)"
    unfolding fe25519_tobytes_def t prod.case le_nat_store64_4 w0 w1 w2 w3 fe_val.simps
    by (rule word_limbs_arith [OF div_mult_mod_eq [symmetric] div_mult_mod_eq [symmetric] div_mult_mod_eq [symmetric]])
  then show "le_nat (fe25519_tobytes h) = fe_val h mod p25519" using fe25519_reduce_val(1) [of h] by (simp add: t)
  show "length (fe25519_tobytes h) = 32" by (simp add: fe25519_tobytes_def t)
qed

end
