(* ===== verification/Fe25519_Field.thy ===== *)
theory Fe25519_Field
  imports Fe25519_Ops Fe25519_Bytes
begin

text \<open>
  The field of Curve25519 as its clients use it: for every operation of the limb representation its value as a
  residue and its bound on limbs, as rewrite rules; conditional move and swap; inversion.
\<close>

unbundle bit_operations_syntax

section \<open>Limb bounds\<close>

lemma fe_bounded_mono: "fe_bounded m f \<Longrightarrow> m \<le> n \<Longrightarrow> fe_bounded n f"
  by (cases f) (auto intro: less_le_trans [OF _ power_increasing])

text \<open>
  Three bounds carry every formula of the curve: products, squares, doubled squares, small multiples and inverses
  have limbs below \<open>2 ^ 52\<close>; each sum or difference adds a bit; products accept limbs below \<open>2 ^ 54\<close>.
\<close>

lemma fe_bounded_weaken [simp]: "fe_bounded 52 f \<Longrightarrow> fe_bounded 53 f" "fe_bounded 53 f \<Longrightarrow> fe_bounded 54 f"
  using fe_bounded_mono [of 52 f 53] fe_bounded_mono [of 53 f 54] by simp_all

lemma fe_bounded_Suc: "fe_bounded (Suc 52) f \<longleftrightarrow> fe_bounded 53 f" "fe_bounded (Suc 53) f \<longleftrightarrow> fe_bounded 54 f"
  by simp_all

lemma fe_add [simp]:
  shows "fe_bounded 53 f \<Longrightarrow> fe_bounded 53 g \<Longrightarrow> fe_res (fe25519_add f g) = (fe_res f + fe_res g) mod int p25519"
    and "fe_bounded 53 f \<Longrightarrow> fe_bounded 53 g \<Longrightarrow> fe_bounded 54 (fe25519_add f g)"
    and "fe_bounded 52 f \<Longrightarrow> fe_bounded 52 g \<Longrightarrow> fe_bounded 53 (fe25519_add f g)"
proof -
  assume b: "fe_bounded 53 f" "fe_bounded 53 g"
  have v: "fe_val (fe25519_add f g) = fe_val f + fe_val g" "fe_bounded (Suc 53) (fe25519_add f g)"
    by (rule fe25519_add_val [OF b]; simp)+
  then show "fe_res (fe25519_add f g) = (fe_res f + fe_res g) mod int p25519" by (simp add: fe_res_def mod_add_eq)
  from v(2) show "fe_bounded 54 (fe25519_add f g)" unfolding fe_bounded_Suc .
next
  assume b: "fe_bounded 52 f" "fe_bounded 52 g"
  have "fe_bounded (Suc 52) (fe25519_add f g)" by (rule fe25519_add_val [OF b]; simp)
  then show "fe_bounded 53 (fe25519_add f g)" unfolding fe_bounded_Suc .
qed

lemma fe_sub [simp]:
  shows "fe_bounded 53 f \<Longrightarrow> fe_bounded 54 g \<Longrightarrow> fe_res (fe25519_sub f g) = (fe_res f - fe_res g) mod int p25519"
    and "fe_bounded 53 f \<Longrightarrow> fe_bounded 54 g \<Longrightarrow> fe_bounded 54 (fe25519_sub f g)"
    and "fe_bounded 52 f \<Longrightarrow> fe_bounded 54 g \<Longrightarrow> fe_bounded 53 (fe25519_sub f g)"
proof -
  assume b: "fe_bounded 53 f" "fe_bounded 54 g"
  show "fe_res (fe25519_sub f g) = (fe_res f - fe_res g) mod int p25519" by (rule fe25519_sub_val [OF b]) simp_all
  have "fe_bounded (Suc 53) (fe25519_sub f g)" by (rule fe25519_sub_val [OF b]) simp_all
  then show "fe_bounded 54 (fe25519_sub f g)" unfolding fe_bounded_Suc .
next
  assume b: "fe_bounded 52 f" "fe_bounded 54 g"
  have "fe_bounded (Suc 52) (fe25519_sub f g)" by (rule fe25519_sub_val [OF b]) simp_all
  then show "fe_bounded 53 (fe25519_sub f g)" unfolding fe_bounded_Suc .
qed

lemma fe_const [simp]: "fe_res fe25519_0 = 0" "fe_res fe25519_1 = 1" "fe_bounded 52 fe25519_0" "fe_bounded 52 fe25519_1"
  by (simp_all add: fe_res_def fe25519_0_def fe25519_1_def p25519_def)

lemma fe_neg [simp]:
  assumes "fe_bounded 54 g"
  shows "fe_res (fe25519_neg g) = - fe_res g mod int p25519" "fe_bounded 53 (fe25519_neg g)"
  using assms by (simp_all add: fe25519_neg_def)

lemmas fe_mul [simp] = fe25519_mul_val
lemmas fe_sq [simp] = fe25519_sq_val
lemmas fe_sq2 [simp] = fe25519_sq2_val
lemmas fe_mul32 [simp] = fe25519_mul32_val

lemma fe_res_range: "0 \<le> fe_res f" "fe_res f < int p25519"
  by (simp_all add: fe_res_def p25519_def)

lemma fe_res_mod [simp]: "fe_res f mod int p25519 = fe_res f"
  using fe_res_range [of f] by simp

section \<open>Conditional move and swap\<close>

lemma swap_mask_bit: "swap_mask 0 = 0" "swap_mask 1 = - 1"
  by (simp_all add: swap_mask_def)

lemma xor_cancel: "x XOR (x XOR y) = (y :: u64)" "y XOR (x XOR y) = x"
  by (simp_all add: bit_eq_iff bit_xor_iff) blast+

lemma fe25519_cswap_eq: "fe25519_cswap f g 0 = (f, g)" "fe25519_cswap f g 1 = (g, f)"
  by (cases f; cases g; simp add: fe25519_cswap_def swap_mask_bit xor_cancel)+

lemma fe25519_cmov_eq: "fe25519_cmov f g 0 = f" "fe25519_cmov f g 1 = g"
  by (cases f; cases g; simp add: fe25519_cmov_def swap_mask_bit xor_cancel)+

section \<open>Inversion\<close>

text \<open>\<open>fe_pow x k f\<close>: the element is the power \<open>k\<close> of \<open>x\<close>, with limbs that products accept.\<close>

definition fe_pow :: "int \<Rightarrow> nat \<Rightarrow> fe25519 \<Rightarrow> bool" where
  "fe_pow x k f \<longleftrightarrow> fe_bounded 54 f \<and> fe_res f = x ^ k mod int p25519"

lemma fe_pow_mul: "fe_pow x k f \<Longrightarrow> fe_pow x l g \<Longrightarrow> fe_pow x (k + l) (fe25519_mul f g)"
  by (simp add: fe_pow_def mod_mult_eq power_add)

lemma fe_pow_sq: "fe_pow x k f \<Longrightarrow> fe_pow x (2 * k) (fe25519_sq f)"
  by (simp add: fe_pow_def power_mod power_mult [symmetric] mult.commute)

lemma fe_pow_sq_times: "fe_pow x k f \<Longrightarrow> fe_pow x (2 ^ n * k) (fe25519_sq_times n f)"
proof (induction n arbitrary: k f)
  case (Suc n)
  from Suc.IH [OF fe_pow_sq [OF Suc.prems]] show ?case by (simp add: ac_simps)
qed simp

text \<open>The addition chain goes through exponents of the form \<open>2 ^ n - 1\<close>.\<close>

lemma fe_pow_ones:
  assumes "fe_pow x (2 ^ m - 1) f" "fe_pow x (2 ^ n - 1) g" "k = n + m"
  shows "fe_pow x (2 ^ k - 1) (fe25519_mul (fe25519_sq_times n f) g)"
proof -
  have "2 ^ n * (2 ^ m - 1) + (2 ^ n - 1) = (2 ^ k - 1 :: nat)"
    using one_le_power [of 2 n] one_le_power [of 2 m] by (simp add: assms(3) power_add diff_mult_distrib2)
  with fe_pow_mul [OF fe_pow_sq_times [OF assms(1), of n] assms(2)] show ?thesis by (simp only:)
qed

lemma sq_times_numeral: "fe25519_sq_times n (fe25519_sq t) = fe25519_sq_times (Suc n) t"
  by simp

lemma fe25519_invert_pow:
  assumes "fe_pow x 1 z"
  shows "fe_pow x (p25519 - 2) (fe25519_invert z)" "fe_bounded 52 (fe25519_invert z)"
proof -
  define a0 where "a0 = fe25519_sq z"
  have A0: "fe_pow x 2 a0" using fe_pow_sq [OF assms] by (simp add: a0_def)
  define b0 where "b0 = fe25519_mul z (fe25519_sq (fe25519_sq a0))"
  have B0: "fe_pow x 9 b0" using fe_pow_mul [OF assms fe_pow_sq [OF fe_pow_sq [OF A0]]] by (simp add: b0_def)
  define a1 where "a1 = fe25519_mul a0 b0"
  have A1: "fe_pow x 11 a1" using fe_pow_mul [OF A0 B0] by (simp add: a1_def)
  define c5 where "c5 = fe25519_mul b0 (fe25519_sq a1)"
  have C5: "fe_pow x (2 ^ 5 - 1) c5" using fe_pow_mul [OF B0 fe_pow_sq [OF A1]] by (simp add: c5_def)
  define c10 where "c10 = fe25519_mul (fe25519_sq_times 5 c5) c5"
  have C10: "fe_pow x (2 ^ 10 - 1) c10" unfolding c10_def by (rule fe_pow_ones [OF C5 C5]) simp
  define c20 where "c20 = fe25519_mul (fe25519_sq_times 10 c10) c10"
  have C20: "fe_pow x (2 ^ 20 - 1) c20" unfolding c20_def by (rule fe_pow_ones [OF C10 C10]) simp
  define c40 where "c40 = fe25519_mul (fe25519_sq_times 20 c20) c20"
  have C40: "fe_pow x (2 ^ 40 - 1) c40" unfolding c40_def by (rule fe_pow_ones [OF C20 C20]) simp
  define c50 where "c50 = fe25519_mul (fe25519_sq_times 10 c40) c10"
  have C50: "fe_pow x (2 ^ 50 - 1) c50" unfolding c50_def by (rule fe_pow_ones [OF C40 C10]) simp
  define c100 where "c100 = fe25519_mul (fe25519_sq_times 50 c50) c50"
  have C100: "fe_pow x (2 ^ 100 - 1) c100" unfolding c100_def by (rule fe_pow_ones [OF C50 C50]) simp
  define c200 where "c200 = fe25519_mul (fe25519_sq_times 100 c100) c100"
  have C200: "fe_pow x (2 ^ 200 - 1) c200" unfolding c200_def by (rule fe_pow_ones [OF C100 C100]) simp
  define c250 where "c250 = fe25519_mul (fe25519_sq_times 50 c200) c50"
  have C250: "fe_pow x (2 ^ 250 - 1) c250" unfolding c250_def by (rule fe_pow_ones [OF C200 C50]) simp
  have inv: "fe25519_invert z = fe25519_mul (fe25519_sq_times 5 c250) a1"
    unfolding fe25519_invert_def Let_def sq_times_numeral c250_def c200_def c100_def c50_def c40_def c20_def c10_def c5_def a1_def b0_def a0_def
    by (simp only: Suc_numeral add_One_commute One_nat_def [symmetric] numeral_plus_one semiring_norm)
  have "2 ^ 5 * (2 ^ 250 - 1) + 11 = p25519 - 2" by (simp add: p25519_def)
  with fe_pow_mul [OF fe_pow_sq_times [OF C250, of 5] A1] show "fe_pow x (p25519 - 2) (fe25519_invert z)"
    unfolding inv by (simp only:)
  show "fe_bounded 52 (fe25519_invert z)" unfolding inv
    by (rule fe_mul(2)) (use fe_pow_sq_times [OF C250, of 5] A1 in \<open>simp_all only: fe_pow_def\<close>)
qed

lemma fe_inv [simp]:
  assumes "fe_bounded 54 z"
  shows "fe_res (fe25519_invert z) = fe_res z ^ (p25519 - 2) mod int p25519" "fe_bounded 52 (fe25519_invert z)"
proof -
  have "fe_pow (fe_res z) 1 z" using assms by (simp add: fe_pow_def)
  from fe25519_invert_pow [OF this] show "fe_res (fe25519_invert z) = fe_res z ^ (p25519 - 2) mod int p25519"
      "fe_bounded 52 (fe25519_invert z)"
    by (simp_all only: fe_pow_def)
qed

section \<open>Encodings\<close>

lemma nat_fe_res: "nat (fe_res f) = fe_val f mod p25519"
  unfolding fe_res_def zmod_int [symmetric] by (rule nat_int)

lemma fe25519_tobytes_eq: "fe25519_tobytes f = nat_le 32 (nat (fe_res f))"
  using nat_le_le_nat [of "fe25519_tobytes f"] by (simp add: fe25519_tobytes_val nat_fe_res)

end
