(* ===== verification/X25519_Correct.thy ===== *)
theory X25519_Correct
  imports X25519 Fe25519_Field
begin

text \<open>
  The ladder on limbs computes the ladder on integers modulo the prime, and the refused points are those
  of small order.
\<close>

unbundle bit_operations_syntax

section \<open>One step of the ladder\<close>

lemma mont_add_commute: "mont_add u P Q = mont_add u Q P"
proof -
  obtain x2 z2 x3 z3 where P: "P = (x2, z2)" "Q = (x3, z3)" by (cases P; cases Q)
  have "((x3 - z3) * (x2 + z2) - (x3 + z3) * (x2 - z2)) ^ 2 = ((x2 - z2) * (x3 + z3) - (x2 + z2) * (x3 - z3)) ^ 2"
    by (simp add: power2_eq_square algebra_simps)
  then show ?thesis by (simp add: mont_add_def P Let_def ac_simps)
qed

lemma ladder_core_dbl:
  assumes "fe_bounded 52 x1" "fe_bounded 52 x2" "fe_bounded 52 z2" "fe_bounded 52 x3" "fe_bounded 52 z3"
    "ladder_core x1 (x2, z2) (x3, z3) = (a, b, c, d)"
  shows "(fe_res a, fe_res b) = mont_dbl (fe_res x2, fe_res z2)"
proof -
  have e: "BB + (AA - BB) * 121666 = AA + 121665 * (AA - BB)" for AA BB :: int by simp
  have a: "a = fe25519_mul (fe25519_sq (fe25519_add x2 z2)) (fe25519_sq (fe25519_sub x2 z2))"
    and b: "b = fe25519_mul (fe25519_sub (fe25519_sq (fe25519_add x2 z2)) (fe25519_sq (fe25519_sub x2 z2)))
      (fe25519_add (fe25519_sq (fe25519_sub x2 z2))
        (fe25519_mul32 (fe25519_sub (fe25519_sq (fe25519_add x2 z2)) (fe25519_sq (fe25519_sub x2 z2))) 121666))"
    using assms(6) by (simp_all add: ladder_core_def Let_def)
  have "fe_res a = ((fe_res x2 + fe_res z2)\<^sup>2 * (fe_res x2 - fe_res z2)\<^sup>2) mod int p25519"
    using assms(1-5) by (simp add: a mod_simps)
  moreover have "fe_res b = (((fe_res x2 + fe_res z2)\<^sup>2 - (fe_res x2 - fe_res z2)\<^sup>2)
      * ((fe_res x2 - fe_res z2)\<^sup>2 + ((fe_res x2 + fe_res z2)\<^sup>2 - (fe_res x2 - fe_res z2)\<^sup>2) * 121666)) mod int p25519"
    using assms(1-5) by (simp add: b mod_simps)
  ultimately show ?thesis by (simp only: mont_dbl_def prod.case Let_def e)
qed

lemma ladder_core_add:
  assumes "fe_bounded 52 x1" "fe_bounded 52 x2" "fe_bounded 52 z2" "fe_bounded 52 x3" "fe_bounded 52 z3"
    "ladder_core x1 (x2, z2) (x3, z3) = (a, b, c, d)"
  shows "(fe_res c, fe_res d) = mont_add (fe_res x1) (fe_res x2, fe_res z2) (fe_res x3, fe_res z3)"
    "fe_bounded 52 a" "fe_bounded 52 b" "fe_bounded 52 c" "fe_bounded 52 d"
proof -
  let ?da = "fe25519_mul (fe25519_sub x3 z3) (fe25519_add x2 z2)" and ?cb = "fe25519_mul (fe25519_add x3 z3) (fe25519_sub x2 z2)"
  have c: "c = fe25519_sq (fe25519_add ?da ?cb)" and d: "d = fe25519_mul x1 (fe25519_sq (fe25519_sub ?da ?cb))"
    using assms(6) by (simp_all add: ladder_core_def Let_def)
  show "(fe_res c, fe_res d) = mont_add (fe_res x1) (fe_res x2, fe_res z2) (fe_res x3, fe_res z3)"
    using assms(1-5) by (simp add: c d mont_add_def Let_def mod_simps)
  show "fe_bounded 52 a" "fe_bounded 52 b" "fe_bounded 52 c" "fe_bounded 52 d"
    using assms by (auto simp: ladder_core_def Let_def)
qed

section \<open>The loop\<close>

text \<open>
  The code swaps lazily: after a step for a bit \<open>b\<close> the two points are exchanged if \<open>b\<close> is 1.
  \<open>ladder_holds\<close> relates its state to the pair of the reference.
\<close>

definition ladder_holds :: "ladder_state \<Rightarrow> (int \<times> int) \<times> (int \<times> int) \<Rightarrow> bool" where
  "ladder_holds st PQ \<longleftrightarrow>
     (case st of (x2, z2, x3, z3, swap) \<Rightarrow>
        fe_bounded 52 x2 \<and> fe_bounded 52 z2 \<and> fe_bounded 52 x3 \<and> fe_bounded 52 z3 \<and>
        (swap = 0 \<and> PQ = ((fe_res x2, fe_res z2), (fe_res x3, fe_res z3)) \<or>
         swap = 1 \<and> PQ = ((fe_res x3, fe_res z3), (fe_res x2, fe_res z2))))"

definition mont_bit :: "int \<Rightarrow> bool \<Rightarrow> (int \<times> int) \<times> (int \<times> int) \<Rightarrow> (int \<times> int) \<times> (int \<times> int)" where
  "mont_bit u b PQ = (case PQ of (P, Q) \<Rightarrow> if b then (mont_add u P Q, mont_dbl Q) else (mont_dbl P, mont_add u P Q))"

lemma ladder_unswap:
  assumes "ladder_holds (x2, z2, x3, z3, swap) (P, Q)" "b = 0 \<or> b = 1"
  obtains y2 w2 y3 w3 where "fe25519_cswap x2 x3 (swap XOR b) = (y2, y3)" "fe25519_cswap z2 z3 (swap XOR b) = (w2, w3)"
    "fe_bounded 52 y2" "fe_bounded 52 w2" "fe_bounded 52 y3" "fe_bounded 52 w3"
    "if b = 0 then (fe_res y2, fe_res w2) = P \<and> (fe_res y3, fe_res w3) = Q
     else (fe_res y2, fe_res w2) = Q \<and> (fe_res y3, fe_res w3) = P"
proof -
  from assms consider "swap XOR b = 0" "swap = b" | "swap XOR b = 1" "swap \<noteq> b" by (auto simp: ladder_holds_def)
  then show ?thesis
  proof cases
    case 1
    show ?thesis by (rule that [of x2 x3 z2 z3]) (use assms 1 in \<open>auto simp: ladder_holds_def fe25519_cswap_eq\<close>)
  next
    case 2
    show ?thesis by (rule that [of x3 x2 z3 z2]) (use assms 2 in \<open>auto simp: ladder_holds_def fe25519_cswap_eq\<close>)
  qed
qed

lemma ladder_step_holds:
  assumes "ladder_holds st PQ" "fe_bounded 52 x1" "scalar_bit t pos = of_bool b"
  shows "ladder_holds (ladder_step t x1 pos st) (mont_bit (fe_res x1) b PQ)"
proof -
  obtain x2 z2 x3 z3 swap where st: "st = (x2, z2, x3, z3, swap)" by (cases st)
  obtain P Q where PQ: "PQ = (P, Q)" by (cases PQ)
  have "of_bool b = (0 :: u32) \<or> of_bool b = (1 :: u32)" by simp
  from ladder_unswap [OF assms(1) [unfolded st PQ] this] obtain y2 w2 y3 w3
    where u: "fe25519_cswap x2 x3 (swap XOR of_bool b) = (y2, y3)" "fe25519_cswap z2 z3 (swap XOR of_bool b) = (w2, w3)"
      "fe_bounded 52 y2" "fe_bounded 52 w2" "fe_bounded 52 y3" "fe_bounded 52 w3"
      "if of_bool b = (0 :: u32) then (fe_res y2, fe_res w2) = P \<and> (fe_res y3, fe_res w3) = Q
       else (fe_res y2, fe_res w2) = Q \<and> (fe_res y3, fe_res w3) = P" .
  obtain a b' c d where l: "ladder_core x1 (y2, w2) (y3, w3) = (a, b', c, d)" by (cases "ladder_core x1 (y2, w2) (y3, w3)")
  note L = ladder_core_dbl [OF assms(2) u(3-6) l] ladder_core_add [OF assms(2) u(3-6) l]
  have "ladder_step t x1 pos st = (a, b', c, d, of_bool b)"
    by (simp add: ladder_step_def st assms(3) u(1,2) l Let_def)
  then show ?thesis
    using L u(7) mont_add_commute [of "fe_res x1" P Q] by (cases b) (auto simp: ladder_holds_def mont_bit_def PQ)
qed

lemma le_nat_nth: "i < length t \<Longrightarrow> unat (t ! i) = le_nat t div 256 ^ i mod 256"
proof (induction t arbitrary: i)
  case (Cons b t)
  have z: "(unat b + 256 * le_nat t) div 256 = le_nat t" using unat_u8_less [of b] by (simp del: unat_u8_less)
  show ?case
  proof (cases i)
    case (Suc j)
    then have "le_nat (b # t) div 256 ^ i = le_nat t div 256 ^ j" by (simp add: div_mult2_eq z)
    with Suc Cons show ?thesis by simp
  qed (use unat_u8_less [of b] in \<open>simp del: unat_u8_less\<close>)
qed simp

lemma odd_div_mod: "j < m \<Longrightarrow> odd (n mod 2 ^ m div 2 ^ j) = odd (n div 2 ^ j :: nat)"
  using bit_take_bit_iff [of m n j] by (simp add: bit_iff_odd take_bit_eq_mod)

lemma scalar_bit_eq:
  assumes "pos < 8 * length t"
  shows "scalar_bit t pos = of_bool (odd (le_nat t div 2 ^ pos))"
proof -
  have "scalar_bit t pos = of_bool (bit (t ! (pos div 8)) (pos mod 8))"
    using less_trans [OF mod_less_divisor [of 8 pos], of 32]
    unfolding scalar_bit_def and_one_eq mod_2_eq_odd bit_iff_odd_drop_bit [symmetric] by (simp add: bit_ucast_iff)
  also have "bit (t ! (pos div 8)) (pos mod 8) = odd (unat (t ! (pos div 8)) div 2 ^ (pos mod 8))"
    unfolding bit_iff_odd [symmetric, where 'a = nat] by (simp add: bit_unsigned_iff)
  also have "\<dots> = odd (le_nat t div 256 ^ (pos div 8) div 2 ^ (pos mod 8))"
    using le_nat_nth [of "pos div 8" t] odd_div_mod [of "pos mod 8" 8] assms by (simp add: less_mult_imp_div_less mult.commute)
  also have "le_nat t div 256 ^ (pos div 8) div 2 ^ (pos mod 8) = le_nat t div 2 ^ pos"
  proof -
    have "(256 :: nat) ^ (pos div 8) * 2 ^ (pos mod 8) = 2 ^ (8 * (pos div 8) + pos mod 8)"
      unfolding power_add power_mult by simp
    then show ?thesis unfolding div_mult2_eq [symmetric] by simp
  qed
  finally show ?thesis .
qed

lemma ladder_loop_holds:
  assumes "fe_bounded 52 x1" "n \<le> 255" "length t = 32" "2 ^ 254 \<le> le_nat t" "ladder_holds st (mont_ladder (fe_res x1) (le_nat t div 2 ^ n))"
  shows "ladder_holds (ladder_loop t x1 n st) (mont_ladder (fe_res x1) (le_nat t))"
  using assms
proof (induction n arbitrary: st)
  case (Suc pos)
  let ?k = "le_nat t div 2 ^ pos"
  have "(2 :: nat) ^ pos \<le> 2 ^ 254" using Suc.prems by (intro power_increasing) simp_all
  then have "?k \<noteq> 0" using Suc.prems(4) by (simp add: div_eq_0_iff)
  moreover have e: "le_nat t div 2 ^ Suc pos = ?k div 2" unfolding power_Suc2 by (rule div_mult2_eq)
  ultimately have "mont_ladder (fe_res x1) ?k = mont_bit (fe_res x1) (odd ?k) (mont_ladder (fe_res x1) (le_nat t div 2 ^ Suc pos))"
    unfolding e by (subst mont_ladder.simps) (simp add: mont_bit_def)
  moreover have "scalar_bit t pos = of_bool (odd ?k)" by (rule scalar_bit_eq) (use Suc.prems in simp)
  ultimately have "ladder_holds (ladder_step t x1 pos st) (mont_ladder (fe_res x1) ?k)"
    using ladder_step_holds [OF Suc.prems(5) assms(1)] by simp
  with Suc show ?case by simp
qed simp

section \<open>Clamping\<close>

lemma clamp_low: "unat (b AND 248 :: u8) = unat b div 8 * 8"
proof -
  have n: "(248 :: u8) = NOT (mask 3)" by (simp add: mask_eq_exp_minus_1)
  have "b = (b AND 248) + take_bit 3 b"
    unfolding n take_bit_eq_mask by (subst disjunctive_add) (auto simp: bit_and_iff bit_not_iff bit_or_iff intro: bit_eqI)
  moreover have "b AND 248 \<le> b" by (rule word_and_le2)
  ultimately have "unat (take_bit 3 b) = unat b - unat (b AND 248)"  by (metis add_diff_cancel_left' unat_sub)
  moreover have "unat (take_bit 3 b) = unat b mod 8" by (simp add: unsigned_take_bit_eq take_bit_eq_mod [of 3 "unat b"])
  ultimately show ?thesis using \<open>b AND 248 \<le> b\<close> mod_div_mult_eq [of "unat b" 8] unfolding word_le_nat_alt by linarith
qed

lemma clamp_high: "unat ((b AND 127) OR 64 :: u8) = unat b mod 64 + 64"
proof -
  have m: "(127 :: u8) = mask 7" by (simp add: mask_eq_exp_minus_1)
  have "bit (push_bit 6 1 :: u8) n \<longleftrightarrow> n = 6" for n
    by (subst bit_push_bit_iff) (auto simp: bit_1_iff)
  then have b64: "bit (64 :: u8) n \<longleftrightarrow> n = 6" for n by (simp add: push_bit_eq_mult)
  have "(b AND 127) OR 64 = take_bit 6 b + 64" unfolding m
    by (subst disjunctive_add [where a = "take_bit 6 b"])
      (auto simp: b64 bit_and_iff bit_or_iff bit_take_bit_iff bit_mask_iff less_Suc_eq numeral_eq_Suc intro!: bit_eqI)
  then show ?thesis by (simp add: unat_word_ariths unsigned_take_bit_eq take_bit_eq_mod [of 6 "unat b"])
qed
lemma length_32_split:
  assumes "length n = 32"
  obtains a m z where "n = a # m @ [z]" "length m = 30"
proof -
  obtain a m' where n: "n = a # m'" "length m' = 31" using assms by (cases n) auto
  then obtain m z where "m' = m @ [z]" by (cases m' rule: rev_cases) auto
  with n show ?thesis by (intro that [of a m z]) auto
qed

lemma clamp_val:
  assumes "length n = 32"
  shows "le_nat (clamp n) = clamp_nat (le_nat n)" "length (clamp n) = 32"
proof -
  obtain a m z where n: "n = a # m @ [z]" "length m = 30" by (rule length_32_split [OF assms])
  have c: "clamp n = (a AND 248) # m @ [(z AND 127) OR 64]"
    by (simp add: clamp_def n Let_def nth_append list_update_append nth_Cons split: nat.splits)
  define A where "A = unat a"
  define Z where "Z = unat z"
  have N: "le_nat n = A + 256 * le_nat m + 2 ^ 248 * Z" by (simp add: n le_nat_append A_def Z_def algebra_simps)
  have m: "le_nat m < 2 ^ 240" using le_nat_less [of m] by (simp add: n)
  have a: "A < 256" using unat_u8_less [of a] by (simp only: A_def)
  define L where "L = A + 256 * le_nat m"
  have L: "L < 2 ^ 248" using m a unfolding L_def by simp
  have "le_nat n = (L + 2 ^ 248 * (Z mod 64)) + 2 ^ 254 * (Z div 64)"
    unfolding N L_def [symmetric] by (subst (1) mod_mult_div_eq [of Z 64, symmetric]) (simp only: algebra_simps, simp)
  moreover have "L + 2 ^ 248 * (Z mod 64) < 2 ^ 254" using L mod_less_divisor [of 64 Z] by simp
  ultimately have "le_nat n mod 2 ^ 254 = L + 2 ^ 248 * (Z mod 64)" by (rule div_mod_unique(2))
  also have "\<dots> = A mod 8 + 8 * (A div 8 + 32 * le_nat m + 2 ^ 245 * (Z mod 64))"
    unfolding L_def by (subst (1) mod_mult_div_eq [of A 8, symmetric]) simp
  finally have "le_nat n mod 2 ^ 254 div 8 = A div 8 + 32 * le_nat m + 2 ^ 245 * (Z mod 64)"
    by (rule div_mod_unique(1)) simp
  then show "le_nat (clamp n) = clamp_nat (le_nat n)"
    unfolding clamp_nat_def c by (simp add: le_nat_append clamp_low clamp_high n(2) A_def Z_def algebra_simps)
  show "length (clamp n) = 32" unfolding c by (simp add: n(2))
qed

section \<open>The whole function\<close>

lemma clamp_nat_range: "2 ^ 254 \<le> clamp_nat k" "clamp_nat k < 2 ^ 255"
proof -
  have "k mod 2 ^ 254 div 8 * 8 \<le> k mod 2 ^ 254" by (rule div_times_less_eq_dividend)
  moreover have "k mod 2 ^ 254 < 2 ^ 254" by (rule mod_less_divisor) simp
  ultimately show "clamp_nat k < 2 ^ 255" unfolding clamp_nat_def by simp
qed (simp add: clamp_nat_def)

lemma crypto_scalarmult_curve25519_ref10_eq:
  assumes "length n = 32" "length p = 32" "has_small_order p = 0"
  shows "crypto_scalarmult_curve25519_ref10 n p = Some (nat_le 32 (x25519_spec (clamp_nat (le_nat n)) (le_nat p mod 2 ^ 255)))"
proof -
  define x1 where "x1 = fe25519_frombytes p"
  note v = fe25519_frombytes_val [OF assms(2), folded x1_def]
  have b1: "fe_bounded 52 x1" using fe_bounded_mono [OF v(2), of 52] by simp
  have r1: "fe_res x1 = int (le_nat p mod 2 ^ 255) mod int p25519" by (simp add: fe_res_def v(1))
  let ?st = "(fe25519_1, fe25519_0, fe25519_copy x1, fe25519_1, 0 :: u32)"
  note c = clamp_val [OF assms(1)] clamp_nat_range [of "le_nat n"]
  have "ladder_holds ?st (mont_ladder (fe_res x1) (le_nat (clamp n) div 2 ^ 255))"
    using b1 c by (subst mont_ladder.simps) (simp add: ladder_holds_def fe25519_copy_def)
  from ladder_loop_holds [OF b1 _ c(2) _ this] c
  have h: "ladder_holds (ladder_loop (clamp n) x1 255 ?st) (mont_ladder (fe_res x1) (clamp_nat (le_nat n)))" by simp
  obtain P Q where PQ: "mont_ladder (fe_res x1) (clamp_nat (le_nat n)) = (P, Q)" by (cases "mont_ladder (fe_res x1) (clamp_nat (le_nat n))")
  obtain x2 z2 x3 z3 swap where st: "ladder_loop (clamp n) x1 255 ?st = (x2, z2, x3, z3, swap)" by (cases "ladder_loop (clamp n) x1 255 ?st")
  obtain y2 w2 y3 w3 where u: "fe25519_cswap x2 x3 swap = (y2, y3)" "fe25519_cswap z2 z3 swap = (w2, w3)"
      "fe_bounded 52 y2" "fe_bounded 52 w2" "(fe_res y2, fe_res w2) = P"
    by (rule ladder_unswap [OF h [unfolded st PQ], of 0]) auto
  have "fe_res (fe25519_mul y2 (fe25519_invert w2)) = fe_res y2 * fe_res w2 ^ (p25519 - 2) mod int p25519"
    using u(3,4) by (simp add: mod_mult_right_eq)
  then have "fe25519_tobytes (fe25519_mul y2 (fe25519_invert w2))
      = nat_le 32 (x25519_spec (clamp_nat (le_nat n)) (le_nat p mod 2 ^ 255))"
    unfolding fe25519_tobytes_eq x25519_spec_def r1 [symmetric] PQ fst_conv u(5) [symmetric] prod.case by (simp only:)
  then show ?thesis
    unfolding crypto_scalarmult_curve25519_ref10_def Let_def x1_def [symmetric] st prod.case u using assms(3) by simp
qed

section \<open>Points of small order\<close>

lemma small_order_diff_eq_0:
  assumes "length s = 32" "length b = 32"
  shows "small_order_diff s b = 0 \<longleftrightarrow> s[31 := s ! 31 AND 0x7f] = b"
proof -
  have l: "i < 32 \<longleftrightarrow> i < 31 \<or> i = 31" for i :: nat by auto
  have "small_order_diff s b = 0 \<longleftrightarrow> (\<forall>j < 31. s ! j = b ! j) \<and> s ! 31 AND 0x7f = b ! 31"
    by (auto simp: small_order_diff_def or_eq_0_iff fold_or_eq_0 xor_eq_0)
  also have "\<dots> \<longleftrightarrow> s[31 := s ! 31 AND 0x7f] = b"
    using assms unfolding list_eq_iff_nth_eq by (simp add: l nth_list_update conj_commute) (metis less_irrefl)
  finally show ?thesis .
qed

lemma diff_bit_8: "bit (ucast (c :: u8) - 1 :: u32) 8 \<longleftrightarrow> c = 0"
proof (cases "c = 0")
  case False
  have u: "unat (ucast c :: u32) = unat c"
    unfolding unsigned_ucast_eq by (rule take_bit_nat_eq_self) (rule less_trans [OF unat_u8_less], simp)
  with False have "(ucast c :: u32) \<noteq> 0" by (metis unat_eq_zero)
  then have "unat (ucast c - 1 :: u32) < 256" using unat_u8_less [of c] u by (simp add: unat_minus_one del: unat_u8_less)
  then have "\<not> bit (unat (ucast c - 1 :: u32)) 8" by (simp add: bit_iff_odd)
  then show ?thesis using False by (simp add: bit_unsigned_iff)
qed simp

definition small_order_points :: "nat list" where
  "small_order_points =
     [0, 1, 325606250916557431795983626356110631294008115727848805560023387167927233504,
      39382357235489614581723060781553021112529911719440698176882885853963445705823, p25519 - 1, p25519, p25519 + 1]"

lemma blacklist_points: "map le_nat blacklist = small_order_points" "list_all (\<lambda>b. length b = 32) blacklist"
  by (simp_all add: blacklist_def small_order_points_def p25519_def)

lemma le_nat_inj: "length a = length b \<Longrightarrow> le_nat a = le_nat b \<Longrightarrow> a = b"
  by (metis nat_le_le_nat)

lemma le_nat_clear_top:
  assumes "length s = 32"
  shows "le_nat (s[31 := s ! 31 AND 0x7f]) = le_nat s mod 2 ^ 255"
proof -
  obtain a m z where s: "s = a # m @ [z]" "length m = 30" by (rule length_32_split [OF assms])
  have u: "s[31 := s ! 31 AND 0x7f] = (a # m) @ [z AND 0x7f]" by (simp add: s nth_append list_update_append)
  have "(z AND 0x7f :: u8) = take_bit 7 z" by (simp add: take_bit_eq_mask mask_eq_exp_minus_1)
  then have z: "unat (z AND 0x7f) = unat z mod 128" by (simp add: unsigned_take_bit_eq take_bit_eq_mod [of 7 "unat z"])
  have L: "le_nat (a # m) < 2 ^ 248" using le_nat_less [of "a # m"] by (simp add: s(2))
  have "le_nat s = le_nat (a # m) + 2 ^ 248 * unat z" using le_nat_append [of "a # m" "[z]"] by (simp add: s)
  also have "\<dots> = (le_nat (a # m) + 2 ^ 248 * (unat z mod 128)) + 2 ^ 255 * (unat z div 128)"
    by (subst (1) mod_mult_div_eq [of "unat z" 128, symmetric]) (simp only: algebra_simps, simp)
  finally have "le_nat s mod 2 ^ 255 = le_nat (a # m) + 2 ^ 248 * (unat z mod 128)"
    by (rule div_mod_unique(2)) (use L mod_less_divisor [of 128 "unat z"] in simp)
  then show ?thesis unfolding u le_nat_append using z by (simp add: s(2))
qed

lemma has_small_order_eq:
  assumes "length s = 32"
  shows "has_small_order s = of_bool (le_nat s mod 2 ^ 255 \<in> set small_order_points)"
proof -
  let ?t = "s[31 := s ! 31 AND 0x7f]"
  have "has_small_order s = of_bool (\<exists>b \<in> set blacklist. small_order_diff s b = 0)"
    unfolding has_small_order_def and_one_eq mod_2_eq_odd bit_iff_odd_drop_bit [symmetric] bit_fold_or diff_bit_8 by simp
  also have "(\<exists>b \<in> set blacklist. small_order_diff s b = 0) \<longleftrightarrow> ?t \<in> set blacklist"
    using small_order_diff_eq_0 [OF assms] blacklist_points(2) unfolding list_all_iff by blast
  also have "\<dots> \<longleftrightarrow> le_nat ?t \<in> le_nat ` set blacklist"
    using le_nat_inj [of ?t] blacklist_points(2) assms unfolding list_all_iff by force
  also have "le_nat ` set blacklist = set small_order_points" using blacklist_points(1) by (metis set_map)
  finally show ?thesis unfolding le_nat_clear_top [OF assms] .
qed

section \<open>Properties\<close>

text \<open>
  C15: X25519 as libsodium computes it is X25519 of RFC 7748. On 32-byte arguments the ladder on limbs returns the
  little-endian bytes of the reference on integers modulo \<open>2 ^ 255 - 19\<close>, for the clamped scalar and the
  coordinate without its top bit; it refuses exactly the points of the list of small order.
\<close>

theorem x25519_rfc7748:
  assumes "length n = 32" "length p = 32"
  shows "crypto_scalarmult_curve25519_ref10 n p =
    (if le_nat p mod 2 ^ 255 \<in> set small_order_points then None
     else Some (nat_le 32 (x25519_spec (clamp_nat (le_nat n)) (le_nat p mod 2 ^ 255))))"
  using crypto_scalarmult_curve25519_ref10_eq [OF assms] has_small_order_eq [OF assms(2)]
  by (auto simp: crypto_scalarmult_curve25519_ref10_def)

theorem x25519_rfc7748_witness:
  "crypto_scalarmult_curve25519_ref10 (replicate 32 1) (9 # zeros 31)
     = Some (nat_le 32 (x25519_spec (clamp_nat (le_nat (replicate 32 1))) 9))
   \<and> crypto_scalarmult_curve25519_ref10 (replicate 32 1) (zeros 32) = None"
proof -
  have "9 \<notin> set small_order_points" "0 \<in> set small_order_points" by (simp_all add: small_order_points_def p25519_def)
  then show ?thesis
    using x25519_rfc7748 [of "replicate 32 1" "9 # zeros 31"] x25519_rfc7748 [of "replicate 32 1" "zeros 32"] by simp
qed

text \<open>
  Every element of the field has one encoding, whatever its limbs: \<open>fe25519_tobytes\<close> writes the value modulo the
  prime in little-endian order, and \<open>fe25519_frombytes\<close> reads it back with reduced limbs.
\<close>

theorem fe25519_bytes_canonical:
  "fe25519_tobytes f = nat_le 32 (fe_val f mod p25519)
   \<and> fe_val (fe25519_frombytes (fe25519_tobytes f)) = fe_val f mod p25519
   \<and> fe_bounded 51 (fe25519_frombytes (fe25519_tobytes f))"
proof -
  have "fe_val f mod p25519 < 2 ^ 255"
    by (rule less_trans [OF mod_less_divisor]) (simp_all add: p25519_def)
  then have "le_nat (fe25519_tobytes f) mod 2 ^ 255 = fe_val f mod p25519" unfolding fe25519_tobytes_val(1) by (rule mod_less)
  moreover note fe25519_frombytes_val [OF fe25519_tobytes_val(2) [of f]]
  moreover have "fe25519_tobytes f = nat_le 32 (fe_val f mod p25519)" by (simp only: fe25519_tobytes_eq nat_fe_res)
  ultimately show ?thesis by (simp only:)
qed

text \<open>
  C23: the bounds on limbs under which the formulas of the curve are written are kept. Sums and differences of
  elements with limbs below \<open>2 ^ 52\<close> have limbs below \<open>2 ^ 53\<close>; products, squares, doubled squares, small
  multiples and inverses of elements with limbs below \<open>2 ^ 53\<close> have limbs below \<open>2 ^ 52\<close> again.
\<close>

theorem fe25519_limb_bounds:
  "(fe_bounded 52 f \<and> fe_bounded 52 g \<longrightarrow> fe_bounded 53 (fe25519_add f g) \<and> fe_bounded 53 (fe25519_sub f g))
   \<and> (fe_bounded 53 f \<and> fe_bounded 53 g \<longrightarrow>
        fe_bounded 52 (fe25519_mul f g) \<and> fe_bounded 52 (fe25519_sq f) \<and> fe_bounded 52 (fe25519_sq2 f)
        \<and> fe_bounded 52 (fe25519_mul32 f n) \<and> fe_bounded 52 (fe25519_invert f))"
  by simp

theorem fe25519_limb_bounds_witness:
  "fe_bounded 53 (fe25519_add (9, 1, 2, 3, 4) (5, 6, 7, 8, 9)) \<and> fe_bounded 52 (fe25519_mul (9, 1, 2, 3, 4) (5, 6, 7, 8, 9))"
  using fe25519_limb_bounds [of "(9, 1, 2, 3, 4)" "(5, 6, 7, 8, 9)" 0] by simp

text \<open>
  C22: the operations on limbs compute in the field: without overflow of a 64-bit or 128-bit word, the results are
  the sum, difference, product, square, doubled square and small multiple modulo the prime, and
  \<open>fe25519_invert\<close> is the power \<open>p - 2\<close>. The square is the product of the element with itself, limb for limb.
\<close>

theorem fe25519_field_operations:
  assumes "fe_bounded 52 f" "fe_bounded 52 g"
  shows "fe_res (fe25519_add f g) = (fe_res f + fe_res g) mod int p25519
    \<and> fe_res (fe25519_sub f g) = (fe_res f - fe_res g) mod int p25519
    \<and> fe_res (fe25519_mul f g) = fe_res f * fe_res g mod int p25519
    \<and> fe25519_sq f = fe25519_mul f f
    \<and> fe_res (fe25519_sq2 f) = 2 * fe_res f ^ 2 mod int p25519
    \<and> fe_res (fe25519_mul32 f n) = fe_res f * int (unat n) mod int p25519
    \<and> fe_res (fe25519_invert f) = fe_res f ^ (p25519 - 2) mod int p25519"
proof -
  have "fe25519_sq f = fe25519_mul f f"
    unfolding fe25519_sq_def fe25519_mul_def fe25519_sq_wide_eq [OF fe_bounded_weaken(2) [OF fe_bounded_weaken(1) [OF assms(1)]]] ..
  then show ?thesis using assms by simp
qed

theorem fe25519_field_operations_witness:
  "fe_res (fe25519_mul (9, 1, 2, 3, 4) (5, 6, 7, 8, 9)) = fe_res (9, 1, 2, 3, 4) * fe_res (5, 6, 7, 8, 9) mod int p25519"
  using fe25519_field_operations [of "(9, 1, 2, 3, 4)" "(5, 6, 7, 8, 9)" 0] by simp

end
