(* ===== verification/Ge25519.thy ===== *)
theory Ge25519
  imports Fe25519
begin

text \<open>
  Points of the twisted Edwards curve of Curve25519 in the representations of ed25519_ref10.h, and the
  operations of ed25519_ref10.c that the multiplication of the base point uses: addition of a table entry,
  doubling, the conversions, the selection of a table entry without branches, and the signed digits of a scalar.
\<close>

unbundle bit_operations_syntax

section \<open>Representations\<close>

record ge25519_p2 =
  p2_X :: fe25519
  p2_Y :: fe25519
  p2_Z :: fe25519

record ge25519_p3 =
  p3_X :: fe25519
  p3_Y :: fe25519
  p3_Z :: fe25519
  p3_T :: fe25519

record ge25519_p1p1 =
  p1p1_X :: fe25519
  p1p1_Y :: fe25519
  p1p1_Z :: fe25519
  p1p1_T :: fe25519

record ge25519_precomp =
  yplusx :: fe25519
  yminusx :: fe25519
  xy2d :: fe25519

text \<open>A \<open>signed char\<close>; \<open>sint\<close> reads its value.\<close>

type_synonym schar = "8 word"

section \<open>Operations\<close>

definition ge25519_madd :: "ge25519_p3 \<Rightarrow> ge25519_precomp \<Rightarrow> ge25519_p1p1" where
  "ge25519_madd p q =
     (let rX = fe25519_add (p3_Y p) (p3_X p);
          rY = fe25519_sub (p3_Y p) (p3_X p);
          rZ = fe25519_mul rX (yplusx q);
          rY = fe25519_mul rY (yminusx q);
          rT = fe25519_mul (xy2d q) (p3_T p);
          t0 = fe25519_add (p3_Z p) (p3_Z p);
          rX = fe25519_sub rZ rY;
          rY = fe25519_add rZ rY;
          rZ = fe25519_add t0 rT;
          rT = fe25519_sub t0 rT
      in \<lparr>p1p1_X = rX, p1p1_Y = rY, p1p1_Z = rZ, p1p1_T = rT\<rparr>)"

definition ge25519_p1p1_to_p2 :: "ge25519_p1p1 \<Rightarrow> ge25519_p2" where
  "ge25519_p1p1_to_p2 p =
     \<lparr>p2_X = fe25519_mul (p1p1_X p) (p1p1_T p), p2_Y = fe25519_mul (p1p1_Y p) (p1p1_Z p),
      p2_Z = fe25519_mul (p1p1_Z p) (p1p1_T p)\<rparr>"

definition ge25519_p1p1_to_p3 :: "ge25519_p1p1 \<Rightarrow> ge25519_p3" where
  "ge25519_p1p1_to_p3 p =
     \<lparr>p3_X = fe25519_mul (p1p1_X p) (p1p1_T p), p3_Y = fe25519_mul (p1p1_Y p) (p1p1_Z p),
      p3_Z = fe25519_mul (p1p1_Z p) (p1p1_T p), p3_T = fe25519_mul (p1p1_X p) (p1p1_Y p)\<rparr>"

definition ge25519_p2_dbl :: "ge25519_p2 \<Rightarrow> ge25519_p1p1" where
  "ge25519_p2_dbl p =
     (let rX = fe25519_sq (p2_X p);
          rZ = fe25519_sq (p2_Y p);
          rT = fe25519_sq2 (p2_Z p);
          rY = fe25519_add (p2_X p) (p2_Y p);
          t0 = fe25519_sq rY;
          rY = fe25519_add rZ rX;
          rZ = fe25519_sub rZ rX;
          rX = fe25519_sub t0 rY;
          rT = fe25519_sub rT rZ
      in \<lparr>p1p1_X = rX, p1p1_Y = rY, p1p1_Z = rZ, p1p1_T = rT\<rparr>)"

definition ge25519_p3_0 :: ge25519_p3 where
  "ge25519_p3_0 = \<lparr>p3_X = fe25519_0, p3_Y = fe25519_1, p3_Z = fe25519_1, p3_T = fe25519_0\<rparr>"

definition ge25519_p3_to_p2 :: "ge25519_p3 \<Rightarrow> ge25519_p2" where
  "ge25519_p3_to_p2 p = \<lparr>p2_X = fe25519_copy (p3_X p), p2_Y = fe25519_copy (p3_Y p), p2_Z = fe25519_copy (p3_Z p)\<rparr>"

definition ge25519_p3_dbl :: "ge25519_p3 \<Rightarrow> ge25519_p1p1" where
  "ge25519_p3_dbl p = ge25519_p2_dbl (ge25519_p3_to_p2 p)"

section \<open>Selection from a table\<close>

definition ge25519_precomp_0 :: ge25519_precomp where
  "ge25519_precomp_0 = \<lparr>yplusx = fe25519_1, yminusx = fe25519_1, xy2d = fe25519_0\<rparr>"

definition ge_equal :: "schar \<Rightarrow> schar \<Rightarrow> u8" where
  "ge_equal b c =
     (let x = b XOR c;
          y = ucast x :: u32;
          y = y - 1;
          y = drop_bit 31 y
      in ucast y)"

definition ge_negative :: "schar \<Rightarrow> u8" where
  "ge_negative b = ucast (drop_bit 63 (scast b :: u64))"

definition ge25519_cmov :: "ge25519_precomp \<Rightarrow> ge25519_precomp \<Rightarrow> u8 \<Rightarrow> ge25519_precomp" where
  "ge25519_cmov t u b =
     \<lparr>yplusx = fe25519_cmov (yplusx t) (yplusx u) (ucast b), yminusx = fe25519_cmov (yminusx t) (yminusx u) (ucast b),
      xy2d = fe25519_cmov (xy2d t) (xy2d u) (ucast b)\<rparr>"

definition ge25519_cmov8 :: "ge25519_precomp list \<Rightarrow> schar \<Rightarrow> ge25519_precomp" where
  "ge25519_cmov8 precomp b =
     (let bnegative = ge_negative b;
          babs = b - ((- bnegative) AND b) * 2;
          t = ge25519_precomp_0;
          t = ge25519_cmov t (precomp ! 0) (ge_equal babs 1);
          t = ge25519_cmov t (precomp ! 1) (ge_equal babs 2);
          t = ge25519_cmov t (precomp ! 2) (ge_equal babs 3);
          t = ge25519_cmov t (precomp ! 3) (ge_equal babs 4);
          t = ge25519_cmov t (precomp ! 4) (ge_equal babs 5);
          t = ge25519_cmov t (precomp ! 5) (ge_equal babs 6);
          t = ge25519_cmov t (precomp ! 6) (ge_equal babs 7);
          t = ge25519_cmov t (precomp ! 7) (ge_equal babs 8);
          minust = \<lparr>yplusx = fe25519_copy (yminusx t), yminusx = fe25519_copy (yplusx t), xy2d = fe25519_neg (xy2d t)\<rparr>
      in ge25519_cmov t minust bnegative)"

section \<open>Signed digits\<close>

text \<open>The digits of base 16, each between 0 and 15, and the loop that makes them signed.\<close>

definition nibbles :: "bytes \<Rightarrow> schar list" where
  "nibbles a = concat (map (\<lambda>b. [drop_bit 0 b AND 15, drop_bit 4 b AND 15]) a)"

definition recode_step :: "schar list \<times> schar \<Rightarrow> nat \<Rightarrow> schar list \<times> schar" where
  "recode_step ec i =
     (case ec of (e, carry) \<Rightarrow>
      (let e = e[i := e ! i + carry];
           carry = e ! i + 8;
           carry = signed_drop_bit 4 carry;
           e = e[i := e ! i - carry * push_bit 4 1]
       in (e, carry)))"

definition recode :: "bytes \<Rightarrow> schar list" where
  "recode a =
     (case foldl recode_step (nibbles (take 32 a), 0) [0..<63] of
        (e, carry) \<Rightarrow> e[63 := e ! 63 + carry])"

section \<open>Multiplication of the base point\<close>

text \<open>The table is an argument here; \<open>base\<close> of \<open>Ge25519_Base\<close> is the one of the library.\<close>

definition madd_digit :: "ge25519_precomp list list \<Rightarrow> schar list \<Rightarrow> ge25519_p3 \<Rightarrow> nat \<Rightarrow> ge25519_p3" where
  "madd_digit base e h i =
     (let t = ge25519_cmov8 (base ! (i div 2)) (e ! i);
          r = ge25519_madd h t
      in ge25519_p1p1_to_p3 r)"

definition scalarmult_digits :: "ge25519_precomp list list \<Rightarrow> schar list \<Rightarrow> ge25519_p3" where
  "scalarmult_digits base e =
     (let h = ge25519_p3_0;
          h = foldl (madd_digit base e) h (map (\<lambda>k. 2 * k + 1) [0..<32]);
          r = ge25519_p3_dbl h;
          s = ge25519_p1p1_to_p2 r;
          r = ge25519_p2_dbl s;
          s = ge25519_p1p1_to_p2 r;
          r = ge25519_p2_dbl s;
          s = ge25519_p1p1_to_p2 r;
          r = ge25519_p2_dbl s;
          h = ge25519_p1p1_to_p3 r
      in foldl (madd_digit base e) h (map (\<lambda>k. 2 * k) [0..<32]))"

end
