(* ===== verification/Ge25519_Correct.thy ===== *)
theory Ge25519_Correct
  imports Ge25519_Base Fe25519_Field
begin

text \<open>
  The multiplication of the base point on limbs computes the same formulas on integers modulo the prime, for
  signed digits of the scalar; the formulas keep points on the curve.
\<close>

unbundle bit_operations_syntax

definition ed25519_d :: fe25519 where
  "ed25519_d = (929955233495203, 466365720129213, 1662059464998953, 2033849074728123, 1442794654840575)"

section \<open>Signed digits\<close>

definition digits_val :: "schar list \<Rightarrow> int" where
  "digits_val e = (\<Sum>i<length e. sint (e ! i) * 16 ^ i)"

lemma digits_val_Cons: "digits_val (x # e) = sint x + 16 * digits_val e"
  by (simp add: digits_val_def sum.lessThan_Suc_shift sum_distrib_left mult.left_commute del: sum.lessThan_Suc)

lemma digits_val_update:
  assumes "i < length e"
  shows "digits_val (e[i := x]) = digits_val e + (sint x - sint (e ! i)) * 16 ^ i"
proof -
  have "(\<Sum>j<length e. sint (e[i := x] ! j) * 16 ^ j) = (\<Sum>j<length e. sint (e ! j) * 16 ^ j + (if j = i then (sint x - sint (e ! i)) * 16 ^ i else 0))"
    using assms by (intro sum.cong) (auto simp: nth_list_update algebra_simps)
  also have "\<dots> = (\<Sum>j<length e. sint (e ! j) * 16 ^ j) + (sint x - sint (e ! i)) * 16 ^ i"
    using assms by (simp add: sum.distrib)
  finally show ?thesis by (simp add: digits_val_def)
qed

lemma schar_small: "uint (w :: schar) < 128 \<Longrightarrow> sint w = uint w"
  unfolding sint_uint by (rule signed_take_bit_int_eq_self) (rule order_trans [OF _ uint_nonnegative], simp_all)

lemma schar_add: "- 128 \<le> sint a + sint b \<Longrightarrow> sint a + sint b < 128 \<Longrightarrow> sint (a + b :: schar) = sint a + sint b"
  unfolding sint_word_ariths by (rule signed_take_bit_int_eq_self) simp_all

lemma schar_sub: "- 128 \<le> sint a - sint b \<Longrightarrow> sint a - sint b < 128 \<Longrightarrow> sint (a - b :: schar) = sint a - sint b"
  unfolding sint_word_ariths by (rule signed_take_bit_int_eq_self) simp_all

lemma schar_mult: "- 128 \<le> sint a * sint b \<Longrightarrow> sint a * sint b < 128 \<Longrightarrow> sint (a * b :: schar) = sint a * sint b"
  unfolding sint_word_ariths by (rule signed_take_bit_int_eq_self) simp_all

lemma nibble_val: "sint (drop_bit 0 b AND 15 :: schar) = uint b mod 16" "sint (drop_bit 4 b AND 15 :: schar) = uint b div 16"
proof -
  have s: "sint (w AND 15 :: schar) = uint w mod 16" for w
  proof -
    have a: "w AND 15 = take_bit 4 w" by (simp add: take_bit_eq_mask mask_eq_exp_minus_1)
    then have u: "uint (w AND 15) = uint w mod 16" by (simp add: unsigned_take_bit_eq take_bit_eq_mod [of 4 "uint w"])
    have "uint w mod 16 < 128" by (rule less_trans [OF pos_mod_bound]) simp_all
    then show ?thesis using schar_small [of "w AND 15"] unfolding u by simp
  qed
  show "sint (drop_bit 0 b AND 15 :: schar) = uint b mod 16" by (simp add: s)
  have "uint b < 256" using uint_bounded [of b] by simp
  then have "uint b div 16 < 16" by (simp add: int_div_less_self div_less_iff_less_mult)
  moreover have "uint (drop_bit 4 b) = uint b div 16" unfolding uint_nat unat_drop_bit by (simp add: zdiv_int)
  moreover have "0 \<le> uint b div 16" by (simp add: pos_imp_zdiv_nonneg_iff)
  ultimately show "sint (drop_bit 4 b AND 15 :: schar) = uint b div 16" unfolding s by (simp only: mod_pos_pos_trivial)
qed

lemma nibbles_val: "digits_val (nibbles a) = int (le_nat a)" "length (nibbles a) = 2 * length a"
proof (induction a)
  case (Cons b a)
  have n: "nibbles (b # a) = (drop_bit 0 b AND 15) # (drop_bit 4 b AND 15) # nibbles a" by (simp add: nibbles_def)
  {
    case 1
    have "uint b mod 16 + 16 * (uint b div 16) = int (unat b)" by simp
    then show ?case unfolding n digits_val_Cons nibble_val Cons.IH by simp
  next
    case 2
    show ?case unfolding n by (simp add: Cons.IH)
  }
qed (simp_all add: nibbles_def digits_val_def)

lemma nibbles_range: "d \<in> set (nibbles a) \<Longrightarrow> 0 \<le> sint d \<and> sint d < 16"
proof -
  assume "d \<in> set (nibbles a)"
  then obtain b where "d = drop_bit 0 b AND 15 \<or> d = drop_bit 4 b AND 15" unfolding nibbles_def by auto
  then have "sint d = uint b mod 16 \<or> sint d = uint b div 16" using nibble_val [of b] by blast
  moreover have "0 \<le> uint b" "uint b < 256" using uint_bounded [of b] uint_nonnegative [of b] by simp_all
  ultimately show ?thesis by (auto simp: div_less_iff_less_mult pos_imp_zdiv_nonneg_iff)
qed

text \<open>After \<open>i\<close> steps the first \<open>i\<close> digits are signed, the others untouched, and the carry stands for \<open>16 ^ i\<close>.\<close>

definition recode_inv :: "schar list \<Rightarrow> nat \<Rightarrow> schar list \<times> schar \<Rightarrow> bool" where
  "recode_inv e0 i ec \<longleftrightarrow>
     (case ec of (e, c) \<Rightarrow>
        length e = length e0 \<and> (\<forall>j<i. - 8 \<le> sint (e ! j) \<and> sint (e ! j) < 8) \<and> (\<forall>j. i \<le> j \<longrightarrow> e ! j = e0 ! j)
        \<and> sint c \<in> {0, 1} \<and> digits_val e + sint c * 16 ^ i = digits_val e0)"

lemma recode_digit:
  fixes d c :: schar
  assumes "0 \<le> sint d" "sint d < 16" "sint c \<in> {0, 1}"
  shows "sint (signed_drop_bit 4 (d + c + 8)) = (sint d + sint c + 8) div 16"
    "sint (d + c - signed_drop_bit 4 (d + c + 8) * push_bit 4 1) = sint d + sint c - 16 * ((sint d + sint c + 8) div 16)"
proof -
  have 1: "sint (d + c) = sint d + sint c" by (rule schar_add) (use assms in auto)
  have 2: "sint (d + c + 8) = sint d + sint c + 8" using schar_add [of "d + c" 8] assms by (auto simp: 1)
  show 3: "sint (signed_drop_bit 4 (d + c + 8)) = (sint d + sint c + 8) div 16"
    unfolding sint_signed_drop_bit_eq 2 by (simp add: drop_bit_eq_div)
  have q: "(sint d + sint c + 8) div 16 \<in> {0, 1}"
  proof -
    have "0 \<le> (sint d + sint c + 8) div 16" "(sint d + sint c + 8) div 16 < 2" using assms by (auto simp: pos_imp_zdiv_nonneg_iff div_less_iff_less_mult)
    then show ?thesis by auto
  qed
  have 4: "sint (signed_drop_bit 4 (d + c + 8) * push_bit 4 1) = 16 * ((sint d + sint c + 8) div 16)"
    using schar_mult [of "signed_drop_bit 4 (d + c + 8)" 16] q unfolding 3 by (auto simp: push_bit_eq_mult)
  show "sint (d + c - signed_drop_bit 4 (d + c + 8) * push_bit 4 1) = sint d + sint c - 16 * ((sint d + sint c + 8) div 16)"
    using schar_sub [of "d + c" "signed_drop_bit 4 (d + c + 8) * push_bit 4 1"] assms q unfolding 4 1 by auto
qed

lemma recode_step_inv:
  assumes "recode_inv e0 i (e, c)" "i < length e0" "0 \<le> sint (e0 ! i)" "sint (e0 ! i) < 16"
  shows "recode_inv e0 (Suc i) (recode_step (e, c) i)"
proof -
  define d where "d = e ! i"
  define q where "q = signed_drop_bit 4 (d + c + 8)"
  define x where "x = d + c - q * push_bit 4 1"
  have inv: "length e = length e0" "\<And>j. j < i \<Longrightarrow> - 8 \<le> sint (e ! j) \<and> sint (e ! j) < 8" "\<And>j. i \<le> j \<Longrightarrow> e ! j = e0 ! j"
      "sint c \<in> {0, 1}" "digits_val e + sint c * 16 ^ i = digits_val e0"
    using assms(1) by (simp_all add: recode_inv_def)
  have d: "0 \<le> sint d" "sint d < 16" using assms(3,4) inv(3) [of i] by (simp_all add: d_def)
  note r = recode_digit [OF d inv(4), folded q_def, folded x_def]
  have st: "recode_step (e, c) i = (e[i := x], q)"
    using assms(2) inv(1) by (simp add: recode_step_def Let_def x_def q_def d_def)
  have "0 \<le> sint d + sint c" "sint d + sint c \<le> 16" using d inv(4) by auto
  then have b: "sint q \<in> {0, 1}" "- 8 \<le> sint x" "sint x < 8" unfolding r by auto
  have "digits_val (e[i := x]) = digits_val e + (sint x - sint d) * 16 ^ i"
    using digits_val_update [of i e x] assms(2) inv(1) by (simp add: d_def)
  also have "\<dots> = digits_val e0 - sint q * 16 ^ Suc i" using inv(5) unfolding r(2) r(1) [symmetric] by (simp add: algebra_simps)
  finally have "digits_val (e[i := x]) + sint q * 16 ^ Suc i = digits_val e0" by simp
  then show ?thesis
    using inv(1-3) b assms(2) unfolding st recode_inv_def by (auto simp: nth_list_update less_Suc_eq)
qed

lemma recode_loop_inv:
  assumes "n \<le> length e0" "\<And>d. d \<in> set e0 \<Longrightarrow> 0 \<le> sint d \<and> sint d < 16"
  shows "recode_inv e0 n (foldl recode_step (e0, 0) [0..<n])"
  using assms(1)
proof (induction n)
  case (Suc n)
  obtain e c where ec: "foldl recode_step (e0, 0) [0..<n] = (e, c)" by (cases "foldl recode_step (e0, 0) [0..<n]")
  have "recode_inv e0 n (e, c)" using Suc ec by simp
  from recode_step_inv [OF this, unfolded ec [symmetric]] show ?case using Suc.prems assms(2) [of "e0 ! n"] by simp
qed (simp add: recode_inv_def)

lemma nibbles_top:
  assumes "length a = 32" "le_nat a < 2 ^ 255"
  shows "0 \<le> sint (nibbles a ! 63)" "sint (nibbles a ! 63) < 8"
proof -
  obtain m z where a: "a = m @ [z]" "length m = 31" using assms(1) by (cases a rule: rev_cases) auto
  have "nibbles a = nibbles m @ [drop_bit 0 z AND 15, drop_bit 4 z AND 15]" by (simp add: a nibbles_def)
  then have n: "sint (nibbles a ! 63) = uint z div 16" using nibbles_val(2) [of m] a(2) nibble_val(2) [of z] by (simp add: nth_append)
  have "256 ^ 31 * unat z < 2 ^ 255" using assms(2) a(2) by (simp add: a(1) le_nat_append)
  then have "unat z < 128" by simp
  then have "uint z < 128" unfolding uint_nat by linarith
  then show "0 \<le> sint (nibbles a ! 63)" "sint (nibbles a ! 63) < 8"
    unfolding n by (simp_all add: pos_imp_zdiv_nonneg_iff div_less_iff_less_mult)
qed

text \<open>The digits of the scalar are between -8 and 8 and represent it, if its top byte is at most 127.\<close>

lemma recode_val:
  assumes "length a = 32" "le_nat a < 2 ^ 255"
  shows "length (recode a) = 64" "digits_val (recode a) = int (le_nat a)" "d \<in> set (recode a) \<Longrightarrow> - 8 \<le> sint d \<and> sint d \<le> 8"
proof -
  define e0 where "e0 = nibbles a"
  have l: "length e0 = 64" using assms(1) by (simp add: e0_def nibbles_val)
  obtain e c where ec: "foldl recode_step (e0, 0) [0..<63] = (e, c)" by (cases "foldl recode_step (e0, 0) [0..<63]")
  have "recode_inv e0 63 (foldl recode_step (e0, 0) [0..<63])"
    by (rule recode_loop_inv) (use l nibbles_range [of _ a] in \<open>simp_all add: e0_def\<close>)
  then have inv: "length e = 64" "\<And>j. j < 63 \<Longrightarrow> - 8 \<le> sint (e ! j) \<and> sint (e ! j) < 8" "e ! 63 = e0 ! 63" "sint c \<in> {0, 1}"
      "digits_val e + sint c * 16 ^ 63 = digits_val e0"
    unfolding ec recode_inv_def using l by simp_all
  have top: "0 \<le> sint (e0 ! 63)" "sint (e0 ! 63) < 8" unfolding e0_def by (rule nibbles_top [OF assms])+
  have s: "sint (e ! 63 + c) = sint (e ! 63) + sint c" by (rule schar_add) (use top inv(3,4) in auto)
  have r: "recode a = e[63 := e ! 63 + c]" using ec assms(1) by (simp add: recode_def e0_def)
  show "length (recode a) = 64" by (simp add: r inv)
  show "digits_val (recode a) = int (le_nat a)"
    using digits_val_update [of 63 e "e ! 63 + c"] inv(1,5) nibbles_val(1) [of a] unfolding r s e0_def by simp
  assume "d \<in> set (recode a)"
  then obtain j where "j < 64" "d = recode a ! j" using \<open>length (recode a) = 64\<close> by (metis in_set_conv_nth)
  then consider "j = 63" | "j < 63" by linarith
  then show "- 8 \<le> sint d \<and> sint d \<le> 8"
  proof cases
    case 1
    then show ?thesis using \<open>d = recode a ! j\<close> inv(1,3,4) top s by (auto simp: r)
  next
    case 2
    then show ?thesis using \<open>d = recode a ! j\<close> inv(2) [OF 2] by (simp add: r)
  qed
qed

section \<open>Selection from a table\<close>

lemma ge_equal_eq: "ge_equal b c = of_bool (b = c)"
proof -
  have "(drop_bit 31 (ucast x - 1 :: u32)) = of_bool (x = 0)" for x :: u8
  proof (cases "x = 0")
    case False
    have u: "unat (ucast x :: u32) = unat x"
      unfolding unsigned_ucast_eq by (rule take_bit_nat_eq_self) (rule less_trans [OF unat_u8_less], simp)
    with False have "(ucast x :: u32) \<noteq> 0" by (metis unat_eq_zero)
    then have "unat (ucast x - 1 :: u32) < 2 ^ 31" using unat_u8_less [of x] u by (simp add: unat_minus_one del: unat_u8_less)
    then have "unat (drop_bit 31 (ucast x - 1 :: u32)) = 0" unfolding unat_drop_bit by simp
    then show ?thesis using False by (simp add: unat_eq_zero)
  qed simp
  moreover have "b XOR c = 0 \<longleftrightarrow> b = c" by (simp add: bit_eq_iff bit_xor_iff)
  ultimately show ?thesis by (simp add: ge_equal_def Let_def)
qed

lemma ge_negative_eq: "ge_negative b = of_bool (sint b < 0)"
proof -
  have "sint b < 0 \<longleftrightarrow> bit b 7" by (simp add: sint_uint bit_uint_iff)
  moreover have "drop_bit 63 (scast b :: u64) = of_bool (bit b 7)"
    by (rule bit_eqI) (auto simp: bit_drop_bit_eq bit_signed_iff bit_1_iff)
  ultimately show ?thesis by (simp add: ge_negative_def)
qed

lemma ge25519_cmov_eq: "ge25519_cmov t u (of_bool P) = (if P then u else t)"
    "ge25519_cmov t u 0 = t" "ge25519_cmov t u 1 = u"
  by (cases t; cases u; simp add: ge25519_cmov_def fe25519_cmov_eq)+

definition precomp_neg :: "ge25519_precomp \<Rightarrow> ge25519_precomp" where
  "precomp_neg t = \<lparr>yplusx = yminusx t, yminusx = yplusx t, xy2d = fe25519_neg (xy2d t)\<rparr>"

definition precomp_pick :: "ge25519_precomp list \<Rightarrow> int \<Rightarrow> ge25519_precomp" where
  "precomp_pick tab e =
     (if e = 0 then ge25519_precomp_0 else if 0 < e then tab ! nat (e - 1) else precomp_neg (tab ! nat (- e - 1)))"

lemma schar_of_sint: "sint (b :: schar) = k \<Longrightarrow> b = word_of_int k"
  by auto

lemma schar_cases:
  assumes "- 8 \<le> sint (b :: schar)" "sint b \<le> 8"
  shows "b = - 8 \<or> b = - 7 \<or> b = - 6 \<or> b = - 5 \<or> b = - 4 \<or> b = - 3 \<or> b = - 2 \<or> b = - 1 \<or> b = 0
    \<or> b = 1 \<or> b = 2 \<or> b = 3 \<or> b = 4 \<or> b = 5 \<or> b = 6 \<or> b = 7 \<or> b = 8"
proof -
  have "sint b = - 8 \<or> sint b = - 7 \<or> sint b = - 6 \<or> sint b = - 5 \<or> sint b = - 4 \<or> sint b = - 3 \<or> sint b = - 2 \<or> sint b = - 1
    \<or> sint b = 0 \<or> sint b = 1 \<or> sint b = 2 \<or> sint b = 3 \<or> sint b = 4 \<or> sint b = 5 \<or> sint b = 6 \<or> sint b = 7 \<or> sint b = 8"
    using assms by presburger
  then show ?thesis by (elim disjE) (drule schar_of_sint, simp)+
qed

lemma ge25519_cmov8_eq:
  assumes "- 8 \<le> sint b" "sint b \<le> 8"
  shows "ge25519_cmov8 tab b = precomp_pick tab (sint b)"
  using schar_cases [OF assms]
  by (elim disjE; simp add: ge25519_cmov8_def Let_def ge_negative_eq ge_equal_eq ge25519_cmov_eq precomp_pick_def precomp_neg_def fe25519_copy_def)

section \<open>The formulas on integers\<close>

text \<open>
  A point \<open>(X, Y, Z, T)\<close> stands for \<open>x = X / Z\<close> and \<open>y = Y / Z\<close> with \<open>T = X Y / Z\<close>; a table entry for a point is
  \<open>(y + x, y - x, 2 d x y)\<close>. A sum and a double are first obtained in the completed form \<open>((X : Z), (Y : T))\<close>.
\<close>

type_synonym ed_point = "int \<times> int \<times> int \<times> int"
type_synonym ed_entry = "int \<times> int \<times> int"

definition ed_complete :: "int \<Rightarrow> int \<Rightarrow> int \<Rightarrow> int \<Rightarrow> ed_point" where
  "ed_complete X Y Z T = (X * T mod int p25519, Y * Z mod int p25519, Z * T mod int p25519, X * Y mod int p25519)"

definition ed_madd :: "ed_point \<Rightarrow> ed_entry \<Rightarrow> ed_point" where
  "ed_madd P q =
     (case (P, q) of ((X, Y, Z, T), (yp, ym, t2)) \<Rightarrow>
      (let a = (Y + X) * yp; b = (Y - X) * ym; c = t2 * T; d = 2 * Z
       in ed_complete (a - b) (a + b) (d + c) (d - c)))"

definition ed_dbl :: "ed_point \<Rightarrow> ed_point" where
  "ed_dbl P =
     (case P of (X, Y, Z, T) \<Rightarrow>
      (let a = X ^ 2; b = Y ^ 2; c = 2 * Z ^ 2
       in ed_complete ((X + Y) ^ 2 - (b + a)) (b + a) (b - a) (c - (b - a))))"

definition ed_0 :: ed_point where
  "ed_0 = (0, 1, 1, 0)"

text \<open>The multiple \<open>e\<close> of the entry of a window, for a digit \<open>e\<close> between -8 and 8.\<close>

definition ed_pick :: "ed_entry list \<Rightarrow> int \<Rightarrow> ed_entry" where
  "ed_pick tab e =
     (if e = 0 then (1, 1, 0) else if 0 < e then tab ! nat (e - 1)
      else case tab ! nat (- e - 1) of (yp, ym, t2) \<Rightarrow> (ym, yp, - t2 mod int p25519))"

definition ed_scalarmult :: "ed_entry list list \<Rightarrow> int list \<Rightarrow> ed_point" where
  "ed_scalarmult tab ds =
     (let add = (\<lambda>P i. ed_madd P (ed_pick (tab ! (i div 2)) (ds ! i)));
          P = foldl add ed_0 (filter odd [0..<64]);
          P = ed_dbl (ed_dbl (ed_dbl (ed_dbl P)))
      in foldl add P (filter even [0..<64]))"

section \<open>From limbs to integers\<close>

definition p3_res :: "ge25519_p3 \<Rightarrow> ed_point" where
  "p3_res p = (fe_res (p3_X p), fe_res (p3_Y p), fe_res (p3_Z p), fe_res (p3_T p))"

definition p3_bounded :: "ge25519_p3 \<Rightarrow> bool" where
  "p3_bounded p \<longleftrightarrow> fe_bounded 52 (p3_X p) \<and> fe_bounded 52 (p3_Y p) \<and> fe_bounded 52 (p3_Z p) \<and> fe_bounded 52 (p3_T p)"

definition precomp_res :: "ge25519_precomp \<Rightarrow> ed_entry" where
  "precomp_res q = (fe_res (yplusx q), fe_res (yminusx q), fe_res (xy2d q))"

lemma ge25519_madd_res:
  assumes "p3_bounded p" "precomp_bounded 53 q"
  shows "p3_res (ge25519_p1p1_to_p3 (ge25519_madd p q)) = ed_madd (p3_res p) (precomp_res q)"
    "p3_bounded (ge25519_p1p1_to_p3 (ge25519_madd p q))"
  using assms
  by (simp_all add: p3_res_def p3_bounded_def precomp_res_def precomp_bounded_def ge25519_p1p1_to_p3_def ge25519_madd_def Let_def
      ed_madd_def ed_complete_def mod_simps)

text \<open>The code leaves out \<open>T\<close> between two doublings; the formula does not use it.\<close>

definition p2_rel :: "ge25519_p2 \<Rightarrow> ed_point \<Rightarrow> bool" where
  "p2_rel p P \<longleftrightarrow> fe_bounded 52 (p2_X p) \<and> fe_bounded 52 (p2_Y p) \<and> fe_bounded 52 (p2_Z p)
     \<and> (\<exists>T. P = (fe_res (p2_X p), fe_res (p2_Y p), fe_res (p2_Z p), T))"

lemma p3_to_p2_rel: "p3_bounded p \<Longrightarrow> p2_rel (ge25519_p3_to_p2 p) (p3_res p)"
  by (simp add: p2_rel_def p3_bounded_def p3_res_def ge25519_p3_to_p2_def fe25519_copy_def)

lemma p2_dbl_rel:
  assumes "p2_rel p P"
  shows "p2_rel (ge25519_p1p1_to_p2 (ge25519_p2_dbl p)) (ed_dbl P)"
    "p3_res (ge25519_p1p1_to_p3 (ge25519_p2_dbl p)) = ed_dbl P" "p3_bounded (ge25519_p1p1_to_p3 (ge25519_p2_dbl p))"
  using assms
  by (auto simp: p2_rel_def p3_res_def p3_bounded_def ge25519_p1p1_to_p2_def ge25519_p1p1_to_p3_def ge25519_p2_dbl_def Let_def
      ed_dbl_def ed_complete_def mod_simps)

lemma four_doublings:
  assumes "p3_bounded h"
  defines "r \<equiv> ge25519_p1p1_to_p3 (ge25519_p2_dbl (ge25519_p1p1_to_p2 (ge25519_p2_dbl (ge25519_p1p1_to_p2 (ge25519_p2_dbl
    (ge25519_p1p1_to_p2 (ge25519_p3_dbl h)))))))"
  shows "p3_res r = ed_dbl (ed_dbl (ed_dbl (ed_dbl (p3_res h))))" "p3_bounded r"
proof -
  have "p2_rel (ge25519_p1p1_to_p2 (ge25519_p2_dbl (ge25519_p1p1_to_p2 (ge25519_p2_dbl (ge25519_p1p1_to_p2 (ge25519_p3_dbl h))))))
      (ed_dbl (ed_dbl (ed_dbl (p3_res h))))"
    unfolding ge25519_p3_dbl_def by (intro p2_dbl_rel(1) p3_to_p2_rel assms(1))
  from p2_dbl_rel(2,3) [OF this] show "p3_res r = ed_dbl (ed_dbl (ed_dbl (ed_dbl (p3_res h))))" "p3_bounded r"
    unfolding r_def by blast+
qed

lemma precomp_pick_res:
  assumes "list_all (precomp_bounded 51) tab" "length tab = 8" "- 8 \<le> e" "e \<le> 8"
  shows "precomp_res (precomp_pick tab e) = ed_pick (map precomp_res tab) e" "precomp_bounded 53 (precomp_pick tab e)"
proof -
  have b: "precomp_bounded 52 (tab ! k)" if "k < 8" for k
    using assms(1,2) that fe_bounded_mono [of 51 _ 52] by (auto simp: list_all_length precomp_bounded_def)
  have k: "nat (e - 1) < 8" "nat (- e - 1) < 8" using assms(3,4) by linarith+
  have n: "precomp_bounded 53 (precomp_neg (tab ! k))" "precomp_res (precomp_neg (tab ! k))
      = (case precomp_res (tab ! k) of (yp, ym, t2) \<Rightarrow> (ym, yp, - t2 mod int p25519))" if "k < 8" for k
    using b [OF that] by (simp_all add: precomp_bounded_def precomp_neg_def precomp_res_def)
  have z: "precomp_bounded 53 ge25519_precomp_0" "precomp_res ge25519_precomp_0 = (1, 1, 0)"
    by (simp_all add: precomp_bounded_def precomp_res_def ge25519_precomp_0_def)
  have b3: "precomp_bounded 53 (tab ! k)" if "k < 8" for k using b [OF that] by (simp add: precomp_bounded_def)
  show "precomp_res (precomp_pick tab e) = ed_pick (map precomp_res tab) e"
    using k assms(2) n(2) z(2) by (simp add: precomp_pick_def ed_pick_def)
  show "precomp_bounded 53 (precomp_pick tab e)"
    using b3 [OF k(1)] n(1) [OF k(2)] z(1) by (simp add: precomp_pick_def)
qed

text \<open>The windows of the table as the code has it: 32 lists of 8 entries with reduced limbs.\<close>

definition table_ok :: "ge25519_precomp list list \<Rightarrow> bool" where
  "table_ok tab \<longleftrightarrow> length tab = 32 \<and> list_all (\<lambda>t. length t = 8 \<and> list_all (precomp_bounded 51) t) tab"

definition table_res :: "ge25519_precomp list list \<Rightarrow> ed_entry list list" where
  "table_res tab = map (map precomp_res) tab"

lemma madd_digit_res:
  assumes "table_ok tab" "length e = 64" "\<And>d. d \<in> set e \<Longrightarrow> - 8 \<le> sint d \<and> sint d \<le> 8" "p3_bounded h" "i < 64"
  shows "p3_res (madd_digit tab e h i) = ed_madd (p3_res h) (ed_pick (table_res tab ! (i div 2)) (map sint e ! i))"
    "p3_bounded (madd_digit tab e h i)"
proof -
  let ?t = "tab ! (i div 2)" and ?d = "e ! i"
  have t: "length ?t = 8" "list_all (precomp_bounded 51) ?t" using assms(1,5) by (auto simp: table_ok_def list_all_length)
  have d: "- 8 \<le> sint ?d" "sint ?d \<le> 8" using assms(2,3,5) by simp_all
  note p = precomp_pick_res [OF t(2,1) d]
  have "madd_digit tab e h i = ge25519_p1p1_to_p3 (ge25519_madd h (precomp_pick ?t (sint ?d)))"
    by (simp add: madd_digit_def ge25519_cmov8_eq [OF d])
  moreover have "table_res tab ! (i div 2) = map precomp_res ?t" "map sint e ! i = sint ?d"
    using assms(1,2,5) by (simp_all add: table_res_def table_ok_def)
  ultimately show "p3_res (madd_digit tab e h i) = ed_madd (p3_res h) (ed_pick (table_res tab ! (i div 2)) (map sint e ! i))"
      "p3_bounded (madd_digit tab e h i)"
    using ge25519_madd_res [OF assms(4) p(2)] p(1) by simp_all
qed

lemma madd_digits_res:
  assumes "table_ok tab" "length e = 64" "\<And>d. d \<in> set e \<Longrightarrow> - 8 \<le> sint d \<and> sint d \<le> 8" "p3_bounded h" "\<And>i. i \<in> set is \<Longrightarrow> i < 64"
  shows "p3_res (foldl (madd_digit tab e) h is)
      = foldl (\<lambda>P i. ed_madd P (ed_pick (table_res tab ! (i div 2)) (map sint e ! i))) (p3_res h) is
    \<and> p3_bounded (foldl (madd_digit tab e) h is)"
  using assms(4,5)
proof (induction "is" arbitrary: h)
  case (Cons i "is")
  note m = madd_digit_res [OF assms(1-3) Cons.prems(1), of i]
  have "i < 64" using Cons.prems(2) by simp
  with Cons.IH [OF m(2)] m(1) Cons.prems(2) show ?case by simp
qed simp

lemma odd_even_upt: "map (\<lambda>k. 2 * k + 1) [0..<32] = filter odd [0..<64]" "map (\<lambda>k. 2 * k) [0..<32] = filter even [0..<64 :: nat]"
  by (simp_all add: upt_rec)

lemma scalarmult_digits_res:
  assumes "table_ok tab" "length e = 64" "\<And>d. d \<in> set e \<Longrightarrow> - 8 \<le> sint d \<and> sint d \<le> 8"
  shows "p3_res (scalarmult_digits tab e) = ed_scalarmult (table_res tab) (map sint e)" "p3_bounded (scalarmult_digits tab e)"
proof -
  have z: "p3_bounded ge25519_p3_0" "p3_res ge25519_p3_0 = ed_0"
    by (simp_all add: p3_bounded_def p3_res_def ge25519_p3_0_def ed_0_def)
  note a = madd_digits_res [OF assms z(1), of "filter odd [0..<64]"]
  define h where "h = foldl (madd_digit tab e) ge25519_p3_0 (filter odd [0..<64])"
  have "p3_bounded h" using a by (simp add: h_def)
  note d = four_doublings [OF this]
  note b = madd_digits_res [OF assms d(2), of "filter even [0..<64]"]
  show "p3_res (scalarmult_digits tab e) = ed_scalarmult (table_res tab) (map sint e)" "p3_bounded (scalarmult_digits tab e)"
    using a b unfolding scalarmult_digits_def ed_scalarmult_def Let_def odd_even_upt h_def [symmetric] d(1) z(2) by simp_all
qed

section \<open>The curve\<close>

text \<open>The points of \<open>y ^ 2 - x ^ 2 = 1 + d x ^ 2 y ^ 2\<close>, for the constant of the library.\<close>

definition ed_d :: int where
  "ed_d = int (fe_val ed25519_d)"

definition on_curve :: "ed_point \<Rightarrow> bool" where
  "on_curve P \<longleftrightarrow>
     (case P of (X, Y, Z, T) \<Rightarrow>
        int p25519 dvd Y ^ 2 - X ^ 2 - Z ^ 2 - ed_d * T ^ 2 \<and> int p25519 dvd X * Y - Z * T)"

definition entry_of :: "int \<Rightarrow> int \<Rightarrow> ed_entry" where
  "entry_of x y = ((y + x) mod int p25519, (y - x) mod int p25519, 2 * ed_d * x * y mod int p25519)"

definition entry_on_curve :: "ed_entry \<Rightarrow> bool" where
  "entry_on_curve q \<longleftrightarrow> (\<exists>x y. q = entry_of x y \<and> int p25519 dvd y ^ 2 - x ^ 2 - 1 - ed_d * x ^ 2 * y ^ 2)"

lemma dvd_mod_poly:
  fixes p :: int
  shows "p dvd (b mod p) ^ 2 - (a mod p) ^ 2 - (c mod p) ^ 2 - k * (t mod p) ^ 2 \<longleftrightarrow> p dvd b ^ 2 - a ^ 2 - c ^ 2 - k * t ^ 2"
    "p dvd (a mod p) * (b mod p) - (c mod p) * (t mod p) \<longleftrightarrow> p dvd a * b - c * t"
proof -
  have "((b mod p) ^ 2 - (a mod p) ^ 2 - (c mod p) ^ 2 - k * (t mod p) ^ 2) mod p = (b ^ 2 - a ^ 2 - c ^ 2 - k * t ^ 2) mod p"
      "((a mod p) * (b mod p) - (c mod p) * (t mod p)) mod p = (a * b - c * t) mod p"
    by (intro mod_diff_cong mod_mult_cong; simp add: power_mod)+
  then show "p dvd (b mod p) ^ 2 - (a mod p) ^ 2 - (c mod p) ^ 2 - k * (t mod p) ^ 2 \<longleftrightarrow> p dvd b ^ 2 - a ^ 2 - c ^ 2 - k * t ^ 2"
    "p dvd (a mod p) * (b mod p) - (c mod p) * (t mod p) \<longleftrightarrow> p dvd a * b - c * t"
    by (simp_all only: dvd_eq_mod_eq_0)
qed

lemma on_curve_complete:
  "on_curve (ed_complete X Y Z T) \<longleftrightarrow> int p25519 dvd (Y * Z) ^ 2 - (X * T) ^ 2 - (Z * T) ^ 2 - ed_d * (X * Y) ^ 2"
proof -
  have "X * T * (Y * Z) - Z * T * (X * Y) = 0" by (simp add: algebra_simps)
  then show ?thesis
    by (simp add: on_curve_def ed_complete_def dvd_mod_poly)
qed

lemma ed_madd_entry:
  "ed_madd (X, Y, Z, T) (entry_of x y)
     = ed_complete (2 * (Y * x + X * y)) (2 * (Y * y + X * x)) (2 * (Z + ed_d * x * y * T)) (2 * (Z - ed_d * x * y * T))"
proof -
  have e: "(Y + X) * (y + x) - (Y - X) * (y - x) = 2 * (Y * x + X * y)" "(Y + X) * (y + x) + (Y - X) * (y - x) = 2 * (Y * y + X * x)"
      "2 * Z + 2 * ed_d * x * y * T = 2 * (Z + ed_d * x * y * T)" "2 * Z - 2 * ed_d * x * y * T = 2 * (Z - ed_d * x * y * T)"
    by (simp_all add: algebra_simps)
  have "ed_madd (X, Y, Z, T) (entry_of x y) = ed_complete ((Y + X) * (y + x) - (Y - X) * (y - x)) ((Y + X) * (y + x) + (Y - X) * (y - x))
      (2 * Z + 2 * ed_d * x * y * T) (2 * Z - 2 * ed_d * x * y * T)"
    unfolding ed_madd_def entry_of_def Let_def ed_complete_def prod.case prod.inject
    by (intro conjI mod_mult_cong mod_diff_cong mod_add_cong; simp)
  then show ?thesis unfolding e .
qed

lemma madd_identity:
  fixes X Y Z T x y d p u1 u2 u3 :: int
  assumes "Y ^ 2 - X ^ 2 - Z ^ 2 - d * T ^ 2 = p * u1" "X * Y - Z * T = p * u2" "y ^ 2 - x ^ 2 - 1 - d * x ^ 2 * y ^ 2 = p * u3"
  shows "\<exists>w. (2 * (Y * y + X * x) * (2 * (Z + d * x * y * T))) ^ 2 - (2 * (Y * x + X * y) * (2 * (Z - d * x * y * T))) ^ 2
    - (2 * (Z + d * x * y * T) * (2 * (Z - d * x * y * T))) ^ 2 - d * (2 * (Y * x + X * y) * (2 * (Y * y + X * x))) ^ 2 = p * w"
  using assms by algebra

lemma dbl_identity:
  fixes X Y Z T d p u1 u2 :: int
  assumes "Y ^ 2 - X ^ 2 - Z ^ 2 - d * T ^ 2 = p * u1" "X * Y - Z * T = p * u2"
  shows "\<exists>w. ((Y ^ 2 + X ^ 2) * (Y ^ 2 - X ^ 2)) ^ 2 - (((X + Y) ^ 2 - (Y ^ 2 + X ^ 2)) * (2 * Z ^ 2 - (Y ^ 2 - X ^ 2))) ^ 2
    - ((Y ^ 2 - X ^ 2) * (2 * Z ^ 2 - (Y ^ 2 - X ^ 2))) ^ 2 - d * (((X + Y) ^ 2 - (Y ^ 2 + X ^ 2)) * (Y ^ 2 + X ^ 2)) ^ 2 = p * w"
  using assms by algebra

lemma on_curve_madd:
  assumes "on_curve P" "entry_on_curve q"
  shows "on_curve (ed_madd P q)"
proof -
  obtain X Y Z T where P: "P = (X, Y, Z, T)" by (cases P)
  obtain x y where q: "q = entry_of x y" "int p25519 dvd y ^ 2 - x ^ 2 - 1 - ed_d * x ^ 2 * y ^ 2"
    using assms(2) by (auto simp: entry_on_curve_def)
  from assms(1) q(2) obtain u1 u2 u3 where "Y ^ 2 - X ^ 2 - Z ^ 2 - ed_d * T ^ 2 = int p25519 * u1" "X * Y - Z * T = int p25519 * u2"
      "y ^ 2 - x ^ 2 - 1 - ed_d * x ^ 2 * y ^ 2 = int p25519 * u3"
    by (auto simp: on_curve_def P dvd_def)
  from madd_identity [OF this] show ?thesis
    unfolding P q(1) ed_madd_entry on_curve_complete dvd_def .
qed

lemma on_curve_dbl:
  assumes "on_curve P"
  shows "on_curve (ed_dbl P)"
proof -
  obtain X Y Z T where P: "P = (X, Y, Z, T)" by (cases P)
  from assms obtain u1 u2 where "Y ^ 2 - X ^ 2 - Z ^ 2 - ed_d * T ^ 2 = int p25519 * u1" "X * Y - Z * T = int p25519 * u2"
    by (auto simp: on_curve_def P dvd_def)
  from dbl_identity [OF this] show ?thesis
    unfolding P ed_dbl_def prod.case Let_def on_curve_complete dvd_def .
qed

lemma on_curve_0: "on_curve ed_0"
  by (simp add: on_curve_def ed_0_def)

lemma entry_on_curve_pick:
  assumes "list_all entry_on_curve tab" "length tab = 8" "- 8 \<le> e" "e \<le> 8"
  shows "entry_on_curve (ed_pick tab e)"
proof -
  have k: "nat (e - 1) < 8" "nat (- e - 1) < 8" using assms(3,4) by linarith+
  have o: "entry_on_curve (tab ! k)" if "k < 8" for k using assms(1,2) that by (simp add: list_all_length)
  have z: "entry_on_curve (1, 1, 0)"
    unfolding entry_on_curve_def by (rule exI [of _ 0], rule exI [of _ 1]) (simp add: entry_of_def p25519_def)
  obtain x y where xy: "tab ! nat (- e - 1) = entry_of x y" "int p25519 dvd y ^ 2 - x ^ 2 - 1 - ed_d * x ^ 2 * y ^ 2"
    using o [OF k(2)] by (auto simp: entry_on_curve_def)
  have "(case tab ! nat (- e - 1) of (yp, ym, t2) \<Rightarrow> (ym, yp, - t2 mod int p25519)) = entry_of (- x) y"
    by (simp add: xy(1) entry_of_def mod_minus_eq)
  moreover have "entry_on_curve (entry_of (- x) y)"
    unfolding entry_on_curve_def by (rule exI [of _ "- x"], rule exI [of _ y]) (use xy(2) in simp)
  ultimately show ?thesis using o [OF k(1)] z by (simp add: ed_pick_def)
qed

lemma on_curve_foldl:
  assumes "length tab = 32" "list_all (\<lambda>t. length t = 8 \<and> list_all entry_on_curve t) tab"
    "length ds = 64" "list_all (\<lambda>d. - 8 \<le> d \<and> d \<le> 8) ds" "on_curve P" "\<And>i. i \<in> set is \<Longrightarrow> i < 64"
  shows "on_curve (foldl (\<lambda>P i. ed_madd P (ed_pick (tab ! (i div 2)) (ds ! i))) P is)"
  using assms(5,6)
proof (induction "is" arbitrary: P)
  case (Cons i "is")
  have i: "i < 64" using Cons.prems(2) by simp
  then have "entry_on_curve (ed_pick (tab ! (i div 2)) (ds ! i))"
    using assms(1-4) by (intro entry_on_curve_pick) (auto simp: list_all_length)
  from on_curve_madd [OF Cons.prems(1) this] Cons show ?case by simp
qed simp

text \<open>With a table of points of the curve every multiple is a point of the curve.\<close>

lemma on_curve_scalarmult:
  assumes "length tab = 32" "list_all (\<lambda>t. length t = 8 \<and> list_all entry_on_curve t) tab"
    "length ds = 64" "list_all (\<lambda>d. - 8 \<le> d \<and> d \<le> 8) ds"
  shows "on_curve (ed_scalarmult tab ds)"
  unfolding ed_scalarmult_def Let_def by (intro on_curve_foldl [OF assms] on_curve_dbl on_curve_0) auto

section \<open>Constants\<close>

text \<open>The constant \<open>d\<close> is \<open>-121665 / 121666\<close>, and the first table entry is the point with \<open>y = 4 / 5\<close>.\<close>

lemma ed_d_value: "121666 * ed_d = - 121665 + 77955 * int p25519"
  by (simp add: ed_d_def ed25519_d_def p25519_def)

lemma base_point_y:
  "5 * (fe_val (yplusx (base ! 0 ! 0)) + fe_val (yminusx (base ! 0 ! 0))) = 8 + 3 * p25519"
  by (simp add: base_def base_0_def precomp_def p25519_def)

lemma table_ok_base: "table_ok base"
  using base_shape base_bounded by (simp add: table_ok_def list_all_iff)

end
