(* ===== verification/X25519_Base.thy ===== *)
theory X25519_Base
  imports X25519_Correct Ge25519_Correct Handshake
begin

text \<open>
  The public key of a scalar (\<open>crypto_scalarmult_curve25519_ref10_base\<close> of x25519_ref10.c), and the two functions of
  the library together as the implementation of X25519 that the handshake uses.
\<close>

unbundle bit_operations_syntax

section \<open>Model\<close>

definition edwards_to_montgomery :: "fe25519 \<Rightarrow> fe25519 \<Rightarrow> fe25519" where
  "edwards_to_montgomery edwardsY edwardsZ =
     (let tempX = fe25519_add edwardsZ edwardsY;
          tempZ = fe25519_sub edwardsZ edwardsY;
          tempZ = fe25519_invert tempZ
      in fe25519_mul tempX tempZ)"

definition crypto_scalarmult_curve25519_ref10_base :: "bytes \<Rightarrow> bytes" where
  "crypto_scalarmult_curve25519_ref10_base n =
     (let t = clamp n;
          A = ge25519_scalarmult_base t;
          pk = edwards_to_montgomery (p3_Y A) (p3_Z A)
      in fe25519_tobytes pk)"

definition crypto_scalarmult_curve25519_ref10_implementation :: x25519 where
  "crypto_scalarmult_curve25519_ref10_implementation =
     \<lparr>x_mult = crypto_scalarmult_curve25519_ref10, x_mult_base = crypto_scalarmult_curve25519_ref10_base\<rparr>"

section \<open>Lemmas\<close>

lemma edwards_to_montgomery_val:
  assumes "fe_bounded 52 y" "fe_bounded 52 z"
  shows "fe_res (edwards_to_montgomery y z) = (fe_res z + fe_res y) * (fe_res z - fe_res y) ^ (p25519 - 2) mod int p25519"
  using assms by (simp add: edwards_to_montgomery_def Let_def mod_simps power_mod)

lemma clamp_scalar:
  assumes "length n = 32"
  shows "length (recode (clamp n)) = 64" "digits_val (recode (clamp n)) = int (clamp_nat (le_nat n))"
    "\<And>d. d \<in> set (recode (clamp n)) \<Longrightarrow> - 8 \<le> sint d \<and> sint d \<le> 8"
  using recode_val [of "clamp n"] clamp_val [OF assms] clamp_nat_range(2) [of "le_nat n"] by simp_all

lemma ref10_sizes: "x25519_sizes crypto_scalarmult_curve25519_ref10_implementation"
  by (auto simp: x25519_sizes_def crypto_scalarmult_curve25519_ref10_implementation_def crypto_scalarmult_curve25519_ref10_def
      crypto_scalarmult_curve25519_ref10_base_def Let_def fe25519_tobytes_val split: if_splits prod.splits)

lemma le_nat_nat_le: "le_nat (nat_le n k) = k mod 256 ^ n"
proof (induction n arbitrary: k)
  case (Suc n)
  have "unat (word_of_nat k :: u8) = k mod 256" by (simp add: unsigned_of_nat take_bit_eq_mod [of 8 k])
  then show ?case using Suc mod_mult2_eq [of k 256 "256 ^ n"] by simp
qed simp

lemma nat_le_zeros:
  assumes "k < 256 ^ n"
  shows "nat_le n k = zeros n \<longleftrightarrow> k = 0"
proof
  assume "nat_le n k = zeros n"
  then have "le_nat (nat_le n k) = 0" by simp
  then show "k = 0" using assms by (simp add: le_nat_nat_le)
next
  assume "k = 0"
  then show "nat_le n k = zeros n" by (induction n arbitrary: k) (simp_all add: zeros_def)
qed

lemma x25519_spec_less: "x25519_spec k u < p25519"
proof -
  have "0 < int p25519" by (simp add: p25519_def)
  then show ?thesis
    unfolding x25519_spec_def by (simp add: nat_less_iff split: prod.splits)
qed

section \<open>Properties\<close>

text \<open>
  C16: the public key of a scalar. There are 64 signed digits of base 16 that represent the clamped scalar, each
  between -8 and 8, and the result is the coordinate \<open>(Z + Y) / (Z - Y)\<close>, in the 32 bytes of its encoding, of the point that
  the table of multiples of the base point gives for these digits by the formulas on integers modulo the
  prime.
\<close>

theorem x25519_base_digits:
  assumes "length n = 32"
  shows "\<exists>ds. length ds = 64 \<and> list_all (\<lambda>d. - 8 \<le> d \<and> d \<le> 8) ds
    \<and> (\<Sum>i<64. ds ! i * 16 ^ i) = int (clamp_nat (le_nat n))
    \<and> crypto_scalarmult_curve25519_ref10_base n =
        (case ed_scalarmult (table_res base) ds of
           (X, Y, Z, T) \<Rightarrow> nat_le 32 (nat ((Z + Y) * (Z - Y) ^ (p25519 - 2) mod int p25519)))"
proof (intro exI conjI)
  let ?e = "recode (clamp n)"
  note c = clamp_scalar [OF assms]
  show "length (map sint ?e) = 64" using c(1) by simp
  show "list_all (\<lambda>d. - 8 \<le> d \<and> d \<le> 8) (map sint ?e)" using c(3) by (auto simp: list_all_iff)
  show "(\<Sum>i<64. map sint ?e ! i * 16 ^ i) = int (clamp_nat (le_nat n))" using c(1,2) by (simp add: digits_val_def)
  have r: "p3_res (scalarmult_digits base ?e) = ed_scalarmult (table_res base) (map sint ?e)" "p3_bounded (scalarmult_digits base ?e)"
    by (rule scalarmult_digits_res [OF table_ok_base c(1)], erule c(3))+
  have "crypto_scalarmult_curve25519_ref10_base n =
      (case p3_res (scalarmult_digits base ?e) of
         (X, Y, Z, T) \<Rightarrow> nat_le 32 (nat ((Z + Y) * (Z - Y) ^ (p25519 - 2) mod int p25519)))"
    using r(2) by (simp add: crypto_scalarmult_curve25519_ref10_base_def Let_def ge25519_scalarmult_base_def fe25519_tobytes_eq
        p3_res_def p3_bounded_def edwards_to_montgomery_val)
  then show "crypto_scalarmult_curve25519_ref10_base n =
      (case ed_scalarmult (table_res base) (map sint ?e) of
         (X, Y, Z, T) \<Rightarrow> nat_le 32 (nat ((Z + Y) * (Z - Y) ^ (p25519 - 2) mod int p25519)))"
    unfolding r(1) .
qed

theorem x25519_base_digits_witness:
  "\<exists>ds. length ds = 64 \<and> (\<Sum>i<64. ds ! i * 16 ^ i) = int (clamp_nat (le_nat (replicate 32 1)))
    \<and> crypto_scalarmult_curve25519_ref10_base (replicate 32 1) =
        (case ed_scalarmult (table_res base) ds of
           (X, Y, Z, T) \<Rightarrow> nat_le 32 (nat ((Z + Y) * (Z - Y) ^ (p25519 - 2) mod int p25519)))"
  using x25519_base_digits [of "replicate 32 1"] by auto

text \<open>
  C14: the Diffie-Hellman function of the program, with the implementation of the library, is X25519 of RFC 7748. It
  fails with EBADMSG exactly if the coordinate is one of the listed points of small order or the result is zero.
\<close>

theorem vpn_dh_is_x25519:
  assumes "length n = 32" "length p = 32"
  shows "vpn_crypto_dh crypto_scalarmult_curve25519_ref10_implementation (Some p) (Some n) =
    (let u = le_nat p mod 2 ^ 255; q = x25519_spec (clamp_nat (le_nat n)) u
     in if u \<in> set small_order_points \<or> q = 0 then Inl EBADMSG else Inr (nat_le 32 q))"
proof -
  define u where "u = le_nat p mod 2 ^ 255"
  define q where "q = x25519_spec (clamp_nat (le_nat n)) u"
  have m: "x_mult crypto_scalarmult_curve25519_ref10_implementation n p = (if u \<in> set small_order_points then None else Some (nat_le 32 q))"
    using crypto_scalarmult_curve25519_ref10_eq [OF assms] has_small_order_eq [OF assms(2)]
    by (auto simp: crypto_scalarmult_curve25519_ref10_implementation_def crypto_scalarmult_curve25519_ref10_def u_def q_def)
  have "q < 256 ^ 32" unfolding q_def by (rule less_trans [OF x25519_spec_less]) (simp add: p25519_def)
  then have z: "nat_le 32 q = zeros 32 \<longleftrightarrow> q = 0" by (rule nat_le_zeros)
  show ?thesis
  proof (cases "u \<in> set small_order_points")
    case True
    then show ?thesis using m by (simp add: vpn_crypto_dh_def crypto_scalarmult_def u_def Let_def)
  next
    case False
    then have "crypto_scalarmult crypto_scalarmult_curve25519_ref10_implementation n p
        = (if q = 0 then - 1 else 0, nat_le 32 q)"
      using crypto_scalarmult_zero [of _ n p "nat_le 32 q"] m z length_nat_le by simp
    then show ?thesis using False unfolding u_def [symmetric] q_def [symmetric] Let_def by (simp add: vpn_crypto_dh_def)
  qed
qed

theorem vpn_dh_is_x25519_witness:
  "vpn_crypto_dh crypto_scalarmult_curve25519_ref10_implementation (Some (zeros 32)) (Some (replicate 32 1)) = Inl EBADMSG"
  using vpn_dh_is_x25519 [of "replicate 32 1" "zeros 32"] by (simp add: small_order_points_def)



end
