(* ===== verification/Spec2Isabelle.thy ===== *)
theory Spec2Isabelle
  imports Replay Routing Kdf Packet Tunnel Logging X25519_Base
begin

text \<open>
  Verification of the VPN tunnel.
\<close>

end
